(* ===== verification/Prelude.thy ===== *)
theory Prelude
  imports Main "HOL-Library.Word" "HOL-Library.Monad_Syntax"
begin

text \<open>
  Shared vocabulary of the development: the C integer types as words, memory reads that can
  fail, the byte order of the host, and the generic lemmas on words and lists the component
  theories share.

  A computation that reads memory has an \<open>option\<close> result. \<open>None\<close> stands for undefined
  behaviour (a read outside the object) and, for the probing loops, also for a loop that never
  ends; a theorem that a definition returns \<open>Some\<close> is therefore a memory-safety and
  termination statement.
\<close>

unbundle bit_operations_syntax

section \<open>C types and collections of facts\<close>

type_synonym u8 = "8 word"
type_synonym u16 = "16 word"
type_synonym u32 = "32 word"
type_synonym u64 = "64 word"

text \<open>C \<open>int\<close> values are 32-bit words read with \<^const>\<open>sint\<close>.\<close>

type_synonym cint = "32 word"

named_theorems mem_simps \<open>reads inside a buffer\<close>
named_theorems u32_arith \<open>word arithmetic below the wrap-around, as arithmetic on nat\<close>

section \<open>Reading and writing memory\<close>

definition rd :: "'a list \<Rightarrow> u32 \<Rightarrow> 'a option" where
  "rd p i = (if unat i < length p then Some (p ! unat i) else None)"

definition wr :: "'a list \<Rightarrow> u32 \<Rightarrow> 'a \<Rightarrow> 'a list option" where
  "wr p i v = (if unat i < length p then Some (p[unat i := v]) else None)"

definition rd_eq :: "u8 list \<Rightarrow> u32 \<Rightarrow> u8 \<Rightarrow> bool option" where
  "rd_eq p i v = map_option (\<lambda>b. b = v) (rd p i)"

text \<open>The short-circuit operators of C on conditions that read memory.\<close>

definition and_also :: "bool option \<Rightarrow> bool option \<Rightarrow> bool option" where
  "and_also x y = do { a \<leftarrow> x; if a then y else Some False }"

definition or_else :: "bool option \<Rightarrow> bool option \<Rightarrow> bool option" where
  "or_else x y = do { a \<leftarrow> x; if a then Some True else y }"

lemma and_also_Some [simp]: "and_also (Some a) y = (if a then y else Some False)"
  by (simp add: and_also_def)

lemma or_else_Some [simp]: "or_else (Some a) y = (if a then Some True else y)"
  by (simp add: or_else_def)

lemma rd_in [mem_simps]: "unat i < length p \<Longrightarrow> rd p i = Some (p ! unat i)"
  by (simp add: rd_def)

lemma wr_in [mem_simps]: "unat i < length p \<Longrightarrow> wr p i v = Some (p[unat i := v])"
  by (simp add: wr_def)

lemma rd_eq_in [mem_simps]: "unat i < length p \<Longrightarrow> rd_eq p i v = Some (p ! unat i = v)"
  by (simp add: rd_eq_def rd_in)

lemma rd_Some_iff: "rd p i = Some b \<longleftrightarrow> unat i < length p \<and> p ! unat i = b"
  by (auto simp: rd_def)

text \<open>Iterating a step that can fail over a list: the loop of libpcap over its packets, the loop
  over the addresses of a set.\<close>

fun foldM :: "('s \<Rightarrow> 'a \<Rightarrow> 's option) \<Rightarrow> 's \<Rightarrow> 'a list \<Rightarrow> 's option" where
  "foldM f s [] = Some s"
| "foldM f s (x # xs) = do { s' \<leftarrow> f s x; foldM f s' xs }"

lemma foldM_append: "foldM f s (xs @ ys) = do { s' \<leftarrow> foldM f s xs; foldM f s' ys }"
  by (induction xs arbitrary: s) simp_all

lemma foldM_invariant:
  assumes "\<And>s x. I s \<Longrightarrow> x \<in> set xs \<Longrightarrow> \<exists>s'. f s x = Some s' \<and> I s'" and "I s"
  shows "\<exists>s'. foldM f s xs = Some s' \<and> I s'"
  using assms
proof (induction xs arbitrary: s)
  case (Cons x xs)
  then obtain s' where "f s x = Some s'" "I s'" by (meson list.set_intros(1))
  with Cons show ?case by (metis bind.bind_lunit foldM.simps(2) list.set_intros(2))
qed simp

lemma foldM_keeps:
  assumes "\<And>s x s'. f s x = Some s' \<Longrightarrow> g s' = g s" and "foldM f s xs = Some s'"
  shows "g s' = g s"
  using assms(2)
proof (induction xs arbitrary: s)
  case (Cons x xs)
  then show ?case using assms(1) by (auto split: Option.bind_splits)
qed simp

text \<open>The same for steps that also answer: the answers in order, and the last state.\<close>

fun traceM :: "('s \<Rightarrow> 'a \<Rightarrow> ('b \<times> 's) option) \<Rightarrow> 's \<Rightarrow> 'a list \<Rightarrow> ('b list \<times> 's) option" where
  "traceM f s [] = Some ([], s)"
| "traceM f s (x # xs) = do { (r, s') \<leftarrow> f s x; (rs, t) \<leftarrow> traceM f s' xs; Some (r # rs, t) }"

lemma count_list_replicate [simp]: "count_list (replicate n x) x = n"
  by (induction n) simp_all

section \<open>Byte order\<close>

text \<open>
  The byte order of the host is a parameter. \<open>memcpy\<close> of four bytes into an
  \<open>unsigned int\<close> reads them in that order, and \<open>htonl\<close> is the conversion to network order.
\<close>

datatype endian = Little | Big

definition word_of_bytes_be :: "u8 \<Rightarrow> u8 \<Rightarrow> u8 \<Rightarrow> u8 \<Rightarrow> u32" where
  "word_of_bytes_be a b c d =
     push_bit 24 (ucast a) OR push_bit 16 (ucast b) OR push_bit 8 (ucast c) OR ucast d"

fun word_of_bytes :: "endian \<Rightarrow> u8 \<Rightarrow> u8 \<Rightarrow> u8 \<Rightarrow> u8 \<Rightarrow> u32" where
  "word_of_bytes Big a b c d = word_of_bytes_be a b c d"
| "word_of_bytes Little a b c d = word_of_bytes_be d c b a"

definition load32 :: "endian \<Rightarrow> u8 list \<Rightarrow> u32 \<Rightarrow> u32 option" where
  "load32 e p i = do {
     a \<leftarrow> rd p i; b \<leftarrow> rd p (i + 1); c \<leftarrow> rd p (i + 2); d \<leftarrow> rd p (i + 3);
     Some (word_of_bytes e a b c d) }"

text \<open>The addresses packed in a byte string: its complete groups of four bytes.\<close>

fun packed_addrs :: "endian \<Rightarrow> u8 list \<Rightarrow> u32 list" where
  "packed_addrs e (a # b # c # d # r) = word_of_bytes e a b c d # packed_addrs e r"
| "packed_addrs e _ = []"

lemma length_packed_addrs [simp]: "length (packed_addrs e xs) = length xs div 4"
  by (induction e xs rule: packed_addrs.induct) simp_all

lemma packed_addrs_nth:
  "4 * i + 4 \<le> length xs \<Longrightarrow>
     packed_addrs e xs ! i =
       word_of_bytes e (xs ! (4 * i)) (xs ! (4 * i + 1)) (xs ! (4 * i + 2)) (xs ! (4 * i + 3))"
proof (induction e xs arbitrary: i rule: packed_addrs.induct)
  case (1 e a b c d r)
  then show ?case by (cases i) (simp_all add: nth_Cons' add.commute [of 3])
qed simp_all

text \<open>The bytes of a word in memory, and reading them back.\<close>

fun bytes_of_word :: "endian \<Rightarrow> u32 \<Rightarrow> u8 list" where
  "bytes_of_word Big w = [ucast (drop_bit 24 w), ucast (drop_bit 16 w), ucast (drop_bit 8 w), ucast w]"
| "bytes_of_word Little w = [ucast w, ucast (drop_bit 8 w), ucast (drop_bit 16 w), ucast (drop_bit 24 w)]"

lemma word_of_bytes_be_split:
  "word_of_bytes_be (ucast (drop_bit 24 w)) (ucast (drop_bit 16 w)) (ucast (drop_bit 8 w)) (ucast w) = w"
proof (intro bit_word_eqI)
  fix n assume "n < LENGTH(32)"
  then consider "n < 8" | "8 \<le> n \<and> n < 16" | "16 \<le> n \<and> n < 24" | "24 \<le> n \<and> n < 32" by fastforce
  then show "bit (word_of_bytes_be (ucast (drop_bit 24 w)) (ucast (drop_bit 16 w)) (ucast (drop_bit 8 w))
      (ucast w)) n = bit w n"
    by cases (auto simp: word_of_bytes_be_def bit_simps)
qed

lemma length_bytes_of_word [simp]: "length (bytes_of_word e w) = 4"
  by (cases e) simp_all

lemma packed_addrs_bytes:
  "packed_addrs e (bytes_of_word e w @ r) = w # packed_addrs e r"
  by (cases e) (simp_all add: word_of_bytes_be_split)

definition be16 :: "u8 \<Rightarrow> u8 \<Rightarrow> u16" where
  "be16 hi lo = push_bit 8 (ucast hi) OR ucast lo"

section \<open>Word arithmetic below the wrap-around\<close>

lemma unat_add_small: "unat a + unat b < 2 ^ 32 \<Longrightarrow> unat (a + b :: u32) = unat a + unat b"
  by (simp add: unat_word_ariths)

lemma unat_less_u32 [simp]: "unat (a :: u32) < 4294967296"
  using unsigned_less [of a] by simp

lemma unat_numeral_small:
  assumes "(numeral n :: nat) < 2 ^ 32"
  shows "unat (numeral n :: u32) = numeral n"
proof -
  have "unat (of_nat (numeral n) :: u32) = numeral n mod 2 ^ 32"
    by (simp only: unat_of_nat len_bit0 len_num1) simp
  with assms show ?thesis by (simp only: of_nat_numeral mod_less)
qed

lemma unat_plus_numeral [u32_arith]:
  assumes "unat (a :: u32) + numeral n < 2 ^ 32"
  shows "unat (a + numeral n) = unat a + numeral n"
proof -
  have "(numeral n :: nat) < 2 ^ 32" using assms by linarith
  then show ?thesis using assms by (simp only: unat_add_small unat_numeral_small)
qed

lemma unat_plus_one [u32_arith]:
  "unat (a :: u32) + 1 < 2 ^ 32 \<Longrightarrow> unat (a + 1) = unat a + 1"
  by (simp add: unat_add_small)

lemma unat_inc_less:
  assumes "unat (i :: u32) < unat (n :: u32)"
  shows "unat (i + 1) = unat i + 1"
proof (rule unat_plus_one)
  have "unat i + 1 \<le> unat n" using assms by simp
  then show "unat i + 1 < 2 ^ 32" by (rule le_less_trans) simp
qed

lemma unat_minus_numeral [u32_arith]:
  assumes "numeral n \<le> unat (a :: u32)"
  shows "unat (a - numeral n) = unat a - numeral n"
proof -
  have "(numeral n :: nat) < 2 ^ 32"
    by (rule le_less_trans [OF assms]) simp
  then have "unat (numeral n :: u32) = numeral n" by (rule unat_numeral_small)
  with assms show ?thesis by (simp only: unat_sub word_le_nat_alt)
qed

lemma unat_minus_one_le [u32_arith]:
  "1 \<le> unat (a :: u32) \<Longrightarrow> unat (a - 1) = unat a - 1"
  by (simp add: unat_sub word_le_nat_alt)

lemma sint_small:
  assumes "unat (i :: u32) < 2 ^ 31"
  shows "sint i = int (unat i)"
proof -
  have u: "uint i = int (unat i)" by simp
  have "int (unat i) < int (2 ^ 31)" using assms by (subst of_nat_less_iff)
  then have "uint i < 2 ^ 31" by simp
  moreover have "- (2 ^ 31) \<le> uint i" by (rule order_trans [OF _ uint_ge_0]) simp
  ultimately have "signed_take_bit 31 (uint i) = uint i"
    by (intro signed_take_bit_int_eq_self)
  then show ?thesis by (simp only: sint_uint u) simp
qed

lemma load32_in [mem_simps]:
  assumes "unat i + 4 \<le> length p" and "unat i + 3 < 2 ^ 32"
  shows "load32 e p i =
    Some (word_of_bytes e (p ! unat i) (p ! (unat i + 1)) (p ! (unat i + 2)) (p ! (unat i + 3)))"
  using assms by (simp add: load32_def mem_simps u32_arith)

lemma unat_and_mask: "unat (a AND mask b :: u32) = unat a mod 2 ^ b"
proof -
  have "unat (a AND mask b) = take_bit b (unat a)"
    by (simp only: unsigned_take_bit_eq flip: take_bit_eq_mask)
  then show ?thesis by (simp only: take_bit_eq_mod)
qed

lemma unat_exp_u32: "k < 32 \<Longrightarrow> unat (2 ^ k :: u32) = 2 ^ k"
proof -
  assume "k < 32"
  then have "(2 :: nat) ^ k < 2 ^ 32" by (rule power_strict_increasing) simp
  then have "unat (word_of_nat (2 ^ k) :: u32) = 2 ^ k"
    by (simp only: unat_of_nat mod_less len_bit0 len_num1) simp
  then show ?thesis by simp
qed

lemma unat_ucast_u8: "unat (ucast (b :: u8) :: u32) = unat b"
proof -
  have "unat b < 2 ^ 8" using unsigned_less [of b] by simp
  also have "\<dots> \<le> (2 ^ 32 :: nat)" by simp
  finally show ?thesis by (simp add: unsigned_ucast_eq take_bit_nat_eq_self)
qed

lemma unat_ucast_u64: "unat (ucast (w :: u32) :: u64) = unat w"
proof -
  have "unat w < 2 ^ 32" using unsigned_less [of w] by simp
  also have "\<dots> \<le> (2 ^ 64 :: nat)" by simp
  finally show ?thesis by (simp add: unsigned_ucast_eq take_bit_nat_eq_self)
qed

lemma sint_nonneg: "0 \<le> sint (w :: u32) \<Longrightarrow> uint w = sint w"
proof -
  assume nonneg: "0 \<le> sint w"
  have "sint w = uint w - 2 ^ 32 * of_bool (bit (uint w) 31)"
    using uint_lt2p [of w]
    by (simp add: sint_uint signed_take_bit_eq_take_bit_minus take_bit_int_eq_self)
  then show ?thesis using nonneg uint_lt2p [of w] by (cases "bit (uint w) 31") auto
qed

end
