(* ===== verification/Ipv4_Locate.thy ===== *)
theory Ipv4_Locate
  imports Prelude
begin

text \<open>
  Finding the IPv4 header of a frame (\<open>src/pcapobj.cc\<close>): the loop of \<open>locate_ipv4\<close> used by
  the generic profile and the copy of it inlined in \<open>mt_classify\<close>. Both start at the configured
  layer-2 offset, accept the first offset whose byte has version nibble 4, and step over at
  most two VLAN tags (TPID 0x8100 or 0x88a8 in the two bytes before the current offset).

  A frame is a byte list \<open>p\<close> together with the captured length \<open>len\<close>; the callbacks pass
  \<open>len = caplen\<close>, and libpcap guarantees \<open>len \<le> length p\<close>. Reads outside \<open>p\<close> are \<open>None\<close>.
\<close>

section \<open>The two loops\<close>

definition vlan_before :: "u8 list \<Rightarrow> u32 \<Rightarrow> bool option" where
  "vlan_before p l2 =
     or_else (and_also (rd_eq p (l2 - 2) 0x81) (rd_eq p (l2 - 1) 0x00))
             (and_also (rd_eq p (l2 - 2) 0x88) (rd_eq p (l2 - 1) 0xa8))"

function locate_ipv4_loop :: "u8 list \<Rightarrow> u32 \<Rightarrow> nat \<Rightarrow> u32 \<Rightarrow> int option" where
  "locate_ipv4_loop p len vguard l2 =
     (if len < l2 + 20 then Some (- 1)
      else do {
        b \<leftarrow> rd p l2;
        if drop_bit 4 b = 4 then Some (sint l2)
        else if 2 \<le> vguard \<or> l2 < 2 then Some (- 1)
        else do {
          tag \<leftarrow> vlan_before p l2;
          if tag then locate_ipv4_loop p len (Suc vguard) (l2 + 4) else Some (- 1) } })"
  by pat_completeness auto
termination
  by (relation "measure (\<lambda>(p, len, vguard, l2). 2 - vguard)") auto

declare locate_ipv4_loop.simps [simp del]

definition locate_ipv4 :: "u32 \<Rightarrow> u8 list \<Rightarrow> u32 \<Rightarrow> int option" where
  "locate_ipv4 l2 p len = locate_ipv4_loop p len 0 l2"

text \<open>The loop at the head of \<open>mt_classify\<close>: \<open>Some None\<close> is its \<open>return 2\<close>,
  \<open>Some (Some l2)\<close> its \<open>break\<close>.\<close>

function mt_find_ipv4 :: "u8 list \<Rightarrow> u32 \<Rightarrow> nat \<Rightarrow> u32 \<Rightarrow> u32 option option" where
  "mt_find_ipv4 p len vguard l2 =
     (if len < l2 + 20 then Some None
      else do {
        b \<leftarrow> rd p l2;
        if drop_bit 4 b = 4 then Some (Some l2)
        else if 2 \<le> vguard \<or> l2 < 2 then Some None
        else do {
          tag \<leftarrow> vlan_before p l2;
          if tag then mt_find_ipv4 p len (Suc vguard) (l2 + 4) else Some None } })"
  by pat_completeness auto
termination
  by (relation "measure (\<lambda>(p, len, vguard, l2). 2 - vguard)") auto

declare mt_find_ipv4.simps [simp del]

section \<open>What the loops compute\<close>

text \<open>The specification, on natural-number offsets: an IPv4 header fits at \<open>i\<close> and starts with
  version nibble 4; a VLAN tag protocol identifier ends right before \<open>i\<close>, so that the tag control
  field is at \<open>i\<close>; counted from offset \<open>i\<close>, an IPv4 header lies behind \<open>k\<close> tags, one directly behind
  the other. A tag control field can look like a header, so there may be several such \<open>k\<close>.\<close>

definition v4_at :: "u8 list \<Rightarrow> nat \<Rightarrow> nat \<Rightarrow> bool" where
  "v4_at p n i \<longleftrightarrow> i + 20 \<le> n \<and> drop_bit 4 (p ! i) = 4"

definition tag_before :: "u8 list \<Rightarrow> nat \<Rightarrow> bool" where
  "tag_before p i \<longleftrightarrow> 2 \<le> i \<and>
     (p ! (i - 2) = 0x81 \<and> p ! (i - 1) = 0x00 \<or> p ! (i - 2) = 0x88 \<and> p ! (i - 1) = 0xa8)"

definition v4_behind_tags :: "u8 list \<Rightarrow> nat \<Rightarrow> nat \<Rightarrow> nat \<Rightarrow> bool" where
  "v4_behind_tags p n i k \<longleftrightarrow> v4_at p n (i + 4 * k) \<and> (\<forall>j < k. tag_before p (i + 4 * j))"

text \<open>The offset of the first IPv4 header behind at most two tags, if there is one.\<close>

definition ipv4_offset :: "u8 list \<Rightarrow> nat \<Rightarrow> nat \<Rightarrow> nat option" where
  "ipv4_offset p n i = map_option (\<lambda>k. i + 4 * k) (find (v4_behind_tags p n i) [0, 1, 2])"

definition first_behind_tags :: "u8 list \<Rightarrow> nat \<Rightarrow> nat \<Rightarrow> nat \<Rightarrow> bool" where
  "first_behind_tags p n i k \<longleftrightarrow> v4_behind_tags p n i k \<and> (\<forall>j < k. \<not> v4_behind_tags p n i j)"

lemma vlan_before_eq:
  assumes "2 \<le> unat l2" and "unat l2 \<le> length p"
  shows "vlan_before p l2 = Some (tag_before p (unat l2))"
  using assms
  by (simp add: vlan_before_def tag_before_def mem_simps u32_arith split: if_splits)

lemma header_fits_iff:
  "unat l2 + 20 < 2 ^ 32 \<Longrightarrow> len < l2 + 20 \<longleftrightarrow> unat len < unat l2 + 20" for len l2 :: u32
  by (simp add: word_less_nat_alt u32_arith)

lemma first_behind_tags_0: "first_behind_tags p n i 0 \<longleftrightarrow> v4_at p n i"
  by (simp add: first_behind_tags_def v4_behind_tags_def)

lemma v4_behind_tags_Suc:
  "v4_behind_tags p n i (Suc k) \<longleftrightarrow> tag_before p i \<and> v4_behind_tags p n (i + 4) k"
  by (auto simp: v4_behind_tags_def less_Suc_eq_0_disj algebra_simps)

lemma first_behind_tags_Suc:
  "first_behind_tags p n i (Suc k) \<longleftrightarrow>
     i + 20 \<le> n \<and> drop_bit 4 (p ! i) \<noteq> 4 \<and> tag_before p i \<and> first_behind_tags p n (i + 4) k"
proof -
  have "(\<forall>j < Suc k. \<not> v4_behind_tags p n i j) \<longleftrightarrow>
      \<not> v4_at p n i \<and> (tag_before p i \<longrightarrow> (\<forall>j < k. \<not> v4_behind_tags p n (i + 4) j))"
    unfolding All_less_Suc2 v4_behind_tags_Suc by (auto simp: v4_behind_tags_def)
  moreover have "i + 20 \<le> n" if "v4_behind_tags p n (i + 4) k"
    using that by (simp add: v4_behind_tags_def v4_at_def)
  ultimately show ?thesis unfolding first_behind_tags_def v4_behind_tags_Suc by (auto simp: v4_at_def)
qed

lemma first_behind_tags_unique:
  assumes "first_behind_tags p n i k" and "first_behind_tags p n i k'"
  shows "k = k'"
  using assms unfolding first_behind_tags_def by (metis linorder_neqE_nat)

lemma first_behind_tags_v4: "first_behind_tags p n i k \<Longrightarrow> v4_at p n (i + 4 * k)"
  by (simp add: first_behind_tags_def v4_behind_tags_def)

text \<open>The equivalence of the two copies needs no hypothesis: they read the same bytes in the
  same order and fail on the same reads.\<close>

lemma locate_ipv4_loop_eq:
  "locate_ipv4_loop p len g l2 =
     map_option (\<lambda>r. case r of None \<Rightarrow> - 1 | Some i \<Rightarrow> sint i) (mt_find_ipv4 p len g l2)"
proof (induction p len g l2 rule: locate_ipv4_loop.induct)
  case (1 p len g l2)
  then show ?case
    by (subst locate_ipv4_loop.simps, subst mt_find_ipv4.simps)
      (auto split: Option.bind_splits)
qed

lemma mt_find_ipv4_spec:
  assumes "g \<le> 2" and "unat len \<le> length p" and "unat l2 + 4 * (2 - g) + 20 < 2 ^ 32"
  shows "\<exists>r. mt_find_ipv4 p len g l2 = Some r \<and>
    (case r of
       Some i \<Rightarrow> \<exists>k \<le> 2 - g. unat i = unat l2 + 4 * k \<and>
                  first_behind_tags p (unat len) (unat l2) k
     | None \<Rightarrow> \<forall>k \<le> 2 - g. \<not> first_behind_tags p (unat len) (unat l2) k)"
  using assms
proof (induction p len g l2 rule: mt_find_ipv4.induct)
  case (1 p len g l2)
  note fits = header_fits_iff [of l2 len]
  have lt: "unat l2 + 20 < 2 ^ 32" using "1.prems" by simp
  show ?case
  proof (cases "len < l2 + 20")
    case True
    then have "unat len < unat l2 + 20" using fits lt by simp
    with True show ?thesis
      by (subst mt_find_ipv4.simps) (auto dest: first_behind_tags_v4 simp: v4_at_def)
  next
    case False
    then have inb: "unat l2 + 20 \<le> unat len" using fits lt by simp
    have b: "rd p l2 = Some (p ! unat l2)" using inb "1.prems" by (simp add: mem_simps)
    consider (v4) "drop_bit 4 (p ! unat l2) = 4"
      | (stop) "drop_bit 4 (p ! unat l2) \<noteq> 4" "2 \<le> g \<or> l2 < 2"
      | (tag) "drop_bit 4 (p ! unat l2) \<noteq> 4" "g < 2" "2 \<le> unat l2"
      by (cases "drop_bit 4 (p ! unat l2) = 4"; cases "2 \<le> g \<or> l2 < 2")
        (auto simp: word_less_nat_alt not_le)
    then show ?thesis
    proof cases
      case v4
      then have "first_behind_tags p (unat len) (unat l2) 0"
        using inb by (simp add: first_behind_tags_0 v4_at_def)
      with False b v4 show ?thesis
        by (subst mt_find_ipv4.simps) (auto intro: exI [of _ 0])
    next
      case stop
      have "\<not> first_behind_tags p (unat len) (unat l2) k" if "k \<le> 2 - g" for k
        using stop that
        by (cases k) (auto simp: first_behind_tags_0 first_behind_tags_Suc v4_at_def tag_before_def
            word_less_nat_alt)
      with False b stop show ?thesis by (subst mt_find_ipv4.simps) auto
    next
      case tag
      have vb: "vlan_before p l2 = Some (tag_before p (unat l2))"
        using tag inb "1.prems" by (intro vlan_before_eq) auto
      have l2': "\<not> l2 < 2" using tag by (simp add: word_less_nat_alt)
      show ?thesis
      proof (cases "tag_before p (unat l2)")
        case True
        have nxt: "unat (l2 + 4) = unat l2 + 4" using lt by (simp add: u32_arith)
        have bound: "unat (l2 + 4) + 4 * (2 - Suc g) + 20 < 2 ^ 32"
          using "1.prems"(3) tag(2) nxt by linarith
        have guard: "\<not> (2 \<le> g \<or> l2 < 2)" using tag l2' by simp
        have "Suc g \<le> 2" using tag by simp
        note ih = "1.IH" [OF False b tag(1) guard vb True this "1.prems"(2) bound]
        obtain r where r: "mt_find_ipv4 p len (Suc g) (l2 + 4) = Some r"
          and post: "(case r of Some i \<Rightarrow> \<exists>k \<le> 2 - Suc g. unat i = unat (l2 + 4) + 4 * k \<and>
                        first_behind_tags p (unat len) (unat (l2 + 4)) k
           | None \<Rightarrow> \<forall>k \<le> 2 - Suc g. \<not> first_behind_tags p (unat len) (unat (l2 + 4)) k)"
          using ih by blast
        have eq: "mt_find_ipv4 p len g l2 = Some r"
          using False b tag l2' vb True r by (subst mt_find_ipv4.simps) simp
        show ?thesis
        proof (cases r)
          case None
          then have "\<not> first_behind_tags p (unat len) (unat l2) k" if "k \<le> 2 - g" for k
            using post nxt tag that
            by (cases k) (auto simp: first_behind_tags_0 first_behind_tags_Suc v4_at_def)
          with eq None show ?thesis by simp
        next
          case (Some i)
          with post nxt obtain k where "k \<le> 2 - Suc g" "unat i = unat l2 + 4 * Suc k"
            "first_behind_tags p (unat len) (unat l2 + 4) k" by auto
          then have "Suc k \<le> 2 - g" "first_behind_tags p (unat len) (unat l2) (Suc k)"
            using tag inb True by (auto simp: first_behind_tags_Suc)
          with eq Some \<open>unat i = _\<close> show ?thesis by auto
        qed
      next
        case notag: False
        have "\<not> first_behind_tags p (unat len) (unat l2) k" for k
          using tag notag by (cases k) (auto simp: first_behind_tags_0 first_behind_tags_Suc v4_at_def)
        with False b tag vb l2' notag show ?thesis by (subst mt_find_ipv4.simps) auto
      qed
    qed
  qed
qed

text \<open>The same facts for the loops started at a layer-2 offset the entry points accept.\<close>

lemma find_upto_2:
  "find P [0, 1, 2] = Some k \<longleftrightarrow> k \<le> 2 \<and> P k \<and> (\<forall>j < k. \<not> P j)" for k :: nat
proof -
  have "(\<forall>j < (2 :: nat). Q j) \<longleftrightarrow> Q 0 \<and> Q 1" for Q using All_less_Suc [of 1 Q] by (auto simp: numeral_2_eq_2)
  then show ?thesis by (cases k rule: nat.exhaust; cases "k = 1"; cases "k = 2") auto
qed

lemma ipv4_offset_Some:
  "ipv4_offset p n i = Some j \<longleftrightarrow> (\<exists>k \<le> 2. first_behind_tags p n i k \<and> j = i + 4 * k)"
  unfolding ipv4_offset_def map_option_eq_Some find_upto_2 first_behind_tags_def by blast

lemma ipv4_offset_behind:
  "k \<le> 2 \<Longrightarrow> first_behind_tags p n i k \<Longrightarrow> ipv4_offset p n i = Some (i + 4 * k)"
  using ipv4_offset_Some by blast

lemma ipv4_offset_None:
  "ipv4_offset p n i = None \<longleftrightarrow> (\<forall>k \<le> 2. \<not> first_behind_tags p n i k)"
  using ipv4_offset_Some [of p n i] by (cases "ipv4_offset p n i") auto

lemma ipv4_offset_SomeD:
  "ipv4_offset p n i = Some j \<Longrightarrow> i \<le> j \<and> j \<le> i + 8 \<and> j + 20 \<le> n"
  using first_behind_tags_v4 by (fastforce simp: ipv4_offset_Some v4_at_def)

lemma mt_find_ipv4_offset:
  assumes "unat l2 \<le> 64" and "unat len \<le> length p"
  shows "\<exists>r. mt_find_ipv4 p len 0 l2 = Some r \<and>
    map_option unat r = ipv4_offset p (unat len) (unat l2)"
proof -
  have b: "unat l2 + 4 * (2 - 0) + 20 < 2 ^ 32" using assms(1) by simp
  obtain r where r: "mt_find_ipv4 p len 0 l2 = Some r"
    "case r of Some i \<Rightarrow> \<exists>k \<le> 2 - 0. unat i = unat l2 + 4 * k \<and>
                first_behind_tags p (unat len) (unat l2) k
     | None \<Rightarrow> \<forall>k \<le> 2 - 0. \<not> first_behind_tags p (unat len) (unat l2) k"
    using mt_find_ipv4_spec [OF _ assms(2) b] by blast
  then have "map_option unat r = ipv4_offset p (unat len) (unat l2)"
    using ipv4_offset_behind ipv4_offset_None by (cases r) (auto simp: eq_commute [of None])
  with r(1) show ?thesis by blast
qed

lemma locate_ipv4_offset:
  assumes "unat l2 \<le> 64" and "unat len \<le> length p"
  shows "locate_ipv4 l2 p len =
    Some (case ipv4_offset p (unat len) (unat l2) of None \<Rightarrow> - 1 | Some i \<Rightarrow> int i)"
proof -
  obtain r where r: "mt_find_ipv4 p len 0 l2 = Some r"
    "map_option unat r = ipv4_offset p (unat len) (unat l2)"
    using mt_find_ipv4_offset [OF assms] by blast
  show ?thesis
  proof (cases r)
    case None
    then show ?thesis using r by (simp add: locate_ipv4_def locate_ipv4_loop_eq flip: r(2))
  next
    case (Some i)
    then have "ipv4_offset p (unat len) (unat l2) = Some (unat i)" using r(2) by simp
    with ipv4_offset_SomeD [OF this] assms(1) Some r(1) show ?thesis
      by (simp add: locate_ipv4_def locate_ipv4_loop_eq sint_small)
  qed
qed

section \<open>VLAN-tagged Ethernet frames\<close>

text \<open>An Ethernet frame with 802.1Q (C-tag) or 802.1ad (S-tag) tags: 12 address bytes, per tag
  the TPID and the two TCI bytes, the EtherType of IPv4 and the IPv4 packet.\<close>

datatype vlan_tag = Vlan (s_tag: bool) (tci_hi: u8) (tci_lo: u8)

definition tag_bytes :: "vlan_tag \<Rightarrow> u8 list" where
  "tag_bytes t = (if s_tag t then [0x88, 0xa8] else [0x81, 0x00]) @ [tci_hi t, tci_lo t]"

definition vlan_frame :: "u8 list \<Rightarrow> vlan_tag list \<Rightarrow> u8 list \<Rightarrow> u8 list" where
  "vlan_frame macs ts ip = macs @ concat (map tag_bytes ts) @ [0x08, 0x00] @ ip"

lemma length_tag_bytes [simp]: "length (tag_bytes t) = 4"
  by (simp add: tag_bytes_def)

lemma length_tags [simp]: "length (concat (map tag_bytes ts)) = 4 * length ts"
  by (induction ts) simp_all

lemma length_vlan_frame [simp]:
  "length (vlan_frame macs ts ip) = length macs + 4 * length ts + 2 + length ip"
  by (simp add: vlan_frame_def)

text \<open>The bytes before and at offset 14 of a tagged frame are the first tag; skipping it leaves
  a frame with one tag less.\<close>

lemma vlan_frame_tag_before:
  "length macs = 12 \<Longrightarrow> tag_before (vlan_frame macs (t # ts) ip) 14"
  by (simp add: tag_before_def vlan_frame_def nth_append tag_bytes_def)

lemma vlan_frame_tci:
  "length macs = 12 \<Longrightarrow> vlan_frame macs (t # ts) ip ! 14 = tci_hi t"
  by (simp add: vlan_frame_def nth_append tag_bytes_def)

lemma vlan_frame_behind_tags:
  assumes "length macs = 12" and "ip = b # bs" and "20 \<le> length ip" and "drop_bit 4 b = 4"
    and "\<forall>t \<in> set ts. drop_bit 4 (tci_hi t) \<noteq> 4" and "n = length (vlan_frame macs ts ip)"
  shows "first_behind_tags (vlan_frame macs ts ip) n 14 (length ts)"
proof -
  define q where "q = vlan_frame macs ts ip"
  have nth: "q ! (12 + 4 * j + i) = tag_bytes (ts ! j) ! i" if "j < length ts" "i < 4" for i j
  proof -
    have "concat (map tag_bytes ts) ! (4 * j + i) = tag_bytes (ts ! j) ! i"
      using that
    proof (induction ts arbitrary: j)
      case (Cons t ts)
      then show ?case by (cases j) (auto simp: nth_append)
    qed simp
    then show ?thesis
      using that assms(1) unfolding q_def vlan_frame_def by (auto simp: nth_append)
  qed
  have tags: "drop_bit 4 (q ! (14 + 4 * j)) \<noteq> 4 \<and> tag_before q (14 + 4 * j)"
    if "j < length ts" for j
    using nth [OF that, of 0] nth [OF that, of 1] nth [OF that, of 2] assms(5) that
    by (auto simp: tag_before_def tag_bytes_def)
  have "q ! (14 + 4 * length ts) = b"
    using assms(1,2) by (simp add: q_def vlan_frame_def nth_append)
  then have "v4_behind_tags q n 14 (length ts)"
    using assms(1-4,6) tags by (simp add: v4_behind_tags_def v4_at_def q_def)
  moreover have "\<not> v4_behind_tags q n 14 j" if "j < length ts" for j
    using tags [OF that] by (simp add: v4_behind_tags_def v4_at_def)
  ultimately show ?thesis by (simp add: first_behind_tags_def q_def)
qed

section \<open>Properties\<close>

text \<open>C21: started at any accepted layer-2 offset, \<open>locate_ipv4\<close> reads only captured bytes and returns the
  offset of the first place, behind none, one or two VLAN tags, that has room for an IPv4 header and
  starts with version nibble 4, and -1 when there is none. So a header behind at most two tags is found
  when no tag control field on the way to it starts with the nibble 4 itself.\<close>

theorem locate_ipv4_correct:
  assumes "unat l2 \<le> 64" and "unat len \<le> length p"
  shows "locate_ipv4 l2 p len =
      Some (case find (v4_behind_tags p (unat len) (unat l2)) [0, 1, 2] of
              None \<Rightarrow> - 1 | Some k \<Rightarrow> int (unat l2 + 4 * k)) \<and>
    (\<forall>k \<le> 2. v4_behind_tags p (unat len) (unat l2) k \<and> (\<forall>j < k. drop_bit 4 (p ! (unat l2 + 4 * j)) \<noteq> 4) \<longrightarrow>
       locate_ipv4 l2 p len = Some (int (unat l2 + 4 * k)))"
proof -
  have "ipv4_offset p (unat len) (unat l2) = Some (unat l2 + 4 * k)"
    if "k \<le> 2" "v4_behind_tags p (unat len) (unat l2) k" "\<forall>j < k. drop_bit 4 (p ! (unat l2 + 4 * j)) \<noteq> 4" for k
    using that by (intro ipv4_offset_behind) (auto simp: first_behind_tags_def v4_behind_tags_def v4_at_def)
  then show ?thesis
    unfolding locate_ipv4_offset [OF assms] by (auto simp: ipv4_offset_def split: option.splits)
qed

text \<open>The witness: a frame of one tag with control field 0x0064, started at offset 14.\<close>

theorem locate_ipv4_correct_witness:
  "locate_ipv4 14 (replicate 12 0 @ [0x81, 0, 0, 0x64, 0x08, 0] @ 0x45 # replicate 19 0) 38 = Some 18"
proof -
  let ?p = "replicate 12 0 @ [0x81, 0, 0, 0x64, 0x08, 0] @ 0x45 # replicate 19 0 :: u8 list"
  have "v4_behind_tags ?p 38 14 1" by (simp add: v4_behind_tags_def v4_at_def tag_before_def nth_append)
  moreover have "\<forall>j < (1 :: nat). drop_bit 4 (?p ! (14 + 4 * j)) \<noteq> 4" by (simp add: nth_append)
  ultimately show ?thesis
    using locate_ipv4_correct [of 14 38 ?p, THEN conjunct2, THEN spec, of 1] by simp
qed

text \<open>An Ethernet frame whose IPv4 packet follows zero, one or two VLAN tags is located behind
  its tags, provided no tag control field starts with the nibble 4.\<close>

theorem locate_ipv4_vlan_transparent:
  assumes "length macs = 12" and "length ts \<le> 2" and "\<forall>t \<in> set ts. drop_bit 4 (tci_hi t) \<noteq> 4"
    and "drop_bit 4 b = 4" and "19 \<le> length bs"
    and "unat len = length (vlan_frame macs ts (b # bs))"
  shows "locate_ipv4 14 (vlan_frame macs ts (b # bs)) len = Some (14 + 4 * int (length ts))"
proof -
  have "first_behind_tags (vlan_frame macs ts (b # bs)) (unat len) 14 (length ts)"
    using vlan_frame_behind_tags [OF assms(1) refl _ assms(4,3) assms(6)] assms(5) by simp
  from ipv4_offset_behind [OF assms(2) this] assms(6) show ?thesis
    by (simp add: locate_ipv4_offset)
qed

theorem locate_ipv4_vlan_transparent_witness:
  "locate_ipv4 14 (vlan_frame (replicate 12 0) [Vlan True 0 7, Vlan False 0 100] (0x45 # replicate 19 0)) 42
     = Some 22"
  using locate_ipv4_vlan_transparent [where macs = "replicate 12 0" and b = "0x45"
      and ts = "[Vlan True 0 7, Vlan False 0 100]" and bs = "replicate 19 0" and len = 42]
  by simp

text \<open>C40: a VLAN tag whose control field starts with the nibble 4 (priority 2, drop-eligible bit
  clear) is taken for the IPv4 header: the tag is not skipped, whatever follows it.\<close>

theorem locate_ipv4_priority_2_tag:
  assumes "length macs = 12" and "drop_bit 4 (tci_hi t) = 4" and "16 \<le> length ip"
    and "unat len = length (vlan_frame macs (t # ts) ip)"
  shows "locate_ipv4 14 (vlan_frame macs (t # ts) ip) len = Some 14"
proof -
  have "first_behind_tags (vlan_frame macs (t # ts) ip) (unat len) 14 0"
    using assms vlan_frame_tci [OF assms(1)] by (simp add: first_behind_tags_0 v4_at_def)
  from ipv4_offset_behind [OF _ this] assms(4) show ?thesis by (simp add: locate_ipv4_offset)
qed

theorem locate_ipv4_priority_2_tag_witness:
  "locate_ipv4 14 (vlan_frame (replicate 12 0) [Vlan False 0x40 0x64] (0x45 # replicate 19 0)) 38 = Some 14"
  by (rule locate_ipv4_priority_2_tag) simp_all

end
