(* ===== verification/Ipset.thy ===== *)
theory Ipset
  imports Prelude
begin

text \<open>
  The IPv4 address set of the classifier, \<open>struct mt_ipset\<close> in \<open>src/pcapobj.cc\<close>: an
  open-addressing hash table of 32-bit words in host order with linear probing, a power-of-two
  number of slots and 0 (the address 0.0.0.0) as the empty slot.

  \<open>alloc n\<close> says whether an allocation of \<open>n\<close> bytes succeeds. The two probing loops have no
  bound of their own in the source, so they are partial functions: \<open>None\<close> is a loop that never
  ends or an access outside the table. The header's arithmetic (\<open>n * 2 + 1\<close>, \<open>i * 4\<close>) is kept on
  32-bit words.
\<close>

section \<open>The data structure and its operations\<close>

record mt_ipset =
  slots :: "u32 list"
  shift :: u32

definition ipset_slot :: "u32 \<Rightarrow> u32 \<Rightarrow> u32" where
  "ipset_slot sh ip = drop_bit (unat sh) (ip * 2654435761)"

text \<open>\<open>while (cap < n * 2 + 1 && bits < 31) { cap <<= 1; bits++; }\<close>\<close>

function ipset_cap :: "u32 \<Rightarrow> u32 \<Rightarrow> u32 \<Rightarrow> u32 \<times> u32" where
  "ipset_cap n cap bits =
     (if cap < n * 2 + 1 \<and> bits < 31 then ipset_cap n (push_bit 1 cap) (bits + 1) else (cap, bits))"
  by pat_completeness auto
termination
  by (relation "measure (\<lambda>(n, cap, bits). 31 - unat bits)")
    (auto simp: word_less_nat_alt u32_arith)

declare ipset_cap.simps [simp del]

text \<open>\<open>while (s->slots[j] && s->slots[j] != ip) j = (j + 1) & mask;\<close>\<close>

partial_function (option) ipset_free_slot :: "u32 list \<Rightarrow> u32 \<Rightarrow> u32 \<Rightarrow> u32 \<Rightarrow> u32 option" where
  "ipset_free_slot tab m ip j = do {
     v \<leftarrow> rd tab j;
     if v \<noteq> 0 \<and> v \<noteq> ip then ipset_free_slot tab m ip ((j + 1) AND m) else Some j }"

text \<open>The body of the insertion loop of \<open>ipset_build\<close>, for one address.\<close>

definition ipset_add :: "u32 \<Rightarrow> mt_ipset \<Rightarrow> u32 \<Rightarrow> mt_ipset option" where
  "ipset_add m s ip =
     (if ip = 0 then Some s
      else do {
        j \<leftarrow> ipset_free_slot (slots s) m ip (ipset_slot (shift s) ip);
        tab \<leftarrow> wr (slots s) j ip;
        Some (s\<lparr>slots := tab\<rparr>) })"

function ipset_fill :: "endian \<Rightarrow> u8 list \<Rightarrow> u32 \<Rightarrow> u32 \<Rightarrow> u32 \<Rightarrow> mt_ipset \<Rightarrow> mt_ipset option" where
  "ipset_fill e data n m i s =
     (if i < n
      then do { ip \<leftarrow> load32 e data (i * 4); s' \<leftarrow> ipset_add m s ip; ipset_fill e data n m (i + 1) s' }
      else Some s)"
  by pat_completeness auto
termination
proof (relation "measure (\<lambda>(e, data, n, m, i, s). unat n - unat i)", goal_cases)
  case (2 e data n m i s)
  then have lt: "unat i < unat n" by (simp add: word_less_nat_alt)
  then show ?case by (simp add: unat_inc_less)
qed simp

declare ipset_fill.simps [simp del]

definition ipset_build :: "endian \<Rightarrow> (nat \<Rightarrow> bool) \<Rightarrow> u8 list \<Rightarrow> mt_ipset option option" where
  "ipset_build e alloc data = (
     let n = word_of_nat (length data div 4); (cap, bits) = ipset_cap n 16 4 in
     if \<not> alloc 16 then Some None
     else if \<not> alloc (unat cap * 4) then Some None
     else do {
       s \<leftarrow> ipset_fill e data n (cap - 1) 0 \<lparr>slots = replicate (unat cap) 0, shift = 32 - bits\<rparr>;
       Some (Some s) })"

text \<open>\<open>while (s->slots[j]) { if (s->slots[j] == ip) return 1; j = (j + 1) & mask; } return 0;\<close>\<close>

partial_function (option) ipset_scan :: "u32 list \<Rightarrow> u32 \<Rightarrow> u32 \<Rightarrow> u32 \<Rightarrow> bool option" where
  "ipset_scan tab m ip j = do {
     v \<leftarrow> rd tab j;
     if v = 0 then Some False else if v = ip then Some True else ipset_scan tab m ip ((j + 1) AND m) }"

definition ipset_has :: "mt_ipset option \<Rightarrow> u32 \<Rightarrow> bool option" where
  "ipset_has s ip =
     (case s of
        None \<Rightarrow> Some False
      | Some s \<Rightarrow>
          if ip = 0 then Some False
          else ipset_scan (slots s) (drop_bit (unat (shift s)) 0xffffffff) ip
                 (ipset_slot (shift s) ip))"

section \<open>Linear probing\<close>

text \<open>\<open>stops tab x h d\<close>: walking from position \<open>h\<close>, the first slot that is empty or holds \<open>x\<close>
  is \<open>d\<close> steps away.\<close>

definition stops :: "u32 list \<Rightarrow> u32 \<Rightarrow> nat \<Rightarrow> nat \<Rightarrow> bool" where
  "stops tab x h d \<longleftrightarrow>
     tab ! ((h + d) mod length tab) \<in> {0, x} \<and>
     (\<forall>e < d. tab ! ((h + e) mod length tab) \<notin> {0, x})"

lemma stops_exists:
  assumes "0 \<in> set tab" and "h < length tab"
  shows "\<exists>d. stops tab x h d"
proof -
  let ?stop = "\<lambda>d. tab ! ((h + d) mod length tab) \<in> {0, x}"
  obtain k where k: "k < length tab" "tab ! k = 0" using assms(1) by (auto simp: in_set_conv_nth)
  have "(h + (k + length tab - h)) mod length tab = k" using k assms(2) by simp
  then have "?stop (k + length tab - h)" using k by simp
  then have "?stop (Least ?stop)" by (rule LeastI)
  moreover have "\<not> ?stop e" if "e < Least ?stop" for e using that by (rule not_less_Least)
  ultimately show ?thesis unfolding stops_def by blast
qed

lemma stops_Suc:
  assumes "stops tab x h (Suc d)" and "h < length tab"
  shows "tab ! h \<notin> {0, x} \<and> stops tab x (Suc h mod length tab) d"
proof -
  have shift: "(Suc h mod length tab + e) mod length tab = (h + Suc e) mod length tab" for e
    by (metis add_Suc add_Suc_right mod_add_left_eq)
  have "tab ! ((h + 0) mod length tab) \<notin> {0, x}" using assms(1) unfolding stops_def by blast
  then have "tab ! h \<notin> {0, x}" using assms(2) by simp
  moreover have "stops tab x (Suc h mod length tab) d"
    using assms(1) unfolding stops_def shift by auto
  ultimately show ?thesis ..
qed

lemma next_slot:
  assumes "b \<le> 31" and "unat j < 2 ^ b"
  shows "unat ((j + 1) AND mask b :: u32) = Suc (unat j) mod 2 ^ b"
proof -
  have "(2 :: nat) ^ b \<le> 2 ^ 31" using assms(1) by (intro power_increasing) simp_all
  then show ?thesis using assms(2) by (simp add: unat_and_mask u32_arith)
qed

text \<open>Both loops walk to the first stop: they end, inside the table.\<close>

lemma ipset_free_slot_stops:
  assumes "length tab = 2 ^ b" and "b \<le> 31" and "unat j < 2 ^ b" and "stops tab ip (unat j) d"
  shows "\<exists>r. ipset_free_slot tab (mask b) ip j = Some r \<and> unat r = (unat j + d) mod 2 ^ b"
  using assms(3,4)
proof (induction d arbitrary: j)
  case 0
  then show ?case using assms(1)
    by (subst ipset_free_slot.simps) (auto simp: stops_def mem_simps)
next
  case (Suc d)
  have nxt: "unat ((j + 1) AND mask b) = Suc (unat j) mod 2 ^ b"
    by (rule next_slot [OF assms(2) Suc.prems(1)])
  have st: "tab ! unat j \<notin> {0, ip}" "stops tab ip (unat ((j + 1) AND mask b)) d"
    using stops_Suc [OF Suc.prems(2)] Suc.prems(1) assms(1) nxt by simp_all
  have "unat ((j + 1) AND mask b) < 2 ^ b" by (simp add: nxt)
  from Suc.IH [OF this st(2)] obtain r where
    "ipset_free_slot tab (mask b) ip ((j + 1) AND mask b) = Some r"
    "unat r = (Suc (unat j) mod 2 ^ b + d) mod 2 ^ b" by (auto simp: nxt)
  moreover have "(Suc (unat j) mod 2 ^ b + d) mod 2 ^ b = (unat j + Suc d) mod 2 ^ b"
    by (simp add: mod_simps)
  ultimately show ?case
    using st(1) Suc.prems(1) assms(1) by (subst ipset_free_slot.simps) (auto simp: mem_simps)
qed

lemma ipset_scan_stops:
  assumes "length tab = 2 ^ b" and "b \<le> 31" and "unat j < 2 ^ b" and "stops tab ip (unat j) d"
    and "ip \<noteq> 0"
  shows "ipset_scan tab (mask b) ip j = Some (tab ! ((unat j + d) mod 2 ^ b) = ip)"
  using assms(3,4)
proof (induction d arbitrary: j)
  case 0
  then show ?case using assms(1,5)
    by (subst ipset_scan.simps) (auto simp: stops_def mem_simps)
next
  case (Suc d)
  have nxt: "unat ((j + 1) AND mask b) = Suc (unat j) mod 2 ^ b"
    by (rule next_slot [OF assms(2) Suc.prems(1)])
  have st: "tab ! unat j \<notin> {0, ip}" "stops tab ip (unat ((j + 1) AND mask b)) d"
    using stops_Suc [OF Suc.prems(2)] Suc.prems(1) assms(1) nxt by simp_all
  have "unat ((j + 1) AND mask b) < 2 ^ b" by (simp add: nxt)
  from Suc.IH [OF this st(2)]
  have "ipset_scan tab (mask b) ip ((j + 1) AND mask b) =
      Some (tab ! ((Suc (unat j) mod 2 ^ b + d) mod 2 ^ b) = ip)" by (simp add: nxt)
  moreover have "(Suc (unat j) mod 2 ^ b + d) mod 2 ^ b = (unat j + Suc d) mod 2 ^ b"
    by (simp add: mod_simps)
  ultimately show ?case
    using st(1) Suc.prems(1) assms(1) by (subst ipset_scan.simps) (auto simp: mem_simps)
qed

section \<open>The table invariant\<close>

definition members :: "u32 list \<Rightarrow> u32 set" where
  "members tab = {v \<in> set tab. v \<noteq> 0}"

definition reachable_at :: "u32 list \<Rightarrow> nat \<Rightarrow> u32 \<Rightarrow> bool" where
  "reachable_at tab h v \<longleftrightarrow>
     (\<exists>d. tab ! ((h + d) mod length tab) = v \<and> (\<forall>e < d. tab ! ((h + e) mod length tab) \<noteq> 0))"

text \<open>A power-of-two table whose shift selects its index bits, with an empty slot, in which every
  stored address is reached from its own slot without crossing an empty one.\<close>

definition wf_ipset :: "mt_ipset \<Rightarrow> bool" where
  "wf_ipset s \<longleftrightarrow>
     (\<exists>b. 1 \<le> b \<and> b \<le> 31 \<and> length (slots s) = 2 ^ b \<and> unat (shift s) = 32 - b) \<and>
     0 \<in> set (slots s) \<and>
     (\<forall>v \<in> members (slots s). reachable_at (slots s) (unat (ipset_slot (shift s) v)) v)"

text \<open>How many more addresses surely fit: the empty slots but one.\<close>

definition room :: "mt_ipset \<Rightarrow> nat" where
  "room s = count_list (slots s) 0 - 1"

definition addr_mask :: "mt_ipset \<Rightarrow> u32" where
  "addr_mask s = drop_bit (unat (shift s)) 0xffffffff"

lemma ipset_slot_less:
  "unat sh = 32 - b \<Longrightarrow> b \<le> 32 \<Longrightarrow> unat (ipset_slot sh v) < 2 ^ b"
proof -
  assume h: "unat sh = 32 - b" "b \<le> 32"
  have "unat (v * 2654435761) < 2 ^ (32 - b) * 2 ^ b"
    using h(2) by (simp flip: power_add)
  then have "unat (v * 2654435761) div 2 ^ (32 - b) < 2 ^ b"
    by (simp add: less_mult_imp_div_less mult.commute)
  then show ?thesis
    by (simp only: ipset_slot_def h(1) unat_drop_bit_eq) (simp only: drop_bit_eq_div)
qed

lemma addr_mask_eq: "unat (shift s) = 32 - b \<Longrightarrow> b \<le> 32 \<Longrightarrow> addr_mask s = mask b"
proof -
  assume h: "unat (shift s) = 32 - b" "b \<le> 32"
  have "(0xffffffff :: u32) = mask 32" by (simp add: mask_eq_exp_minus_1)
  then have "addr_mask s = drop_bit (32 - b) (mask 32)"
    by (simp only: addr_mask_def h(1))
  also have "\<dots> = (mask b :: u32)"
    using h(2) by (intro bit_word_eqI) (auto simp: bit_simps)
  finally show ?thesis .
qed

lemma count_list_update:
  "i < length xs \<Longrightarrow> xs ! i = x \<Longrightarrow> v \<noteq> x \<Longrightarrow>
     count_list xs x = Suc (count_list (xs[i := v]) x)"
  by (induction xs arbitrary: i) (auto simp: nth_Cons' list_update_code split: nat.splits)

lemma members_update:
  assumes "i < length tab" and "tab ! i \<in> {0, v}" and "v \<noteq> 0"
  shows "members (tab[i := v]) = insert v (members tab)"
proof (intro equalityI subsetI)
  fix w assume "w \<in> members (tab[i := v])"
  then show "w \<in> insert v (members tab)"
    using set_update_subset_insert [of tab i v] by (auto simp: members_def)
next
  fix w assume w: "w \<in> insert v (members tab)"
  show "w \<in> members (tab[i := v])"
  proof (cases "w = v")
    case True
    then show ?thesis using assms by (simp add: members_def set_update_memI)
  next
    case False
    with w obtain k where k: "k < length tab" "tab ! k = w" "w \<noteq> 0"
      by (auto simp: members_def in_set_conv_nth)
    with False assms(2) have "k \<noteq> i" by auto
    with k have "tab[i := v] ! k = w" "k < length (tab[i := v])" by simp_all
    then show ?thesis using k(3) by (auto simp: members_def in_set_conv_nth)
  qed
qed

text \<open>Filling an empty slot (or rewriting the address it holds) keeps every other address
  reachable, and makes the new one reachable.\<close>

lemma reachable_update:
  assumes "tab ! i \<in> {0, v}" and "reachable_at tab h w" and "w \<noteq> 0" and "v \<noteq> 0"
  shows "reachable_at (tab[i := v]) h w"
proof -
  obtain d where d: "tab ! ((h + d) mod length tab) = w"
    "\<forall>e < d. tab ! ((h + e) mod length tab) \<noteq> 0"
    using assms(2) by (auto simp: reachable_at_def)
  have keep: "tab[i := v] ! k = tab ! k" if "tab ! k \<noteq> 0" for k
    using that assms(1) by (cases "k = i"; cases "i < length tab") auto
  show ?thesis
    using d keep assms(3) by (auto simp: reachable_at_def intro!: exI [of _ d])
qed

lemma reachable_new:
  assumes "stops tab v h d" and "(h + d) mod length tab = i" and "tab \<noteq> []" and "v \<noteq> 0"
  shows "reachable_at (tab[i := v]) h v"
proof -
  have i: "i < length tab" using assms(2,3) by auto
  have "tab[i := v] ! ((h + e) mod length tab) \<noteq> 0" if "e < d" for e
    using assms(1,4) that i by (cases "(h + e) mod length tab = i") (auto simp: stops_def)
  then show ?thesis using assms(2) i by (auto simp: reachable_at_def intro!: exI [of _ d])
qed

text \<open>An address can be added as long as one slot is empty; the invariant survives while there is
  room for one more.\<close>

lemma ipset_add_last:
  assumes wf: "wf_ipset s"
  shows "\<exists>s'. ipset_add (addr_mask s) s ip = Some s' \<and>
    members (slots s') = (if ip = 0 then members (slots s) else insert ip (members (slots s))) \<and>
    (\<forall>v \<in> members (slots s'). reachable_at (slots s') (unat (ipset_slot (shift s') v)) v) \<and>
    count_list (slots s) 0 \<le> Suc (count_list (slots s') 0) \<and>
    shift s' = shift s \<and> length (slots s') = length (slots s)"
proof (cases "ip = 0")
  case True
  then show ?thesis using wf by (simp add: ipset_add_def wf_ipset_def)
next
  case ip: False
  obtain b where b: "1 \<le> b" "b \<le> 31" "length (slots s) = 2 ^ b" "unat (shift s) = 32 - b"
    using wf by (auto simp: wf_ipset_def)
  define h where "h = unat (ipset_slot (shift s) ip)"
  have h: "h < 2 ^ b" using ipset_slot_less [OF b(4)] b(2) by (simp add: h_def)
  obtain d where d: "stops (slots s) ip h d"
    using stops_exists [of "slots s" h ip] wf h b(3) by (auto simp: wf_ipset_def)
  obtain j where j: "ipset_free_slot (slots s) (mask b) ip (ipset_slot (shift s) ip) = Some j"
    "unat j = (h + d) mod 2 ^ b"
    using ipset_free_slot_stops [OF b(3,2), of "ipset_slot (shift s) ip" ip d] h d
    by (auto simp: h_def)
  have jl: "unat j < length (slots s)" by (simp add: j(2) b(3))
  then have ne: "slots s \<noteq> []" by auto
  have stop: "slots s ! unat j \<in> {0, ip}" using d by (simp add: stops_def j(2) b(3))
  define s' where "s' = s\<lparr>slots := (slots s)[unat j := ip]\<rparr>"
  have add: "ipset_add (addr_mask s) s ip = Some s'"
    using ip j(1) jl addr_mask_eq [OF b(4)] b(2) by (simp add: ipset_add_def wr_in s'_def)
  have mem: "members (slots s') = insert ip (members (slots s))"
    using members_update [OF jl stop ip] by (simp add: s'_def)
  have cnt: "count_list (slots s) 0 \<le> Suc (count_list (slots s') 0)"
    using count_list_update [OF jl _ ip] stop by (auto simp: s'_def list_update_same_conv)
  have "reachable_at (slots s') (unat (ipset_slot (shift s) v)) v" if "v \<in> members (slots s')" for v
  proof (cases "v = ip")
    case True
    then show ?thesis
      using reachable_new [OF d _ ne ip, of "unat j"] j(2) b(3) by (simp add: s'_def h_def)
  next
    case False
    then have "v \<in> members (slots s)" using that by (simp add: mem)
    then show ?thesis
      using wf reachable_update [OF stop _ _ ip] by (auto simp: s'_def wf_ipset_def members_def)
  qed
  with add mem cnt ip show ?thesis by (simp add: s'_def)
qed

lemma ipset_add_ok:
  assumes wf: "wf_ipset s" and room: "0 < room s"
  shows "\<exists>s'. ipset_add (addr_mask s) s ip = Some s' \<and> wf_ipset s' \<and> room s \<le> Suc (room s') \<and>
    members (slots s') = (if ip = 0 then members (slots s) else insert ip (members (slots s))) \<and>
    shift s' = shift s \<and> length (slots s') = length (slots s)"
proof -
  obtain s' where s': "ipset_add (addr_mask s) s ip = Some s'"
    "members (slots s') = (if ip = 0 then members (slots s) else insert ip (members (slots s)))"
    "\<forall>v \<in> members (slots s'). reachable_at (slots s') (unat (ipset_slot (shift s') v)) v"
    "count_list (slots s) 0 \<le> Suc (count_list (slots s') 0)" "shift s' = shift s"
    "length (slots s') = length (slots s)"
    using ipset_add_last [OF wf] by blast
  have "0 < count_list (slots s') 0" "room s \<le> Suc (room s')"
    using s'(4) room by (auto simp: room_def)
  then have "0 \<in> set (slots s')" by (metis count_list_0_iff less_irrefl)
  then have "wf_ipset s'" using wf s'(3,5,6) by (simp add: wf_ipset_def)
  with s' \<open>room s \<le> Suc (room s')\<close> show ?thesis by auto
qed

lemma ipset_has_ok:
  assumes wf: "wf_ipset s"
  shows "ipset_has (Some s) ip = Some (ip \<noteq> 0 \<and> ip \<in> members (slots s))"
proof (cases "ip = 0")
  case True
  then show ?thesis by (simp add: ipset_has_def)
next
  case ip: False
  obtain b where b: "1 \<le> b" "b \<le> 31" "length (slots s) = 2 ^ b" "unat (shift s) = 32 - b"
    using wf by (auto simp: wf_ipset_def)
  let ?tab = "slots s" and ?h = "unat (ipset_slot (shift s) ip)"
  have h: "?h < 2 ^ b" using ipset_slot_less [OF b(4)] b(2) by simp
  obtain d where d: "stops ?tab ip ?h d"
    using stops_exists [of ?tab ?h ip] wf h b(3) by (auto simp: wf_ipset_def)
  let ?v = "?tab ! ((?h + d) mod 2 ^ b)"
  have has: "ipset_has (Some s) ip = Some (?v = ip)"
    using ip ipset_scan_stops [OF b(3,2) h d ip] addr_mask_eq [OF b(4)] b(2)
    by (simp add: ipset_has_def addr_mask_def)
  have "?v \<in> set ?tab" by (rule nth_mem) (simp add: b(3))
  moreover have "?v = ip" if mem: "ip \<in> members ?tab"
  proof -
    have "reachable_at ?tab ?h ip" using wf mem by (auto simp: wf_ipset_def)
    then obtain d' where d': "?tab ! ((?h + d') mod 2 ^ b) = ip"
      "\<forall>e < d'. ?tab ! ((?h + e) mod 2 ^ b) \<noteq> 0"
      by (auto simp: reachable_at_def b(3))
    have "d \<le> d'" using d d'(1) by (auto simp: stops_def b(3) not_less [symmetric])
    then show ?thesis using d d' by (auto simp: stops_def b(3) le_less)
  qed
  ultimately show ?thesis using has ip by (auto simp: members_def)
qed

section \<open>The address-set interface\<close>

text \<open>What the classifier relies on: a set that answers membership, built by adding addresses while
  there is room. Address 0 is never a member.\<close>

locale addr_set =
  fixes add :: "'s \<Rightarrow> u32 \<Rightarrow> 's option"
    and has :: "'s \<Rightarrow> u32 \<Rightarrow> bool option"
    and addrs :: "'s \<Rightarrow> u32 set"
    and free :: "'s \<Rightarrow> nat"
    and wf :: "'s \<Rightarrow> bool"
  assumes add_ok: "wf s \<Longrightarrow> 0 < free s \<Longrightarrow>
      \<exists>s'. add s ip = Some s' \<and> wf s' \<and> free s \<le> Suc (free s') \<and>
           addrs s' = addrs s \<union> ({ip} - {0})"
    and has_ok: "wf s \<Longrightarrow> has s ip = Some (ip \<in> addrs s)"
begin

lemma add_all:
  assumes "wf s" and "length ips \<le> free s"
  shows "\<exists>s'. foldM add s ips = Some s' \<and> wf s' \<and> free s \<le> free s' + length ips \<and>
    addrs s' = addrs s \<union> (set ips - {0})"
  using assms
proof (induction ips arbitrary: s)
  case (Cons ip ips)
  from add_ok [OF Cons.prems(1), of ip] Cons.prems(2) obtain s1 where
    s1: "add s ip = Some s1" "wf s1" "free s \<le> Suc (free s1)" "addrs s1 = addrs s \<union> ({ip} - {0})"
    by auto
  with Cons.prems(2) have "length ips \<le> free s1" by simp
  from Cons.IH [OF s1(2) this] s1 show ?case by auto
qed simp

lemma built_set:
  assumes "wf s" and "length ips \<le> free s" and "addrs s = {}"
  shows "\<exists>s'. foldM add s ips = Some s' \<and> wf s' \<and> free s \<le> free s' + length ips \<and>
    (\<forall>ip. has s' ip = Some (ip \<noteq> 0 \<and> ip \<in> set ips))"
  using add_all [OF assms(1,2)] assms(3) has_ok by auto

end

interpretation ips: addr_set "\<lambda>s ip. ipset_add (addr_mask s) s ip" "\<lambda>s. ipset_has (Some s)"
  "\<lambda>s. members (slots s)" room wf_ipset
proof unfold_locales
  fix s ip assume "wf_ipset s" "0 < room s"
  from ipset_add_ok [OF this, of ip]
  show "\<exists>s'. ipset_add (addr_mask s) s ip = Some s' \<and> wf_ipset s' \<and> room s \<le> Suc (room s') \<and>
      members (slots s') = members (slots s) \<union> ({ip} - {0})" by (auto split: if_splits)
next
  fix s ip assume "wf_ipset s"
  then show "ipset_has (Some s) ip = Some (ip \<in> members (slots s))"
    by (simp add: ipset_has_ok) (auto simp: members_def)
qed

section \<open>Building the set\<close>

lemma ipset_add_shift: "ipset_add m s ip = Some s' \<Longrightarrow> shift s' = shift s"
  by (auto simp: ipset_add_def split: if_splits Option.bind_splits)

lemma ipset_add_length: "ipset_add m s ip = Some s' \<Longrightarrow> length (slots s') = length (slots s)"
  by (auto simp: ipset_add_def wr_def split: if_splits Option.bind_splits)

text \<open>Inserting the first \<open>n\<close> addresses, at most 2^30 so that their byte offsets do not wrap.\<close>

lemma ipset_fill_take:
  assumes "unat n \<le> length data div 4" and "unat n \<le> 2 ^ 30" and "addr_mask s = m"
    and "unat i \<le> unat n"
  shows "ipset_fill e data n m i s =
    foldM (\<lambda>s ip. ipset_add (addr_mask s) s ip) s (drop (unat i) (take (unat n) (packed_addrs e data)))"
  using assms
proof (induction e data n m i s rule: ipset_fill.induct)
  case (1 e data n m i s)
  let ?ips = "take (unat n) (packed_addrs e data)"
  show ?case
  proof (cases "i < n")
    case True
    then have lt: "unat i < unat n" by (simp add: word_less_nat_alt)
    have i4: "4 * unat i + 4 \<le> length data" using lt "1.prems"(1) by simp
    have small: "unat i < 2 ^ 30" using lt "1.prems"(2) by simp
    then have u: "unat (i * 4) = 4 * unat i" by (simp add: unat_word_ariths)
    define ip where "ip = packed_addrs e data ! unat i"
    have ld: "load32 e data (i * 4) = Some ip"
      using i4 small by (simp add: mem_simps u packed_addrs_nth ip_def add.commute)
    have dr: "drop (unat i) ?ips = ip # drop (unat (i + 1)) ?ips"
      using lt "1.prems"(1) Cons_nth_drop_Suc [of "unat i" ?ips] by (simp add: unat_inc_less [OF lt] ip_def)
    have rest: "ipset_fill e data n m (i + 1) s' =
        foldM (\<lambda>s ip. ipset_add (addr_mask s) s ip) s' (drop (unat (i + 1)) ?ips)"
      if "ipset_add m s ip = Some s'" for s'
      using "1.IH" [OF True ld that] "1.prems" ipset_add_shift [OF that] unat_inc_less [OF lt] lt
      by (simp add: addr_mask_def)
    show ?thesis
      using True ld dr rest "1.prems"(3)
      by (subst ipset_fill.simps) (auto simp: bind_eq_None_conv split: Option.bind_splits)
  next
    case False
    then have "unat i = unat n" using "1.prems"(4) by (simp add: word_less_nat_alt)
    then show ?thesis using False "1.prems"(1) by (subst ipset_fill.simps) simp
  qed
qed

lemma ipset_fill_eq:
  assumes "unat n = length data div 4" and "length data < 2 ^ 32" and "addr_mask s = m"
    and "unat i \<le> unat n"
  shows "ipset_fill e data n m i s =
    foldM (\<lambda>s ip. ipset_add (addr_mask s) s ip) s (drop (unat i) (packed_addrs e data))"
  using ipset_fill_take [of n data s m i e] assms by simp

text \<open>The insertion loop can be cut anywhere.\<close>

lemma ipset_fill_split:
  assumes "i \<le> a" and "a \<le> n"
  shows "ipset_fill e data n m i s = do { s' \<leftarrow> ipset_fill e data a m i s; ipset_fill e data n m a s' }"
  using assms
proof (induction e data a m i s rule: ipset_fill.induct)
  case (1 e data a m i s)
  show ?case
  proof (cases "i < a")
    case True
    then have lt: "unat i < unat a" by (simp add: word_less_nat_alt)
    have "i < n" "i + 1 \<le> a"
      using True "1.prems" unat_inc_less [OF lt] lt by (simp_all add: word_le_nat_alt word_less_nat_alt)
    then have step: "ipset_fill e data n m (i + 1) s' =
        do { s' \<leftarrow> ipset_fill e data a m (i + 1) s'; ipset_fill e data n m a s' }"
      if "load32 e data (i * 4) = Some ip" "ipset_add m s ip = Some s'" for ip s'
      using "1.IH" [OF True that] "1.prems" by blast
    show ?thesis
      unfolding ipset_fill.simps [of e data n m i s] ipset_fill.simps [of e data a m i s]
      using True \<open>i < n\<close> step by (auto split: Option.bind_splits)
  next
    case False
    then have "i = a" using "1.prems" by simp
    then show ?thesis by (simp add: ipset_fill.simps [of e data a m a s])
  qed
qed

lemma ipset_cap_spec:
  assumes "unat cap = 2 ^ unat bits" and "4 \<le> unat bits" and "unat bits \<le> 31"
    and "ipset_cap n cap bits = (cap', bits')"
  shows "unat cap' = 2 ^ unat bits' \<and> 4 \<le> unat bits' \<and> unat bits' \<le> 31 \<and>
    (unat (n * 2 + 1) \<le> unat cap' \<or> unat bits' = 31)"
  using assms
proof (induction n cap bits rule: ipset_cap.induct)
  case (1 n cap bits)
  show ?case
  proof (cases "cap < n * 2 + 1 \<and> bits < 31")
    case True
    then have b: "unat bits < 31" by (simp add: word_less_nat_alt)
    then have "(2 :: nat) ^ Suc (unat bits) \<le> 2 ^ 31" by (intro power_increasing) simp_all
    then have c: "unat (push_bit 1 cap) = 2 ^ Suc (unat bits)"
      using "1.prems"(1) by (simp add: push_bit_eq_mult unat_word_ariths)
    have b': "unat (bits + 1) = Suc (unat bits)" using b by (simp add: u32_arith)
    have "ipset_cap n (push_bit 1 cap) (bits + 1) = (cap', bits')"
      using "1.prems"(4) True by (simp only: ipset_cap.simps [of n cap bits] if_True simp_thms)
    moreover have "unat (push_bit 1 cap) = 2 ^ unat (bits + 1)" unfolding b' by (rule c)
    moreover have "4 \<le> unat (bits + 1)" "unat (bits + 1) \<le> 31" using b b' "1.prems"(2) by simp_all
    ultimately show ?thesis using "1.IH" [OF True] by blast
  next
    case False
    then have "cap' = cap" "bits' = bits"
      using "1.prems"(4) by (auto simp: ipset_cap.simps [of n cap bits] split: if_splits)
    with False "1.prems" show ?thesis by (auto simp: word_less_nat_alt not_less)
  qed
qed

text \<open>The address list fits: the table is empty, its shift selects its index bits, and it has more
  slots than there are addresses.\<close>

lemma ipset_initial:
  assumes "ipset_cap n 16 4 = (cap, bits)" and "unat n < 2 ^ 31"
  defines "s \<equiv> \<lparr>slots = replicate (unat cap) 0, shift = 32 - bits\<rparr>"
  shows "wf_ipset s" and "members (slots s) = {}" and "unat n \<le> room s"
    and "addr_mask s = cap - 1"
    and "unat n < 2 ^ 30 \<Longrightarrow> 2 * unat n + 1 \<le> length (slots s)"
proof -
  have "unat (16 :: u32) = 2 ^ unat (4 :: u32)" "4 \<le> unat (4 :: u32)" "unat (4 :: u32) \<le> 31"
    by simp_all
  note ipset_cap_spec [OF this assms(1)]
  then have spec: "unat cap = 2 ^ unat bits" "4 \<le> unat bits" "unat bits \<le> 31"
    "unat (n * 2 + 1) \<le> unat cap \<or> unat bits = 31"
    by blast+
  have n2: "unat (n * 2 + 1) = 2 * unat n + 1" using assms(2) by (simp add: unat_word_ariths)
  have big: "unat n + 1 \<le> unat cap"
    using spec(4) assms(2) unfolding n2 by (auto simp: spec(1))
  have sh: "unat (32 - bits) = 32 - unat bits"
    using spec(3) by (simp add: unat_sub word_le_nat_alt)
  show m: "members (slots s) = {}" by (auto simp: s_def members_def)
  show "wf_ipset s" using spec sh m by (auto simp: wf_ipset_def s_def intro!: exI [of _ "unat bits"])
  show "unat n \<le> room s" using big by (simp add: room_def s_def)
  have "addr_mask s = mask (unat bits)"
    using spec(3) sh by (intro addr_mask_eq) (simp_all add: s_def)
  moreover have "cap = 2 ^ unat bits"
    by (metis of_nat_numeral of_nat_power of_nat_unat spec(1) ucast_id)
  ultimately show "addr_mask s = cap - 1" by (simp add: mask_eq_exp_minus_1)
  show "2 * unat n + 1 \<le> length (slots s)" if "unat n < 2 ^ 30"
    using spec(4) that unfolding n2 by (auto simp: spec(1) s_def)
qed

text \<open>With both allocations granted, building returns a set over the packed addresses.\<close>

lemma ipset_build_spec:
  assumes "length data < 2 ^ 32" and "\<forall>k. alloc k"
  shows "\<exists>s. ipset_build e alloc data = Some (Some s) \<and> wf_ipset s \<and>
    (\<forall>ip. ipset_has (Some s) ip = Some (ip \<noteq> 0 \<and> ip \<in> set (packed_addrs e data))) \<and>
    2 * (length (slots s) - count_list (slots s) 0) < length (slots s)"
proof -
  obtain cap bits where cb: "ipset_cap (word_of_nat (length data div 4)) 16 4 = (cap, bits)"
    by fastforce
  define n :: u32 where "n = word_of_nat (length data div 4)"
  define s where "s = \<lparr>slots = replicate (unat cap) 0, shift = 32 - bits\<rparr>"
  have "length data div 4 < 2 ^ 30" using assms(1) by simp
  then have n: "unat n = length data div 4" "unat n < 2 ^ 30" by (simp_all add: n_def unat_of_nat)
  note init = ipset_initial [OF cb [folded n_def], folded s_def]
  have "unat n < 2 ^ 31" using n(2) by simp
  note init = init(1-4) [OF this] init(5) [OF this n(2)]
  obtain s' where s': "foldM (\<lambda>s ip. ipset_add (addr_mask s) s ip) s (packed_addrs e data) = Some s'"
    "wf_ipset s'" "room s \<le> room s' + length (packed_addrs e data)"
    "\<forall>ip. ipset_has (Some s') ip = Some (ip \<noteq> 0 \<and> ip \<in> set (packed_addrs e data))"
    using ips.built_set [OF init(1), of "packed_addrs e data"] init(2,3) n(1) by auto
  have "ipset_fill e data n (cap - 1) 0 s = Some s'"
    using ipset_fill_eq [OF n(1) assms(1) init(4), of 0 e] s'(1) by simp
  then have "ipset_build e alloc data = Some (Some s')"
    using assms(2) cb by (simp add: ipset_build_def n_def s_def)
  moreover have len: "length (slots s') = length (slots s)"
    by (rule foldM_keeps [where g = "\<lambda>s. length (slots s)", OF ipset_add_length s'(1)])
  moreover have "0 < count_list (slots s') 0"
    using s'(2) by (metis count_list_0_iff gr0I wf_ipset_def)
  moreover have "room s = length (slots s) - 1" by (simp add: room_def s_def)
  ultimately show ?thesis
    using s' init(5) n(1) by (intro exI [of _ s']) (auto simp: room_def)
qed

section \<open>When the table is too small\<close>

text \<open>The insertion loop only leaves through a slot that is empty or holds the address, so on a full
  table without the address it never ends.\<close>

lemma ipset_free_slot_result:
  assumes "ipset_free_slot tab m ip j = Some r"
  shows "unat r < length tab \<and> tab ! unat r \<in> {0, ip}"
proof (rule ipset_free_slot.raw_induct
    [where P = "\<lambda>tab m ip j r. unat r < length tab \<and> tab ! unat r \<in> {0, ip}", OF _ assms])
  fix f tab m ip j r
  assume ih: "\<And>tab m ip j r. f tab m ip j = Some r \<Longrightarrow> unat r < length tab \<and> tab ! unat r \<in> {0, ip}"
    and eq: "do { v \<leftarrow> rd tab j; if v \<noteq> 0 \<and> v \<noteq> ip then f tab m ip (j + 1 AND m) else Some j } = Some r"
  from eq ih [of tab m ip "j + 1 AND m" r]
  show "unat r < length tab \<and> tab ! unat r \<in> {0, ip}"
    by (auto simp: bind_eq_Some_conv rd_Some_iff split: if_splits)
qed

lemma ipset_add_members:
  assumes "ipset_add m s ip = Some s'"
  shows "members (slots s) \<subseteq> members (slots s') \<and> (ip \<noteq> 0 \<longrightarrow> ip \<in> members (slots s'))"
proof (cases "ip = 0")
  case True
  then show ?thesis using assms by (simp add: ipset_add_def)
next
  case False
  then obtain j where j: "ipset_free_slot (slots s) m ip (ipset_slot (shift s) ip) = Some j"
    "slots s' = (slots s)[unat j := ip]"
    using assms by (auto simp: ipset_add_def wr_def bind_eq_Some_conv split: if_splits)
  have "unat j < length (slots s)" "slots s ! unat j \<in> {0, ip}"
    using ipset_free_slot_result [OF j(1)] by simp_all
  from members_update [OF this False] show ?thesis by (simp add: j(2)) blast
qed

lemma ipset_fill_members:
  assumes "ipset_fill e data n m i s = Some s'"
  shows "members (slots s) \<subseteq> members (slots s') \<and> length (slots s') = length (slots s) \<and>
    (\<forall>k. unat i \<le> k \<and> k < unat n \<and> k < 2 ^ 30 \<and> 4 * k + 4 \<le> length data \<and>
         packed_addrs e data ! k \<noteq> 0 \<longrightarrow> packed_addrs e data ! k \<in> members (slots s'))"
  using assms
proof (induction e data n m i s rule: ipset_fill.induct)
  case (1 e data n m i s)
  show ?case
  proof (cases "i < n")
    case True
    then have lt: "unat i < unat n" by (simp add: word_less_nat_alt)
    obtain ip s1 where step: "load32 e data (i * 4) = Some ip" "ipset_add m s ip = Some s1"
      "ipset_fill e data n m (i + 1) s1 = Some s'"
      using "1.prems" True by (auto simp: ipset_fill.simps [of e data n m i s] bind_eq_Some_conv)
    note ih = "1.IH" [OF True step]
    have ip: "packed_addrs e data ! unat i = ip" if "unat i < 2 ^ 30" "4 * unat i + 4 \<le> length data"
    proof -
      have u: "unat (i * 4) = 4 * unat i" using that(1) by (simp add: unat_word_ariths)
      show ?thesis using step(1) that by (simp add: mem_simps u packed_addrs_nth add.commute)
    qed
    have "packed_addrs e data ! k \<in> members (slots s')"
      if k: "unat i \<le> k" "k < unat n" "k < 2 ^ 30" "4 * k + 4 \<le> length data"
        "packed_addrs e data ! k \<noteq> 0" for k
    proof (cases "k = unat i")
      case True
      then show ?thesis using ip k ipset_add_members [OF step(2)] ih by auto
    next
      case False
      then have "unat (i + 1) \<le> k" using k(1) unat_inc_less [OF lt] by simp
      then show ?thesis using ih k by blast
    qed
    then show ?thesis using ih ipset_add_members [OF step(2)] ipset_add_length [OF step(2)] by auto
  next
    case False
    then show ?thesis using "1.prems" by (auto simp: ipset_fill.simps [of e data n m i s] word_less_nat_alt)
  qed
qed

text \<open>The positions the insertion loop visits on a table of 16 slots, one after the other, and a table on
  which it visits them forever: every position is inside the table and holds another address.\<close>

definition probes :: "u32 \<Rightarrow> nat \<Rightarrow> u32" where
  "probes ip k = ((\<lambda>j. (j + 1) AND 15) ^^ k) (ipset_slot 28 ip)"

definition probes_forever :: "u32 list \<Rightarrow> u32 \<Rightarrow> bool" where
  "probes_forever tab ip \<longleftrightarrow> (\<forall>k. \<exists>v. rd tab (probes ip k) = Some v \<and> v \<noteq> 0 \<and> v \<noteq> ip)"

lemma probes_less: "unat (probes ip k) < 16"
proof (cases k)
  case 0
  then show ?thesis using ipset_slot_less [of 28 4 ip] by (simp add: probes_def)
next
  case (Suc l)
  have "(probes ip l + 1) AND 15 \<le> (15 :: u32)" by (rule word_and_le1)
  then have "unat ((probes ip l + 1) AND 15) \<le> 15" by (simp add: word_le_nat_alt)
  then show ?thesis by (simp add: Suc probes_def)
qed

lemma full_table_probes_forever:
  assumes "length tab = 16" and "0 \<notin> set tab" and "ip \<notin> set tab"
  shows "probes_forever tab ip"
  using assms probes_less [of ip] by (auto simp: probes_forever_def mem_simps) (metis nth_mem)+

text \<open>Such a walk is what the insertion loop does from its first slot: after any number of steps it is
  still running.\<close>

lemma ipset_free_slot_runs:
  assumes "probes_forever tab ip"
  shows "ipset_free_slot tab 15 ip (ipset_slot 28 ip) = ipset_free_slot tab 15 ip (probes ip k)"
proof (induction k)
  case (Suc k)
  obtain v where "rd tab (probes ip k) = Some v" "v \<noteq> 0" "v \<noteq> ip"
    using assms by (auto simp: probes_forever_def)
  then show ?case using Suc by (subst (asm) (2) ipset_free_slot.simps) (simp add: probes_def)
qed (simp add: probes_def)

text \<open>Sixteen distinct addresses fill sixteen slots.\<close>

lemma ipset_fill_sixteen:
  assumes "17 \<le> length data div 4" and "distinct (take 16 (packed_addrs e data))"
    and "0 \<notin> set (take 16 (packed_addrs e data))"
  shows "\<exists>tab. ipset_fill e data 16 15 0 \<lparr>slots = replicate 16 0, shift = 28\<rparr> =
      Some \<lparr>slots = tab, shift = 28\<rparr> \<and> length tab = 16 \<and> set tab = set (take 16 (packed_addrs e data))"
proof -
  let ?ips = "packed_addrs e data" and ?add = "\<lambda>s ip. ipset_add (addr_mask s) s ip"
  define s0 :: mt_ipset where "s0 = \<lparr>slots = replicate 16 0, shift = 28\<rparr>"
  have mask: "addr_mask s0 = 15" using addr_mask_eq [of s0 4] by (simp add: s0_def mask_eq_exp_minus_1)
  have wf: "wf_ipset s0" by (auto simp: wf_ipset_def s0_def members_def intro!: exI [of _ 4])
  have len: "16 \<le> length ?ips" using assms(1) by simp
  obtain s where s: "foldM ?add s0 (take 15 ?ips) = Some s" "wf_ipset s"
      "members (slots s) = set (take 15 ?ips) - {0}"
    using ips.add_all [OF wf, of "take 15 ?ips"] by (auto simp: s0_def room_def members_def)
  obtain s' where s': "?add s (?ips ! 15) = Some s'" "members (slots s') = members (slots s) \<union> ({?ips ! 15} - {0})"
    using ipset_add_last [OF s(2), of "?ips ! 15"] by (auto split: if_splits)
  have sixteen: "take 16 ?ips = take 15 ?ips @ [?ips ! 15]" using len take_Suc_conv_app_nth [of 15 ?ips] by simp
  have fill: "foldM ?add s0 (take 16 ?ips) = Some s'" using s(1) s'(1) by (simp add: sixteen foldM_append)
  have len': "length (slots s') = 16"
    using foldM_keeps [where g = "\<lambda>s. length (slots s)", OF ipset_add_length fill] by (simp add: s0_def)
  have sh: "shift s' = 28" using foldM_keeps [where g = shift, OF ipset_add_shift fill] by (simp add: s0_def)
  have mem: "members (slots s') = set (take 16 ?ips)" using s(3) s'(2) assms(3) unfolding sixteen by auto
  have "card (members (slots s')) = 16" using distinct_card [OF assms(2)] len by (simp add: mem)
  then have "members (slots s') = set (slots s')"
    using card_length [of "slots s'"] len' by (intro card_seteq) (auto simp: members_def)
  with mem have "set (slots s') = set (take 16 ?ips)" by simp
  moreover have "ipset_fill e data 16 15 0 s0 = Some s'"
    using ipset_fill_take [of 16 data s0 15 0 e] mask fill assms(1) by simp
  ultimately show ?thesis using len' sh by (intro exI [of _ "slots s'"]) (simp add: s0_def)
qed

section \<open>Properties\<close>

text \<open>C6: whenever the packed address list is shorter than 4 GiB and memory is available, building
  the address set ends without an access outside the table, and the set answers membership
  exactly: an address matches if and only if it is one of the packed addresses and is not
  0.0.0.0. Every lookup ends.\<close>

theorem ipset_membership_exact:
  assumes "length data < 2 ^ 32" and "\<forall>k. alloc k"
  shows "\<exists>s. ipset_build e alloc data = Some (Some s) \<and>
    (\<forall>ip. ipset_has (Some s) ip = Some (ip \<noteq> 0 \<and> ip \<in> set (packed_addrs e data)))"
  using ipset_build_spec [OF assms, of e] by blast

theorem ipset_membership_exact_witness:
  "\<exists>s. ipset_build Little (\<lambda>_. True) [198, 51, 100, 10] = Some (Some s) \<and>
    (\<forall>ip. ipset_has (Some s) ip =
       Some (ip \<noteq> 0 \<and> ip \<in> set (packed_addrs Little [198, 51, 100, 10])))"
  by (rule ipset_membership_exact) simp_all

text \<open>The table built from fewer than 2^30 addresses is always less than half full, so probe
  chains stay bounded by an empty slot.\<close>

theorem ipset_build_half_empty:
  assumes "length data < 2 ^ 32" and "\<forall>k. alloc k" and "ipset_build e alloc data = Some (Some s)"
  shows "2 * length (filter (\<lambda>v. v \<noteq> 0) (slots s)) < length (slots s)"
proof -
  have "length (filter (\<lambda>v. v \<noteq> 0) tab) + count_list tab 0 = length tab" for tab :: "u32 list"
    by (induction tab) auto
  from this [of "slots s"] show ?thesis
    using ipset_build_spec [OF assms(1,2), of e] assms(3) by auto
qed

theorem ipset_build_half_empty_witness:
  "\<exists>s. ipset_build Big (\<lambda>_. True) [10, 0, 0, 1, 10, 0, 0, 2] = Some (Some s) \<and>
    2 * length (filter (\<lambda>v. v \<noteq> 0) (slots s)) < length (slots s)"
proof -
  obtain s where s: "ipset_build Big (\<lambda>_. True) [10, 0, 0, 1, 10, 0, 0, 2] = Some (Some s)"
    using ipset_build_spec [of "[10, 0, 0, 1, 10, 0, 0, 2]" "\<lambda>_. True" Big] by auto
  have "2 * length (filter (\<lambda>v. v \<noteq> 0) (slots s)) < length (slots s)"
    by (rule ipset_build_half_empty [OF _ _ s]) simp_all
  with s show ?thesis by blast
qed

text \<open>C38: with 2^31 packed addresses, the first seventeen distinct and none of them 0.0.0.0, and memory
  available, building the set never ends: the 32-bit bound \<open>n * 2 + 1\<close> wraps to 1, the table keeps its
  16 initial slots, the first sixteen addresses fill them, and the loop that looks for a slot for the
  seventeenth visits slots inside the table that hold other addresses, forever.\<close>

theorem ipset_build_diverges_on_wrap:
  assumes "length data div 4 = 2 ^ 31" and "\<forall>k. alloc k"
    and "distinct (take 17 (packed_addrs e data))" and "0 \<notin> set (take 17 (packed_addrs e data))"
  shows "let n = word_of_nat (length data div 4); ip = packed_addrs e data ! 16;
        s0 = \<lparr>slots = replicate 16 0, shift = 28\<rparr> in
    ipset_cap n 16 4 = (16, 4) \<and> load32 e data (16 * 4) = Some ip \<and>
    (\<exists>tab. ipset_fill e data 16 15 0 s0 = Some \<lparr>slots = tab, shift = 28\<rparr> \<and>
       length tab = 16 \<and> set tab = set (take 16 (packed_addrs e data)) \<and>
       ipset_fill e data n 15 0 s0 = ipset_fill e data n 15 16 \<lparr>slots = tab, shift = 28\<rparr> \<and>
       probes_forever tab ip \<and>
       (\<forall>k. ipset_free_slot tab 15 ip (ipset_slot 28 ip) = ipset_free_slot tab 15 ip (probes ip k))) \<and>
    ipset_build e alloc data = None"
proof -
  let ?ips = "packed_addrs e data"
  define s0 :: mt_ipset where "s0 = \<lparr>slots = replicate 16 0, shift = 28\<rparr>"
  have n: "(word_of_nat (length data div 4) :: u32) = 0x80000000" by (simp add: assms(1))
  have cap: "ipset_cap 0x80000000 16 4 = (16, 4)" by (subst ipset_cap.simps) simp
  have len: "17 \<le> length ?ips" "17 \<le> length data div 4" "68 \<le> length data" using assms(1) by simp_all
  have seventeen: "take 17 ?ips = take 16 ?ips @ [?ips ! 16]" using len(1) take_Suc_conv_app_nth [of 16 ?ips] by simp
  have new: "?ips ! 16 \<notin> set (take 16 ?ips)" "?ips ! 16 \<noteq> 0" using assms(3,4) unfolding seventeen by simp_all
  have first: "distinct (take 16 ?ips)" "0 \<notin> set (take 16 ?ips)" using assms(3,4) unfolding seventeen by simp_all
  obtain tab where tab: "ipset_fill e data 16 15 0 s0 = Some \<lparr>slots = tab, shift = 28\<rparr>"
      "length tab = 16" "set tab = set (take 16 ?ips)"
    using ipset_fill_sixteen [OF len(2) first] by (auto simp: s0_def)
  have forever: "probes_forever tab (?ips ! 16)"
    using full_table_probes_forever [OF tab(2)] first(2) new(1) by (simp add: tab(3))
  have ld: "load32 e data (16 * 4) = Some (?ips ! 16)"
    using len(2,3) packed_addrs_nth [of 16 data e] by (simp add: mem_simps)
  have rest: "ipset_fill e data 0x80000000 15 0 s0 = ipset_fill e data 0x80000000 15 16 \<lparr>slots = tab, shift = 28\<rparr>"
    using ipset_fill_split [of 0 16 "0x80000000"] tab(1) by simp
  have stuck: "ipset_free_slot tab 15 (?ips ! 16) (ipset_slot 28 (?ips ! 16)) = None"
    using ipset_free_slot_result first(2) new by (metis not_None_eq nth_mem insert_iff empty_iff tab(3))
  then have "ipset_fill e data 0x80000000 15 16 \<lparr>slots = tab, shift = 28\<rparr> = None"
    using ld new(2) by (subst ipset_fill.simps) (simp add: ipset_add_def)
  then have "ipset_build e alloc data = None"
    using assms(2) rest cap by (simp add: ipset_build_def n s0_def)
  then show ?thesis using cap ld tab rest forever ipset_free_slot_runs [OF forever]
    unfolding Let_def n s0_def by blast
qed

text \<open>The witness: the addresses 1.0.0.1 to 1.0.0.17 followed by 8 GiB of zero bytes.\<close>

theorem ipset_build_diverges_on_wrap_witness:
  "let data = concat (map (\<lambda>i. [1, 0, 0, of_nat i]) [1..<18]) @ replicate (2 ^ 33 - 68) 0 :: u8 list;
       n = word_of_nat (length data div 4); ip = packed_addrs Big data ! 16;
       s0 = \<lparr>slots = replicate 16 0, shift = 28\<rparr> in
    ipset_cap n 16 4 = (16, 4) \<and> load32 Big data (16 * 4) = Some ip \<and>
    (\<exists>tab. ipset_fill Big data 16 15 0 s0 = Some \<lparr>slots = tab, shift = 28\<rparr> \<and>
       length tab = 16 \<and> set tab = set (take 16 (packed_addrs Big data)) \<and>
       ipset_fill Big data n 15 0 s0 = ipset_fill Big data n 15 16 \<lparr>slots = tab, shift = 28\<rparr> \<and>
       probes_forever tab ip \<and>
       (\<forall>k. ipset_free_slot tab 15 ip (ipset_slot 28 ip) = ipset_free_slot tab 15 ip (probes ip k))) \<and>
    ipset_build Big (\<lambda>_. True) data = None"
proof -
  let ?data = "concat (map (\<lambda>i. [1, 0, 0, of_nat i]) [1..<18]) @ replicate (2 ^ 33 - 68) 0 :: u8 list"
  have take17: "take 17 (packed_addrs Big ?data) = map (\<lambda>i. word_of_bytes Big 1 0 0 (of_nat i)) [1..<18]"
    by (simp add: upt_rec del: word_of_bytes.simps)
  have "distinct (take 17 (packed_addrs Big ?data))" "0 \<notin> set (take 17 (packed_addrs Big ?data))"
    unfolding take17 by (simp_all add: upt_rec word_of_bytes_be_def)
  from ipset_build_diverges_on_wrap [OF _ _ this, of "\<lambda>_. True"] show ?thesis
    unfolding Let_def by (simp add: upt_rec)
qed

end
