(* ===== verification/Flowtab.thy ===== *)
theory Flowtab
  imports Prelude
begin

text \<open>
  The per-flow packet counter of the classifier, \<open>struct mt_flowtab\<close> in \<open>src/pcapobj.cc\<close>: a
  direct-mapped table of 64-bit flow keys with a 32-bit counter per slot. A packet whose slot holds
  another key takes the slot over and restarts the counter.

  \<open>flow_key\<close> folds the directional 5-tuple into 64 bits. The theory shows that its finalizer is
  injective, so keys only collide where the two words it mixes collide, and that the table never
  reports more packets of a key than were seen.
\<close>

section \<open>The flow key\<close>

definition flow_key :: "u32 \<Rightarrow> u32 \<Rightarrow> u32 \<Rightarrow> u32 \<Rightarrow> u32 \<Rightarrow> u64" where
  "flow_key sip dip sport dport proto = (
     let a = push_bit 32 (ucast sip) OR ucast dip;
         b = push_bit 48 (ucast (sport AND 0xffff)) OR push_bit 32 (ucast (dport AND 0xffff))
             OR ucast (proto AND 0xff);
         a = a XOR b * 0x9E3779B97F4A7C15;
         a = a XOR drop_bit 30 a; a = a * 0xBF58476D1CE4E5B9;
         a = a XOR drop_bit 27 a; a = a * 0x94D049BB133111EB;
         a = a XOR drop_bit 31 a
     in a)"

text \<open>The parts of the key: the address word, the port and protocol word, the finalizer.\<close>

definition addr_word :: "u32 \<Rightarrow> u32 \<Rightarrow> u64" where
  "addr_word sip dip = push_bit 32 (ucast sip) OR ucast dip"

definition port_word :: "u32 \<Rightarrow> u32 \<Rightarrow> u32 \<Rightarrow> u64" where
  "port_word sport dport proto =
     push_bit 48 (ucast (sport AND 0xffff)) OR push_bit 32 (ucast (dport AND 0xffff))
       OR ucast (proto AND 0xff)"

definition xorshift :: "nat \<Rightarrow> u64 \<Rightarrow> u64" where
  "xorshift k a = a XOR drop_bit k a"

definition finalizer :: "u64 \<Rightarrow> u64" where
  "finalizer a =
     xorshift 31 (xorshift 27 (xorshift 30 a * 0xBF58476D1CE4E5B9) * 0x94D049BB133111EB)"

lemma flow_key_eq:
  "flow_key sip dip sp dp pr =
     finalizer (addr_word sip dip XOR port_word sp dp pr * 0x9E3779B97F4A7C15)"
  by (simp add: flow_key_def finalizer_def xorshift_def addr_word_def port_word_def Let_def)

lemma xorshift_inverse:
  assumes "22 \<le> k"
  shows "xorshift k a XOR drop_bit k (xorshift k a) XOR drop_bit (2 * k) (xorshift k a) = a"
proof (rule bit_word_eqI)
  fix n
  have e: "2 * k + m = k + (k + m)" for m by simp
  have "\<not> bit a (k + (k + (k + n)))" using assms bit_imp_le_length [of a "k + (k + (k + n))"] by auto
  then show "bit (xorshift k a XOR drop_bit k (xorshift k a) XOR drop_bit (2 * k) (xorshift k a)) n =
      bit a n"
    by (simp add: xorshift_def bit_simps e add.assoc) blast
qed

lemma xorshift_inj: "22 \<le> k \<Longrightarrow> xorshift k a = xorshift k b \<longleftrightarrow> a = b"
  by (metis xorshift_inverse)

lemma mult_inj_by_inverse:
  fixes a b c d :: u64
  assumes "c * d = 1"
  shows "a * c = b * c \<longleftrightarrow> a = b"
proof
  assume "a * c = b * c"
  then have "a * (c * d) = b * (c * d)" by (simp only: mult.assoc [symmetric])
  then show "a = b" by (simp only: assms mult_1_right)
qed simp

lemma golden_inj: "a * 0x9E3779B97F4A7C15 = b * 0x9E3779B97F4A7C15 \<longleftrightarrow> a = (b :: u64)"
  by (rule mult_inj_by_inverse [where d = "0xf1de83e19937733d"]) simp

lemma finalizer_inj: "finalizer a = finalizer b \<longleftrightarrow> a = b"
proof -
  have m1: "a * 0xBF58476D1CE4E5B9 = b * 0xBF58476D1CE4E5B9 \<longleftrightarrow> a = b" for a b :: u64
    by (rule mult_inj_by_inverse [where d = "0x96de1b173f119089"]) simp
  have m2: "a * 0x94D049BB133111EB = b * 0x94D049BB133111EB \<longleftrightarrow> a = b" for a b :: u64
    by (rule mult_inj_by_inverse [where d = "0x319642b2d24d8ec3"]) simp
  show ?thesis by (simp add: finalizer_def xorshift_inj m1 m2)
qed

lemma xor_right_cancel: "a XOR c = b XOR c \<longleftrightarrow> a = (b :: u64)"
proof
  assume "a XOR c = b XOR c"
  then have "a XOR (c XOR c) = b XOR (c XOR c)" by (simp only: xor.assoc [symmetric])
  then show "a = b" by simp
qed simp

lemma xor_left_cancel: "c XOR a = c XOR b \<longleftrightarrow> a = (b :: u64)"
  using xor_right_cancel [of a c b] by (simp only: xor.commute)

lemma no_bit_u32: "32 \<le> n \<Longrightarrow> \<not> bit (w :: u32) n"
  using bit_imp_le_length [of w n] by auto

lemma addr_word_inj: "addr_word s d = addr_word s' d' \<longleftrightarrow> s = s' \<and> d = d'"
proof
  assume eq: "addr_word s d = addr_word s' d'"
  have "ucast (addr_word s d) = d" "ucast (drop_bit 32 (addr_word s d)) = s" for s d
    by (auto intro!: bit_word_eqI simp: addr_word_def bit_simps no_bit_u32)
  with eq show "s = s' \<and> d = d'" by metis
qed simp

lemma port_word_inj:
  "port_word s d p = port_word s' d' p' \<longleftrightarrow>
     s AND 0xffff = s' AND 0xffff \<and> d AND 0xffff = d' AND 0xffff \<and> p AND 0xff = p' AND 0xff"
proof
  assume eq: "port_word s d p = port_word s' d' p'"
  have m16: "(0xffff :: u32) = mask 16" and m8: "(0xff :: u32) = mask 8"
    by (simp_all add: mask_eq_exp_minus_1)
  have "ucast (drop_bit 48 (port_word s d p)) = s AND 0xffff"
    "ucast (drop_bit 32 (port_word s d p)) AND 0xffff = d AND 0xffff"
    "ucast (port_word s d p) AND 0xff = p AND 0xff" for s d p
    unfolding m16 m8 by (auto intro!: bit_word_eqI simp: port_word_def m16 m8 bit_simps)
  with eq show "s AND 0xffff = s' AND 0xffff \<and> d AND 0xffff = d' AND 0xffff \<and> p AND 0xff = p' AND 0xff"
    by metis
qed (simp add: port_word_def)

section \<open>The table\<close>

record mt_flowtab =
  keys :: "u64 list"
  cnt :: "u32 list"
  fmask :: u32

definition flowtab_build :: "(nat \<Rightarrow> bool) \<Rightarrow> u32 \<Rightarrow> mt_flowtab option" where
  "flowtab_build alloc bits = (
     let cap = push_bit (unat bits) 1 :: u32 in
     if \<not> alloc 24 then None
     else if \<not> alloc (unat cap * 8) \<or> \<not> alloc (unat cap * 4) then None
     else Some \<lparr>keys = replicate (unat cap) 0, cnt = replicate (unat cap) 0, fmask = cap - 1\<rparr>)"

definition flow_seen :: "mt_flowtab \<Rightarrow> u64 \<Rightarrow> (u32 \<times> mt_flowtab) option" where
  "flow_seen f key = do {
     let slot = ucast key AND fmask f;
     k \<leftarrow> rd (keys f) slot;
     f1 \<leftarrow> (if k \<noteq> key
           then do { ks \<leftarrow> wr (keys f) slot key; cs \<leftarrow> wr (cnt f) slot 0;
                     Some (f\<lparr>keys := ks, cnt := cs\<rparr>) }
           else Some f);
     c \<leftarrow> rd (cnt f1) slot;
     cs \<leftarrow> wr (cnt f1) slot (c + 1);
     Some (c, f1\<lparr>cnt := cs\<rparr>) }"

definition wf_flowtab :: "mt_flowtab \<Rightarrow> bool" where
  "wf_flowtab f \<longleftrightarrow> (\<exists>b \<le> 31. length (keys f) = 2 ^ b \<and> length (cnt f) = 2 ^ b \<and> fmask f = mask b)"

definition flow_slot :: "mt_flowtab \<Rightarrow> u64 \<Rightarrow> nat" where
  "flow_slot f key = unat (ucast key AND fmask f)"

text \<open>How many packets the table has on record for a key.\<close>

definition recorded :: "mt_flowtab \<Rightarrow> u64 \<Rightarrow> nat" where
  "recorded f key =
     (if keys f ! flow_slot f key = key then unat (cnt f ! flow_slot f key) else 0)"

lemma flow_slot_less: "wf_flowtab f \<Longrightarrow> flow_slot f key < length (keys f) \<and> length (cnt f) = length (keys f)"
  by (auto simp: wf_flowtab_def flow_slot_def unat_and_mask)

lemma flow_seen_ok:
  assumes "wf_flowtab f"
  shows "\<exists>f'. flow_seen f key = Some (word_of_nat (recorded f key), f') \<and> wf_flowtab f' \<and>
    fmask f' = fmask f \<and>
    recorded f' key = Suc (recorded f key) mod 2 ^ 32 \<and>
    (\<forall>k. k \<noteq> key \<longrightarrow>
      recorded f' k = (if flow_slot f k = flow_slot f key then 0 else recorded f k))"
proof -
  define i where "i = flow_slot f key"
  have i: "i < length (keys f)" "i < length (cnt f)"
    using flow_slot_less [OF assms] by (simp_all add: i_def)
  let ?c = "if keys f ! i = key then cnt f ! i else 0"
  define f' where "f' = f\<lparr>keys := (keys f)[i := key], cnt := (cnt f)[i := ?c + 1]\<rparr>"
  have same: "(keys f)[i := key] = keys f" if "keys f ! i = key"
    using that by (metis list_update_id)
  have "flow_seen f key = Some (?c, f')"
  proof (cases "keys f ! i = key")
    case True
    then show ?thesis using i same
      by (simp add: flow_seen_def Let_def rd_def wr_def f'_def i_def flow_slot_def)
  next
    case False
    then show ?thesis using i
      by (simp add: flow_seen_def Let_def rd_def wr_def f'_def i_def flow_slot_def)
  qed
  moreover have "?c = word_of_nat (recorded f key)"
    by (simp add: recorded_def i_def)
  moreover have "recorded f' key = Suc (recorded f key) mod 2 ^ 32"
    using i by (simp add: recorded_def f'_def flow_slot_def i_def unat_word_ariths)
  moreover have "recorded f' k = (if flow_slot f k = flow_slot f key then 0 else recorded f k)"
    if "k \<noteq> key" for k
    using that i by (simp add: recorded_def f'_def flow_slot_def i_def)
  moreover have "wf_flowtab f'" using assms by (auto simp: wf_flowtab_def f'_def)
  ultimately show ?thesis by (auto simp: f'_def)
qed

lemma flowtab_build_ok:
  assumes "flowtab_build alloc bits = Some f" and "unat bits \<le> 31"
  shows "wf_flowtab f \<and> recorded f key = 0 \<and> fmask f = mask (unat bits)"
proof -
  have f: "f = \<lparr>keys = replicate (2 ^ unat bits) 0, cnt = replicate (2 ^ unat bits) 0,
      fmask = push_bit (unat bits) 1 - 1\<rparr>"
    using assms by (auto simp: flowtab_build_def Let_def push_bit_of_1 unat_exp_u32 split: if_splits)
  have m: "fmask f = mask (unat bits)" by (simp add: f mask_eq_exp_minus_1 push_bit_of_1)
  have wf: "wf_flowtab f" using assms(2) m by (auto simp: wf_flowtab_def f)
  have "cnt f ! i = 0" if "i < length (keys f)" for i using that by (simp add: f)
  then have "recorded f key = 0"
    using flow_slot_less [OF wf, of key] by (simp add: recorded_def)
  with wf m show ?thesis by simp
qed

section \<open>The flow-counter interface\<close>

text \<open>What the classifier relies on: \<open>seen\<close> answers with the number of packets on record for the
  key and records one more. Another key can lose its record, never gain; it keeps it when the two
  keys do not clash.\<close>

locale flow_counter =
  fixes seen :: "'t \<Rightarrow> 'k \<Rightarrow> (u32 \<times> 't) option"
    and level :: "'t \<Rightarrow> 'k \<Rightarrow> nat"
    and clash :: "'k \<Rightarrow> 'k \<Rightarrow> bool"
    and wf :: "'t \<Rightarrow> bool"
  assumes seen_ok: "wf t \<Longrightarrow>
      \<exists>t'. seen t k = Some (word_of_nat (level t k), t') \<and> wf t' \<and>
           level t' k = Suc (level t k) mod 2 ^ 32 \<and>
           (\<forall>k'. k' \<noteq> k \<longrightarrow> level t' k' \<le> level t k' \<and> (\<not> clash k' k \<longrightarrow> level t' k' = level t k'))"
begin

lemma counts_at_most:
  assumes "wf t"
  shows "\<exists>rs t'. traceM seen t ks = Some (rs, t') \<and> wf t' \<and> length rs = length ks \<and>
    (\<forall>i < length ks. unat (rs ! i) \<le> level t (ks ! i) + count_list (take i ks) (ks ! i))"
  using assms
proof (induction ks arbitrary: t)
  case (Cons k ks)
  obtain t1 where t1: "seen t k = Some (word_of_nat (level t k), t1)" "wf t1"
    "level t1 k = Suc (level t k) mod 2 ^ 32" "\<And>k'. k' \<noteq> k \<Longrightarrow> level t1 k' \<le> level t k'"
    using seen_ok [OF Cons.prems, of k] by blast
  obtain rs t' where rs: "traceM seen t1 ks = Some (rs, t')" "wf t'" "length rs = length ks"
    "\<And>i. i < length ks \<Longrightarrow> unat (rs ! i) \<le> level t1 (ks ! i) + count_list (take i ks) (ks ! i)"
    using Cons.IH [OF t1(2)] by blast
  have le: "level t1 x \<le> level t x + (if x = k then 1 else 0)" for x
    using t1(3,4) by (cases "x = k") (auto intro: order_trans [OF mod_less_eq_dividend])
  have "unat (((word_of_nat (level t k) :: u32) # rs) ! i) \<le>
      level t ((k # ks) ! i) + count_list (take i (k # ks)) ((k # ks) ! i)"
    if "i < length (k # ks)" for i
  proof (cases i)
    case 0
    then show ?thesis by (simp add: unat_of_nat)
  next
    case (Suc j)
    then show ?thesis using rs(4) [of j] le [of "ks ! j"] that by (auto split: if_splits)
  qed
  with t1(1) rs show ?case by auto
qed simp

lemma counts_exact:
  assumes "wf t" and "i < length ks" and "level t (ks ! i) + i < 2 ^ 32"
    and "\<And>j. j < i \<Longrightarrow> ks ! j = ks ! i \<or> \<not> clash (ks ! i) (ks ! j)"
  shows "\<exists>rs t'. traceM seen t ks = Some (rs, t') \<and>
    unat (rs ! i) = level t (ks ! i) + count_list (take i ks) (ks ! i)"
  using assms
proof (induction ks arbitrary: t i)
  case (Cons k ks)
  obtain t1 where t1: "seen t k = Some (word_of_nat (level t k), t1)" "wf t1"
    "level t1 k = Suc (level t k) mod 2 ^ 32"
    "\<And>k'. k' \<noteq> k \<Longrightarrow> \<not> clash k' k \<Longrightarrow> level t1 k' = level t k'"
    using seen_ok [OF Cons.prems(1), of k] by blast
  show ?case
  proof (cases i)
    case 0
    obtain rs t' where "traceM seen t1 ks = Some (rs, t')" using counts_at_most [OF t1(2)] by blast
    with t1(1) 0 Cons.prems(3) show ?thesis by (auto simp: unat_of_nat)
  next
    case (Suc j)
    have lev: "level t1 (ks ! j) = level t (ks ! j) + (if ks ! j = k then 1 else 0)"
      using t1(3,4) Cons.prems(3) Cons.prems(4) [of 0] Suc by (cases "ks ! j = k") auto
    have "\<exists>rs t'. traceM seen t1 ks = Some (rs, t') \<and>
        unat (rs ! j) = level t1 (ks ! j) + count_list (take j ks) (ks ! j)"
    proof (rule Cons.IH [OF t1(2)])
      show "ks ! m = ks ! j \<or> \<not> clash (ks ! j) (ks ! m)" if "m < j" for m
        using Cons.prems(4) [of "Suc m"] that Suc by simp
    qed (use Cons.prems(2,3) Suc lev in auto)
    with t1(1) lev Suc show ?thesis by auto
  qed
qed simp

end

text \<open>Two keys clash when they fall into the same slot of a table with 2^20 slots (the size the entry
  points ask for).\<close>

definition same_slot :: "u64 \<Rightarrow> u64 \<Rightarrow> bool" where
  "same_slot k k' \<longleftrightarrow> (ucast k AND mask 20 :: u32) = ucast k' AND mask 20"

interpretation flows: flow_counter flow_seen recorded same_slot
  "\<lambda>f. wf_flowtab f \<and> fmask f = mask 20"
proof unfold_locales
  fix f key assume f: "wf_flowtab f \<and> fmask f = mask 20"
  then have "flow_slot f k = flow_slot f key \<longleftrightarrow> same_slot k key" for k
    by (simp add: flow_slot_def same_slot_def flip: word_unat_eq_iff)
  with flow_seen_ok [of f key] f
  show "\<exists>f'. flow_seen f key = Some (word_of_nat (recorded f key), f') \<and>
      (wf_flowtab f' \<and> fmask f' = mask 20) \<and> recorded f' key = Suc (recorded f key) mod 2 ^ 32 \<and>
      (\<forall>k'. k' \<noteq> key \<longrightarrow> recorded f' k' \<le> recorded f k' \<and>
             (\<not> same_slot k' key \<longrightarrow> recorded f' k' = recorded f k'))"
    by auto
qed

section \<open>Properties\<close>

text \<open>Two flows get the same 64-bit key exactly when the words the finalizer mixes coincide; the
  finalizer itself loses nothing.\<close>

theorem flow_key_collision_iff:
  "flow_key sip dip sp dp pr = flow_key sip' dip' sp' dp' pr' \<longleftrightarrow>
     addr_word sip dip XOR port_word sp dp pr * 0x9E3779B97F4A7C15 =
     addr_word sip' dip' XOR port_word sp' dp' pr' * 0x9E3779B97F4A7C15"
  by (simp only: flow_key_eq finalizer_inj)

text \<open>C37: flows that differ only in their addresses, or only in their ports and protocol, never share
  a key.\<close>

theorem flow_key_separates:
  "(flow_key sip dip sp dp pr = flow_key sip' dip' sp dp pr \<longleftrightarrow> sip = sip' \<and> dip = dip') \<and>
   (flow_key sip dip sp dp pr = flow_key sip dip sp' dp' pr' \<longleftrightarrow>
      sp AND 0xffff = sp' AND 0xffff \<and> dp AND 0xffff = dp' AND 0xffff \<and> pr AND 0xff = pr' AND 0xff)"
  by (simp only: flow_key_eq finalizer_inj xor_right_cancel xor_left_cancel golden_inj
      addr_word_inj port_word_inj simp_thms)

text \<open>C25: starting from a fresh table, whatever keys were seen before, the count reported for a packet
  never exceeds the number of earlier packets with its key: an eviction or a wrap can show a flow
  as new again, never hide the head of a flow.\<close>

theorem flow_seen_never_hides_head:
  assumes "flowtab_build alloc 20 = Some f"
  shows "\<exists>cs f'. traceM flow_seen f ks = Some (cs, f') \<and> length cs = length ks \<and>
    (\<forall>i < length ks. unat (cs ! i) \<le> count_list (take i ks) (ks ! i))"
proof -
  have "wf_flowtab f \<and> fmask f = mask 20" "recorded f k = 0" for k
    using flowtab_build_ok [OF assms] by simp_all
  with flows.counts_at_most [of f ks] show ?thesis by auto
qed

theorem flow_seen_never_hides_head_witness:
  "\<exists>f. flowtab_build (\<lambda>_. True) 20 = Some f \<and>
    (\<exists>cs f'. traceM flow_seen f [7, 8, 7] = Some (cs, f') \<and> length cs = length [7, 8, 7 :: u64] \<and>
      (\<forall>i < length [7, 8, 7 :: u64].
         unat (cs ! i) \<le> count_list (take i [7, 8, 7]) ([7, 8, 7 :: u64] ! i)))"
proof -
  obtain f where f: "flowtab_build (\<lambda>_. True) 20 = Some f"
    by (auto simp: flowtab_build_def Let_def)
  with flow_seen_never_hides_head [OF f] show ?thesis by blast
qed

text \<open>C26: as long as no other key of its slot intervenes (and fewer than 2^32 packets were seen),
  the reported count is exactly the number of earlier packets of the flow.\<close>

theorem flow_seen_counts_exactly:
  assumes "flowtab_build alloc 20 = Some f" and "i < length ks" and "i < 2 ^ 32"
    and "\<And>j. j < i \<Longrightarrow> ks ! j = ks ! i \<or> \<not> same_slot (ks ! i) (ks ! j)"
  shows "\<exists>cs f'. traceM flow_seen f ks = Some (cs, f') \<and>
    unat (cs ! i) = count_list (take i ks) (ks ! i)"
proof -
  have "wf_flowtab f \<and> fmask f = mask 20" "recorded f k = 0" for k
    using flowtab_build_ok [OF assms(1)] by simp_all
  with flows.counts_exact [of f i ks] assms(2-4) show ?thesis by auto
qed

theorem flow_seen_counts_exactly_witness:
  "\<exists>f. flowtab_build (\<lambda>_. True) 20 = Some f \<and>
    (\<exists>cs f'. traceM flow_seen f [7, 8, 7] = Some (cs, f') \<and>
      unat (cs ! 2) = count_list (take 2 [7, 8, 7]) ([7, 8, 7 :: u64] ! 2))"
proof -
  obtain f where f: "flowtab_build (\<lambda>_. True) 20 = Some f"
    by (auto simp: flowtab_build_def Let_def)
  have "\<not> same_slot 7 8" by (simp add: same_slot_def mask_eq_exp_minus_1)
  then have "([7, 8, 7] :: u64 list) ! j = [7, 8, 7] ! 2 \<or> \<not> same_slot ([7, 8, 7] ! 2) ([7, 8, 7] ! j)"
    if "j < 2" for j using that by (auto simp: less_2_cases_iff)
  then have "\<exists>cs f'. traceM flow_seen f [7, 8, 7] = Some (cs, f') \<and>
      unat (cs ! 2) = count_list (take 2 [7, 8, 7]) ([7, 8, 7 :: u64] ! 2)"
    by (intro flow_seen_counts_exactly [OF f]) simp_all
  with f show ?thesis by blast
qed

end
