(* ===== verification/Classify.thy ===== *)
theory Classify
  imports Ipv4_Locate Ipset Flowtab
begin

text \<open>
  The packet classifier of \<open>src/pcapobj.cc\<close>: \<open>mt_classify\<close> and its refinement by address set and
  flow counter (the security profile), \<open>classify_generic\<close> (the default profile), and the dispatch
  between them. Classes are small naturals, as in the code.

  The flow table is state: every classification returns it updated. A local \<open>struct mt_pktinfo\<close> is
  passed in with arbitrary contents, because the code does not initialise it.
\<close>

section \<open>Configuration and parsed packet\<close>

record mt_classcfg =
  dns_port :: u16
  dpi_ports :: "u16 list"
  ndpi :: u32
  tls_ports :: "u16 list"
  ntls :: u32
  l2_off :: u32
  profile :: cint

record mt_pktinfo =
  cand :: int
  ipv4 :: int
  proto :: int
  l3 :: u32
  l4 :: u32
  sport :: u16
  dport :: u16

definition MT_DPI_PORTS_DEFAULT :: "u16 list" where
  "MT_DPI_PORTS_DEFAULT = [80, 8080, 3128, 8000, 8118, 1080]"

definition MT_TLS_PORTS_DEFAULT :: "u16 list" where
  "MT_TLS_PORTS_DEFAULT = [443]"

text \<open>\<open>for (unsigned i = 0; i < n; i++) if (sport == ports[i] || dport == ports[i]) return 1;\<close>, the
  loop of \<open>mt_is_tls_port\<close> and of the DPI test.\<close>

function port_scan :: "u16 list \<Rightarrow> u32 \<Rightarrow> u16 \<Rightarrow> u16 \<Rightarrow> u32 \<Rightarrow> bool option" where
  "port_scan ports n sp dp i =
     (if i < n
      then do { v \<leftarrow> rd ports i;
                if sp = v \<or> dp = v then Some True else port_scan ports n sp dp (i + 1) }
      else Some False)"
  by pat_completeness auto
termination
  by (relation "measure (\<lambda>(ports, n, sp, dp, i). unat n - unat i)")
    (auto simp: word_less_nat_alt unat_inc_less)

declare port_scan.simps [simp del]

definition mt_is_tls_port :: "mt_classcfg \<Rightarrow> u16 \<Rightarrow> u16 \<Rightarrow> bool option" where
  "mt_is_tls_port cfg sp dp = port_scan (tls_ports cfg) (ntls cfg) sp dp 0"

section \<open>The security classifier\<close>

definition mt_classify ::
  "mt_classcfg \<Rightarrow> u8 list \<Rightarrow> u32 \<Rightarrow> mt_pktinfo \<Rightarrow> (nat \<times> mt_pktinfo) option" where
  "mt_classify cfg p len o0 = do {
     let pi = o0\<lparr>cand := 0, ipv4 := 0\<rparr>;
     found \<leftarrow> mt_find_ipv4 p len 0 (l2_off cfg);
     case found of None \<Rightarrow> Some (2, pi)
     | Some l2 \<Rightarrow> do {
         let pi = pi\<lparr>l3 := l2, ipv4 := 1\<rparr>;
         b \<leftarrow> rd p l2;
         let ihl = (ucast b AND 0x0f) * 4;
         if ihl < 20 then Some (2, pi)
         else do {
           let l4' = l2 + ihl;
           pr \<leftarrow> rd p (l2 + 9);
           let pi = pi\<lparr>proto := uint pr\<rparr>;
           if proto pi \<noteq> 17 \<and> proto pi \<noteq> 6 then Some (2, pi)
           else if len < l4' + 4 then Some (2, pi)
           else do {
             s0 \<leftarrow> rd p l4'; s1 \<leftarrow> rd p (l4' + 1); d0 \<leftarrow> rd p (l4' + 2); d1 \<leftarrow> rd p (l4' + 3);
             let sp = be16 s0 s1; let dp = be16 d0 d1;
             let pi = pi\<lparr>cand := 1, l4 := l4', sport := sp, dport := dp\<rparr>;
             if sp = dns_port cfg \<or> dp = dns_port cfg then Some (0, pi)
             else if proto pi = 6 \<and> l4' + 14 \<le> len then do {
               flags \<leftarrow> rd p (l4' + 13);
               if flags = 0x02 then Some (5, pi)
               else do {
                 doff \<leftarrow> rd p (l4' + 12);
                 let tcphl = (drop_bit 4 (ucast doff) AND 0x0f) * 4;
                 if 20 \<le> tcphl \<and> l4' + tcphl < len
                 then do {
                   hit \<leftarrow> port_scan (dpi_ports cfg) (ndpi cfg) sp dp 0;
                   Some (if hit then 1 else 2, pi) }
                 else Some (2, pi) } }
             else Some (2, pi) } } } }"

text \<open>\<open>set && (ipset_has(set, sip) || ipset_has(set, dip))\<close>\<close>

definition addr_hit :: "mt_ipset option \<Rightarrow> u32 \<Rightarrow> u32 \<Rightarrow> bool option" where
  "addr_hit S sip dip =
     (if S = None then Some False else or_else (ipset_has S sip) (ipset_has S dip))"

definition classify_refine ::
  "endian \<Rightarrow> mt_classcfg \<Rightarrow> mt_ipset option \<Rightarrow> mt_flowtab option \<Rightarrow> u32 \<Rightarrow> u8 list \<Rightarrow> u32
     \<Rightarrow> mt_pktinfo \<Rightarrow> (nat \<times> mt_flowtab option) option" where
  "classify_refine e cfg ioc ft cutoff p len pi0 = do {
     (cls, pi) \<leftarrow> mt_classify cfg p len pi0;
     if cls = 2 \<and> ipv4 pi \<noteq> 0 \<and> (ioc \<noteq> None \<or> ft \<noteq> None) then do {
       let l2 = l3 pi;
       sip \<leftarrow> load32 e p (l2 + 12); dip \<leftarrow> load32 e p (l2 + 16);
       hit \<leftarrow> addr_hit ioc sip dip;
       if hit then Some (3, ft)
       else if cand pi \<noteq> 0 then
         case ft of None \<Rightarrow> Some (cls, ft)
         | Some f \<Rightarrow> do {
             tls \<leftarrow> mt_is_tls_port cfg (sport pi) (dport pi);
             if tls then do {
               let key = flow_key sip dip (ucast (sport pi)) (ucast (dport pi)) (word_of_int (proto pi));
               (c, f') \<leftarrow> flow_seen f key;
               Some (if c < cutoff then 4 else cls, Some f') }
             else Some (cls, ft) }
       else Some (cls, ft) }
     else Some (cls, ft) }"

section \<open>The generic classifier and the dispatch\<close>

definition port32 :: "u8 \<Rightarrow> u8 \<Rightarrow> u32" where
  "port32 hi lo = push_bit 8 (ucast hi) OR ucast lo"

definition classify_generic ::
  "endian \<Rightarrow> mt_classcfg \<Rightarrow> mt_ipset option \<Rightarrow> mt_flowtab option \<Rightarrow> u32 \<Rightarrow> u8 list \<Rightarrow> u32
     \<Rightarrow> (nat \<times> mt_flowtab option) option" where
  "classify_generic e cfg S ft cutoff p len = do {
     off \<leftarrow> locate_ipv4 (l2_off cfg) p len;
     if off < 0 then Some (0, ft)
     else do {
       let o3 = word_of_int off;
       sip \<leftarrow> load32 e p (o3 + 12); dip \<leftarrow> load32 e p (o3 + 16);
       hit \<leftarrow> addr_hit S sip dip;
       if hit then Some (2, ft)
       else case ft of None \<Rightarrow> Some (0, ft)
       | Some f \<Rightarrow>
           if cutoff = 0 then Some (0, ft)
           else do {
             pr \<leftarrow> rd p (o3 + 9);
             if pr = 6 \<or> pr = 17 then do {
               b \<leftarrow> rd p o3;
               let ihl = (ucast b AND 0x0f) * 4; let l4' = o3 + ihl;
               if 20 \<le> ihl \<and> l4' + 4 \<le> len then do {
                 s0 \<leftarrow> rd p l4'; s1 \<leftarrow> rd p (l4' + 1); d0 \<leftarrow> rd p (l4' + 2); d1 \<leftarrow> rd p (l4' + 3);
                 (c, f') \<leftarrow> flow_seen f (flow_key sip dip (port32 s0 s1) (port32 d0 d1) (ucast pr));
                 Some (if c < cutoff then 1 else 0, Some f') }
               else Some (0, ft) }
             else Some (0, ft) } } }"

definition classify_dispatch ::
  "endian \<Rightarrow> mt_classcfg \<Rightarrow> mt_ipset option \<Rightarrow> mt_flowtab option \<Rightarrow> u32 \<Rightarrow> u8 list \<Rightarrow> u32
     \<Rightarrow> mt_pktinfo \<Rightarrow> (nat \<times> mt_flowtab option) option" where
  "classify_dispatch e cfg S ft cutoff p len pi0 =
     (if profile cfg = 1 then classify_refine e cfg S ft cutoff p len pi0
      else classify_generic e cfg S ft cutoff p len)"

definition MT_PROFILE_BASE :: nat where
  "MT_PROFILE_BASE = 100"

definition profile_base :: "mt_classcfg \<Rightarrow> nat" where
  "profile_base cfg = (if profile cfg = 1 then MT_PROFILE_BASE else 0)"

section \<open>The abstract packet and the decision tables\<close>

text \<open>What the classifier sees of an IPv4 packet whose header is at offset \<open>i\<close> of the \<open>n\<close> captured
  bytes: addresses in host words, protocol, the ports when they are captured, and the TCP flags and
  payload test when the TCP header is captured far enough.\<close>

record ipv4_view =
  src_ip :: u32
  dst_ip :: u32
  ip_proto :: u8
  ports :: "(u16 \<times> u16) option"
  flags_payload :: "(u8 \<times> bool) option"

definition load_at :: "endian \<Rightarrow> u8 list \<Rightarrow> nat \<Rightarrow> u32" where
  "load_at e p i = word_of_bytes e (p ! i) (p ! (i + 1)) (p ! (i + 2)) (p ! (i + 3))"

definition view_at :: "endian \<Rightarrow> u8 list \<Rightarrow> nat \<Rightarrow> nat \<Rightarrow> ipv4_view" where
  "view_at e p n i = (
     let ihl = 4 * (unat (p ! i) mod 16); t = i + ihl; pr = p ! (i + 9);
         doff = 4 * (unat (p ! (t + 12)) div 16) in
     \<lparr>src_ip = load_at e p (i + 12), dst_ip = load_at e p (i + 16), ip_proto = pr,
      ports = (if 20 \<le> ihl \<and> pr \<in> {6, 17} \<and> t + 4 \<le> n
               then Some (be16 (p ! t) (p ! (t + 1)), be16 (p ! (t + 2)) (p ! (t + 3))) else None),
      flags_payload = (if 20 \<le> ihl \<and> pr = 6 \<and> t + 14 \<le> n
               then Some (p ! (t + 13), 20 \<le> doff \<and> t + doff < n) else None)\<rparr>)"

text \<open>The flow key of a packet with ports.\<close>

definition view_key :: "ipv4_view \<Rightarrow> u16 \<Rightarrow> u16 \<Rightarrow> u64" where
  "view_key v sp dp = flow_key (src_ip v) (dst_ip v) (ucast sp) (ucast dp) (ucast (ip_proto v))"

text \<open>Counting one packet of a flow: the number of packets on record, and the table afterwards.\<close>

definition count_flow :: "mt_flowtab option \<Rightarrow> u64 \<Rightarrow> u32 \<times> mt_flowtab option" where
  "count_flow ft key =
     (case ft of None \<Rightarrow> (0, None)
      | Some f \<Rightarrow> (case flow_seen f key of None \<Rightarrow> (0, Some f) | Some (c, f') \<Rightarrow> (c, Some f')))"

text \<open>The generic decision table: \<open>A\<close> is the set of watched addresses.\<close>

definition generic_class ::
  "u32 set \<Rightarrow> mt_flowtab option \<Rightarrow> u32 \<Rightarrow> ipv4_view \<Rightarrow> nat \<times> mt_flowtab option" where
  "generic_class A ft cutoff v =
     (if src_ip v \<in> A \<or> dst_ip v \<in> A then (2, ft)
      else case ports v of None \<Rightarrow> (0, ft)
      | Some (sp, dp) \<Rightarrow>
          if ft = None \<or> cutoff = 0 then (0, ft)
          else let (c, ft') = count_flow ft (view_key v sp dp) in (if c < cutoff then 1 else 0, ft'))"

text \<open>The security decision table, on the port sets of the configuration.\<close>

definition stateless_class :: "u16 \<Rightarrow> u16 set \<Rightarrow> ipv4_view \<Rightarrow> nat" where
  "stateless_class dns D v =
     (case ports v of None \<Rightarrow> 2
      | Some (sp, dp) \<Rightarrow>
          if sp = dns \<or> dp = dns then 0
          else case flags_payload v of None \<Rightarrow> 2
          | Some (fl, payload) \<Rightarrow>
              if fl = 2 then 5 else if payload \<and> (sp \<in> D \<or> dp \<in> D) then 1 else 2)"

definition security_class ::
  "u16 \<Rightarrow> u16 set \<Rightarrow> u16 set \<Rightarrow> u32 set \<Rightarrow> mt_flowtab option \<Rightarrow> u32 \<Rightarrow> ipv4_view
     \<Rightarrow> nat \<times> mt_flowtab option" where
  "security_class dns D T A ft cutoff v = (
     let cls = stateless_class dns D v in
     if cls \<noteq> 2 then (cls, ft)
     else if src_ip v \<in> A \<or> dst_ip v \<in> A then (3, ft)
     else case ports v of None \<Rightarrow> (2, ft)
     | Some (sp, dp) \<Rightarrow>
         if ft \<noteq> None \<and> (sp \<in> T \<or> dp \<in> T)
         then let (c, ft') = count_flow ft (view_key v sp dp) in (if c < cutoff then 4 else 2, ft')
         else (2, ft))"

section \<open>Header arithmetic\<close>

lemma unat_ihl: "unat ((ucast (b :: u8) AND 0x0f) * 4 :: u32) = 4 * (unat b mod 16)"
proof -
  have m: "(0x0f :: u32) = mask 4" by (simp add: mask_eq_exp_minus_1)
  have "unat (ucast b AND 0x0f :: u32) = unat b mod 2 ^ 4"
    by (simp only: m unat_and_mask unat_ucast_u8)
  then show ?thesis by (simp add: unat_word_ariths)
qed

lemma unat_doff: "unat ((drop_bit 4 (ucast (b :: u8)) AND 0x0f) * 4 :: u32) = 4 * (unat b div 16)"
proof -
  have m: "(0x0f :: u32) = mask 4" by (simp add: mask_eq_exp_minus_1)
  have "unat (drop_bit 4 (ucast b) AND 0x0f :: u32) = unat b div 2 ^ 4 mod 2 ^ 4"
    by (simp only: m unat_and_mask unat_drop_bit_eq unat_ucast_u8) (simp only: drop_bit_eq_div)
  moreover have "unat b < 2 ^ 8" using unsigned_less [of b] by simp
  ultimately have "unat (drop_bit 4 (ucast b) AND 0x0f :: u32) = unat b div 16" by simp
  moreover have "unat b < 2 ^ 8" using unsigned_less [of b] by simp
  ultimately show ?thesis by (simp only: unat_word_ariths) simp
qed

lemma port_scan_eq:
  assumes "unat n \<le> length ps" and "unat i \<le> unat n"
  shows "port_scan ps n sp dp i =
    Some (\<exists>v \<in> set (drop (unat i) (take (unat n) ps)). sp = v \<or> dp = v)"
  using assms
proof (induction ps n sp dp i rule: port_scan.induct)
  case (1 ps n sp dp i)
  show ?case
  proof (cases "i < n")
    case True
    then have lt: "unat i < unat n" by (simp add: word_less_nat_alt)
    have d: "drop (unat i) (take (unat n) ps) = ps ! unat i # drop (Suc (unat i)) (take (unat n) ps)"
      using lt "1.prems"(1) by (subst Cons_nth_drop_Suc [symmetric]) auto
    have r: "rd ps i = Some (ps ! unat i)" using lt "1.prems"(1) by (simp add: rd_in)
    show ?thesis
      using True r d "1.IH" [OF True r] "1.prems"(1) lt
      by (subst port_scan.simps) (simp add: unat_inc_less [OF lt])
  next
    case False
    then show ?thesis using "1.prems"(2) by (subst port_scan.simps) (simp add: word_less_nat_alt)
  qed
qed

text \<open>A configuration the entry points can build: an accepted layer-2 offset, port counts within the
  port arrays.\<close>

definition wf_cfg :: "mt_classcfg \<Rightarrow> bool" where
  "wf_cfg cfg \<longleftrightarrow> unat (l2_off cfg) \<le> 64 \<and> unat (ndpi cfg) \<le> length (dpi_ports cfg) \<and>
     unat (ntls cfg) \<le> length (tls_ports cfg)"

definition dpi_set :: "mt_classcfg \<Rightarrow> u16 set" where
  "dpi_set cfg = set (take (unat (ndpi cfg)) (dpi_ports cfg))"

definition tls_set :: "mt_classcfg \<Rightarrow> u16 set" where
  "tls_set cfg = set (take (unat (ntls cfg)) (tls_ports cfg))"

lemma dpi_scan:
  "wf_cfg cfg \<Longrightarrow> port_scan (dpi_ports cfg) (ndpi cfg) sp dp 0 = Some (sp \<in> dpi_set cfg \<or> dp \<in> dpi_set cfg)"
  by (subst port_scan_eq) (auto simp: wf_cfg_def dpi_set_def)

lemma tls_scan: "wf_cfg cfg \<Longrightarrow> mt_is_tls_port cfg sp dp = Some (sp \<in> tls_set cfg \<or> dp \<in> tls_set cfg)"
  unfolding mt_is_tls_port_def by (subst port_scan_eq) (auto simp: wf_cfg_def tls_set_def)

text \<open>Reading a located header: \<open>h\<close> is its offset, \<open>ihl_word p h\<close> its header length in bytes.\<close>

definition located :: "u8 list \<Rightarrow> u32 \<Rightarrow> u32 \<Rightarrow> bool" where
  "located p len h \<longleftrightarrow> unat len \<le> length p \<and> unat h \<le> 72 \<and> unat h + 20 \<le> unat len"

definition ihl_word :: "u8 list \<Rightarrow> u32 \<Rightarrow> u32" where
  "ihl_word p h = (ucast (p ! unat h) AND 0x0f) * 4"

lemma unat_ihl_word: "unat (ihl_word p h) = 4 * (unat (p ! unat h) mod 16)"
  by (simp only: ihl_word_def unat_ihl)

lemma ihl_word_le: "unat (ihl_word p h) \<le> 60"
  by (simp add: unat_ihl_word)

lemma unat_l4:
  assumes "located p len h" and "k \<le> 160"
  shows "unat (h + ihl_word p h + of_nat k) = unat h + unat (ihl_word p h) + k"
  using assms ihl_word_le [of p h]
  by (simp add: located_def unat_word_ariths unat_of_nat)

lemma rd_header:
  assumes "located p len h"
  shows "rd p h = Some (p ! unat h)" and "rd p (h + 9) = Some (p ! (unat h + 9))"
    and "load32 e p (h + 12) = Some (load_at e p (unat h + 12))"
    and "load32 e p (h + 16) = Some (load_at e p (unat h + 16))"
  using assms by (simp_all add: located_def mem_simps u32_arith load_at_def)

lemma rd_l4:
  assumes "located p len h" and "k \<le> 100" and "unat h + unat (ihl_word p h) + k < unat len"
  shows "rd p (h + ihl_word p h + of_nat k) = Some (p ! (unat h + unat (ihl_word p h) + k))"
proof -
  have "unat (h + ihl_word p h + of_nat k) = unat h + unat (ihl_word p h) + k"
    using assms(2) by (intro unat_l4 [OF assms(1)]) simp
  then show ?thesis using assms(1,3) by (simp add: rd_in located_def)
qed

lemma l4_bounds:
  assumes "located p len h"
  shows "len < h + ihl_word p h + 4 \<longleftrightarrow> unat len < unat h + unat (ihl_word p h) + 4"
    and "h + ihl_word p h + 4 \<le> len \<longleftrightarrow> unat h + unat (ihl_word p h) + 4 \<le> unat len"
    and "h + ihl_word p h + 14 \<le> len \<longleftrightarrow> unat h + unat (ihl_word p h) + 14 \<le> unat len"
    and "unat w \<le> 60 \<Longrightarrow>
      h + ihl_word p h + w < len \<longleftrightarrow> unat h + unat (ihl_word p h) + unat w < unat len"
proof -
  note u = unat_l4 [OF assms]
  have "unat (h + ihl_word p h + w) = unat h + unat (ihl_word p h) + unat w" if "unat w \<le> 60" for w
    using u [of "unat w"] that by simp
  then show "unat w \<le> 60 \<Longrightarrow>
      h + ihl_word p h + w < len \<longleftrightarrow> unat h + unat (ihl_word p h) + unat w < unat len"
    by (simp add: word_less_nat_alt)
  show "len < h + ihl_word p h + 4 \<longleftrightarrow> unat len < unat h + unat (ihl_word p h) + 4"
    "h + ihl_word p h + 4 \<le> len \<longleftrightarrow> unat h + unat (ihl_word p h) + 4 \<le> unat len"
    "h + ihl_word p h + 14 \<le> len \<longleftrightarrow> unat h + unat (ihl_word p h) + 14 \<le> unat len"
    using u [of 4] u [of 14] by (simp_all add: word_less_nat_alt word_le_nat_alt)
qed

lemma rd_ports:
  assumes "located p len h" and "unat h + unat (ihl_word p h) + 4 \<le> unat len"
  defines "t \<equiv> unat h + unat (ihl_word p h)"
  shows "rd p (h + ihl_word p h) = Some (p ! t)" and "rd p (h + ihl_word p h + 1) = Some (p ! (t + 1))"
    and "rd p (h + ihl_word p h + 2) = Some (p ! (t + 2))"
    and "rd p (h + ihl_word p h + 3) = Some (p ! (t + 3))"
  using rd_l4 [OF assms(1), of 0] rd_l4 [OF assms(1), of 1] rd_l4 [OF assms(1), of 2]
    rd_l4 [OF assms(1), of 3] assms(2) by (simp_all add: t_def)

lemma rd_tcp:
  assumes "located p len h" and "unat h + unat (ihl_word p h) + 14 \<le> unat len"
  defines "t \<equiv> unat h + unat (ihl_word p h)"
  shows "rd p (h + ihl_word p h + 12) = Some (p ! (t + 12))"
    and "rd p (h + ihl_word p h + 13) = Some (p ! (t + 13))"
  using rd_l4 [OF assms(1), of 12] rd_l4 [OF assms(1), of 13] assms(2) by (simp_all add: t_def)

lemma view_at_word:
  "view_at e p n (unat h) = (
     let t = unat h + unat (ihl_word p h); pr = p ! (unat h + 9);
         doff = unat ((drop_bit 4 (ucast (p ! (t + 12))) AND 0x0f) * 4 :: u32) in
     \<lparr>src_ip = load_at e p (unat h + 12), dst_ip = load_at e p (unat h + 16), ip_proto = pr,
      ports = (if 20 \<le> unat (ihl_word p h) \<and> pr \<in> {6, 17} \<and> t + 4 \<le> n
               then Some (be16 (p ! t) (p ! (t + 1)), be16 (p ! (t + 2)) (p ! (t + 3))) else None),
      flags_payload = (if 20 \<le> unat (ihl_word p h) \<and> pr = 6 \<and> t + 14 \<le> n
               then Some (p ! (t + 13), 20 \<le> doff \<and> t + doff < n) else None)\<rparr>)"
  by (simp only: view_at_def Let_def unat_ihl_word unat_doff)

lemma uint_u8_eq: "uint (b :: u8) = 17 \<longleftrightarrow> b = 17" "uint b = 6 \<longleftrightarrow> b = 6"
  by (simp_all add: word_uint_eq_iff)

lemma mt_classify_at:
  fixes e :: endian
  assumes cfg: "wf_cfg cfg" and loc: "located p len h"
    and found: "mt_find_ipv4 p len 0 (l2_off cfg) = Some (Some h)"
  defines "v \<equiv> view_at e p (unat len) (unat h)"
  shows "\<exists>pi. mt_classify cfg p len o0 =
      Some (stateless_class (dns_port cfg) (dpi_set cfg) v, pi) \<and> ipv4 pi = 1 \<and> l3 pi = h \<and>
    (case ports v of None \<Rightarrow> cand pi = 0
     | Some (sp, dp) \<Rightarrow> cand pi = 1 \<and> sport pi = sp \<and> dport pi = dp \<and> proto pi = uint (ip_proto v))"
proof -
  let ?H = "unat (ihl_word p h)" and ?pr = "p ! (unat h + 9)" and ?t = "unat h + unat (ihl_word p h)"
  have lt20: "w < 20 \<longleftrightarrow> unat w < 20" "20 \<le> w \<longleftrightarrow> 20 \<le> unat w" for w :: u32
    by (simp_all add: word_less_nat_alt word_le_nat_alt)
  note base = mt_classify_def found rd_header(1,2) [OF loc] ihl_word_def [symmetric]
    l4_bounds [OF loc] uint_u8_eq lt20 v_def view_at_word Let_def stateless_class_def
  consider (short) "?H < 20" | (other) "20 \<le> ?H" "?pr \<notin> {6, 17}"
    | (cut) "20 \<le> ?H" "?pr \<in> {6, 17}" "unat len < ?t + 4"
    | (ports) "20 \<le> ?H" "?pr \<in> {6, 17}" "?t + 4 \<le> unat len" by linarith
  then show ?thesis
  proof cases
    case short then show ?thesis by (simp add: base)
  next
    case other then show ?thesis by (simp add: base)
  next
    case cut then show ?thesis by (simp add: base)
  next
    case ports
    note rp = rd_ports [OF loc ports(3)]
    show ?thesis
    proof (cases "?pr = 6 \<and> ?t + 14 \<le> unat len")
      case False
      then show ?thesis using ports by (auto simp: base rp)
    next
      case True
      note rt = rd_tcp [OF loc conjunct2 [OF True]]
      define doff :: u32 where "doff = (drop_bit 4 (ucast (p ! (?t + 12))) AND 0x0f) * 4"
      have doff: "unat doff \<le> 60"
      proof -
        have "unat (p ! (?t + 12)) < 2 ^ 8" using unsigned_less [of "p ! (?t + 12)"] by simp
        then show ?thesis by (simp add: doff_def unat_doff)
      qed
      show ?thesis using ports True doff
        by (simp add: base rp rt dpi_scan [OF cfg] doff_def [symmetric])
    qed
  qed
qed

section \<open>The classifiers compute the decision tables\<close>

definition members_of :: "mt_ipset option \<Rightarrow> u32 set" where
  "members_of S = (case S of None \<Rightarrow> {} | Some s \<Rightarrow> members (slots s))"

definition wf_set :: "mt_ipset option \<Rightarrow> bool" where
  "wf_set S \<longleftrightarrow> pred_option wf_ipset S"

definition wf_table :: "mt_flowtab option \<Rightarrow> bool" where
  "wf_table ft \<longleftrightarrow> pred_option wf_flowtab ft"

lemma addr_hit_eq:
  "wf_set S \<Longrightarrow> addr_hit S a b = Some (a \<in> members_of S \<or> b \<in> members_of S)"
  by (cases S) (auto simp: addr_hit_def wf_set_def members_of_def ipset_has_ok members_def)

lemma addr_hit_None [simp]: "addr_hit None a b = Some False"
  by (simp add: addr_hit_def)

lemma members_of_None [simp]: "members_of None = {}"
  by (simp add: members_of_def)

text \<open>Counting a packet of a flow in a well-formed table.\<close>

lemma flow_seen_count:
  assumes "wf_flowtab f"
  shows "\<exists>c f'. flow_seen f k = Some (c, f') \<and> count_flow (Some f) k = (c, Some f') \<and> wf_flowtab f'"
  using flow_seen_ok [OF assms, of k] by (auto simp: count_flow_def)

lemma count_flow_wf: "wf_table ft \<Longrightarrow> wf_table (snd (count_flow ft k))"
proof (cases ft)
  case (Some f)
  assume "wf_table ft"
  then obtain c f' where "count_flow ft k = (c, Some f')" "wf_flowtab f'"
    using flow_seen_count [of f k] Some by (auto simp: wf_table_def)
  then show ?thesis by (simp add: wf_table_def)
qed (simp add: count_flow_def)

lemma count_flow_wfD: "count_flow ft k = (c, ft') \<Longrightarrow> wf_table ft \<Longrightarrow> wf_table ft'"
  using count_flow_wf [of ft k] by simp

text \<open>Ports as the two classifiers compute them: 32-bit in the generic one, 16-bit in the other.\<close>

lemma bit_u8_less: "bit (b :: u8) n \<Longrightarrow> n < 8"
  using bit_imp_le_length [of b n] by simp

lemma port32_eq: "port32 hi lo = ucast (be16 hi lo)"
  unfolding port32_def be16_def
  by (intro bit_word_eqI) (auto simp: bit_simps dest: bit_u8_less)

lemma word_of_uint: "word_of_int (uint (b :: u8)) = (ucast b :: u32)"
  by (simp add: unsigned_ucast_eq)

lemma find_located:
  assumes "wf_cfg cfg" and "unat len \<le> length p"
  obtains (none) "mt_find_ipv4 p len 0 (l2_off cfg) = Some None"
      "ipv4_offset p (unat len) (unat (l2_off cfg)) = None"
  | (at) h where "mt_find_ipv4 p len 0 (l2_off cfg) = Some (Some h)"
      "ipv4_offset p (unat len) (unat (l2_off cfg)) = Some (unat h)" "located p len h"
proof -
  have l2: "unat (l2_off cfg) \<le> 64" using assms(1) by (simp add: wf_cfg_def)
  obtain r where r: "mt_find_ipv4 p len 0 (l2_off cfg) = Some r"
    "map_option unat r = ipv4_offset p (unat len) (unat (l2_off cfg))"
    using mt_find_ipv4_offset [OF l2 assms(2)] by blast
  show thesis
  proof (cases r)
    case None
    then show ?thesis using r none by simp
  next
    case (Some h)
    then have o: "ipv4_offset p (unat len) (unat (l2_off cfg)) = Some (unat h)" using r(2) by simp
    then have "located p len h"
      using ipv4_offset_SomeD [OF o] l2 assms(2) by (simp add: located_def)
    then show ?thesis using r(1) o Some at by simp
  qed
qed


text \<open>The flow-counting step of each classifier, on the located packet.\<close>

lemma classify_generic_at:
  assumes found: "locate_ipv4 (l2_off cfg) p len = Some (int (unat h))" and loc: "located p len h"
    and set: "wf_set S" and tab: "wf_table ft"
  shows "classify_generic e cfg S ft cutoff p len =
    Some (generic_class (members_of S) ft cutoff (view_at e p (unat len) (unat h)))"
proof -
  let ?H = "unat (ihl_word p h)" and ?pr = "p ! (unat h + 9)" and ?t = "unat h + unat (ihl_word p h)"
  let ?sip = "load_at e p (unat h + 12)" and ?dip = "load_at e p (unat h + 16)"
  have ge20: "20 \<le> w \<longleftrightarrow> 20 \<le> unat w" for w :: u32 by (simp add: word_le_nat_alt)
  note base = classify_generic_def found rd_header(1-4) [OF loc] ihl_word_def [symmetric]
    l4_bounds [OF loc] ge20 view_at_word Let_def addr_hit_eq [OF set] generic_class_def
  consider (hit) "?sip \<in> members_of S \<or> ?dip \<in> members_of S"
    | (off) "\<not> (?sip \<in> members_of S \<or> ?dip \<in> members_of S)" "ft = None \<or> cutoff = 0"
    | (noports) "\<not> (?sip \<in> members_of S \<or> ?dip \<in> members_of S)" "ft \<noteq> None" "cutoff \<noteq> 0"
        "\<not> (20 \<le> ?H \<and> ?pr \<in> {6, 17} \<and> ?t + 4 \<le> unat len)"
    | (ports) "\<not> (?sip \<in> members_of S \<or> ?dip \<in> members_of S)" "ft \<noteq> None" "cutoff \<noteq> 0"
        "20 \<le> ?H" "?pr \<in> {6, 17}" "?t + 4 \<le> unat len"
    by blast
  then show ?thesis
  proof cases
    case hit then show ?thesis by (simp add: base)
  next
    case off then show ?thesis by (auto simp: base split: option.splits)
  next
    case noports then show ?thesis by (auto simp: base split: option.splits)
  next
    case ports
    then obtain f where f: "ft = Some f" by blast
    define key where "key = view_key (view_at e p (unat len) (unat h))
      (be16 (p ! ?t) (p ! (?t + 1))) (be16 (p ! (?t + 2)) (p ! (?t + 3)))"
    have k: "key = flow_key ?sip ?dip (ucast (be16 (p ! ?t) (p ! (?t + 1))))
        (ucast (be16 (p ! (?t + 2)) (p ! (?t + 3)))) (ucast ?pr)"
      by (simp add: key_def view_key_def view_at_word Let_def)
    obtain c f' where c: "flow_seen f key = Some (c, f')" "count_flow (Some f) key = (c, Some f')"
      using flow_seen_count [of f key] tab f by (auto simp: wf_table_def)
    have hd: "\<not> (int (unat h) < 0)" "word_of_int (int (unat h)) = h" by simp_all
    have "generic_class (members_of S) ft cutoff (view_at e p (unat len) (unat h)) =
        (if c < cutoff then 1 else 0, Some f')"
      using ports f c(2) unfolding key_def by (simp add: generic_class_def view_at_word Let_def)
    moreover have "classify_generic e cfg S ft cutoff p len =
        Some (if c < cutoff then 1 else 0, Some f')"
      using ports f c(1) rd_ports [OF loc ports(6)]
      unfolding k by (auto simp: base port32_eq)
    ultimately show ?thesis by simp
  qed
qed


lemma stateless_class_2:
  "ports v = None \<Longrightarrow> stateless_class dns D v = 2"
  by (simp add: stateless_class_def)

lemma classify_refine_at:
  fixes e :: endian
  assumes cfg: "wf_cfg cfg" and found: "mt_find_ipv4 p len 0 (l2_off cfg) = Some (Some h)"
    and loc: "located p len h" and set: "wf_set S" and tab: "wf_table ft"
  shows "classify_refine e cfg S ft cutoff p len pi0 =
    Some (security_class (dns_port cfg) (dpi_set cfg) (tls_set cfg) (members_of S) ft cutoff
            (view_at e p (unat len) (unat h)))"
proof -
  define v where "v = view_at e p (unat len) (unat h)"
  obtain pi where m: "mt_classify cfg p len pi0 =
      Some (stateless_class (dns_port cfg) (dpi_set cfg) v, pi)" "ipv4 pi = 1" "l3 pi = h"
    and cand: "case ports v of None \<Rightarrow> cand pi = 0
     | Some (sp, dp) \<Rightarrow> cand pi = 1 \<and> sport pi = sp \<and> dport pi = dp \<and> proto pi = uint (ip_proto v)"
    using mt_classify_at [OF cfg loc found, of pi0 e] unfolding v_def by blast
  have addr: "load32 e p (h + 12) = Some (src_ip v)" "load32 e p (h + 16) = Some (dst_ip v)"
    using rd_header [OF loc] by (simp_all add: v_def view_at_def Let_def)
  note base = classify_refine_def m addr addr_hit_eq [OF set] security_class_def Let_def tls_scan [OF cfg]
  consider (fast) "stateless_class (dns_port cfg) (dpi_set cfg) v \<noteq> 2"
    | (hit) "stateless_class (dns_port cfg) (dpi_set cfg) v = 2" "src_ip v \<in> members_of S \<or> dst_ip v \<in> members_of S"
    | (noports) "stateless_class (dns_port cfg) (dpi_set cfg) v = 2"
        "\<not> (src_ip v \<in> members_of S \<or> dst_ip v \<in> members_of S)" "ports v = None"
    | (ports) sp dp where "stateless_class (dns_port cfg) (dpi_set cfg) v = 2"
        "\<not> (src_ip v \<in> members_of S \<or> dst_ip v \<in> members_of S)" "ports v = Some (sp, dp)"
    by fastforce
  then have "classify_refine e cfg S ft cutoff p len pi0 =
    Some (security_class (dns_port cfg) (dpi_set cfg) (tls_set cfg) (members_of S) ft cutoff v)"
  proof cases
    case fast then show ?thesis by (simp add: base)
  next
    case hit
    then have "S \<noteq> None" by (cases S) (auto simp: members_of_def)
    with hit show ?thesis by (simp add: base)
  next
    case noports
    with cand show ?thesis by (auto simp: base split: option.splits)
  next
    case ports
    show ?thesis
    proof (cases ft)
      case None
      with ports cand show ?thesis by (simp add: base)
    next
      case (Some f)
      define key where "key = view_key v sp dp"
      obtain c f' where "flow_seen f key = Some (c, f')" "count_flow (Some f) key = (c, Some f')"
        using flow_seen_count [of f key] tab Some by (auto simp: wf_table_def)
      with ports cand Some show ?thesis
        by (auto simp: base key_def view_key_def word_of_uint)
    qed
  qed
  then show ?thesis by (simp only: v_def)
qed

text \<open>The class of a frame and the flow table afterwards, in one decision: \<open>A\<close> is the set of watched
  addresses, \<open>n\<close> the captured length.\<close>

definition frame_class ::
  "endian \<Rightarrow> mt_classcfg \<Rightarrow> u32 set \<Rightarrow> mt_flowtab option \<Rightarrow> u32 \<Rightarrow> u8 list \<Rightarrow> nat
     \<Rightarrow> nat \<times> mt_flowtab option" where
  "frame_class e cfg A ft cutoff p n =
     (case ipv4_offset p n (unat (l2_off cfg)) of
        None \<Rightarrow> (if profile cfg = 1 then 2 else 0, ft)
      | Some i \<Rightarrow>
          if profile cfg = 1
          then security_class (dns_port cfg) (dpi_set cfg) (tls_set cfg) A ft cutoff (view_at e p n i)
          else generic_class A ft cutoff (view_at e p n i))"

lemma classify_dispatch_eq:
  assumes cfg: "wf_cfg cfg" and len: "unat len \<le> length p" and set: "wf_set S" and tab: "wf_table ft"
  shows "classify_dispatch e cfg S ft cutoff p len pi0 =
    Some (frame_class e cfg (members_of S) ft cutoff p (unat len))"
proof -
  have l2: "unat (l2_off cfg) \<le> 64" using cfg by (simp add: wf_cfg_def)
  note loc = locate_ipv4_offset [OF l2 len]
  show ?thesis
    using cfg len
  proof (cases rule: find_located)
    case none
    then show ?thesis using loc
      by (simp add: frame_class_def classify_dispatch_def classify_generic_def classify_refine_def
          mt_classify_def)
  next
    case (at h)
    have "locate_ipv4 (l2_off cfg) p len = Some (int (unat h))" using loc at(2) by simp
    from classify_generic_at [OF this at(3) set tab] classify_refine_at [OF cfg at(1,3) set tab] at(2)
    show ?thesis by (simp add: frame_class_def classify_dispatch_def)
  qed
qed


section \<open>Bounds and sequences\<close>

lemma stateless_class_less: "stateless_class dns D v < 6"
  by (auto simp: stateless_class_def split: option.splits)

lemma generic_class_ok:
  "wf_table ft \<Longrightarrow>
     fst (generic_class A ft cutoff v) < 3 \<and> wf_table (snd (generic_class A ft cutoff v))"
  by (auto simp: generic_class_def Let_def split: option.splits prod.splits dest: count_flow_wfD)

lemma security_class_ok:
  "wf_table ft \<Longrightarrow>
     fst (security_class dns D T A ft cutoff v) < 6 \<and> wf_table (snd (security_class dns D T A ft cutoff v))"
  using stateless_class_less
  by (auto simp: security_class_def Let_def split: option.splits prod.splits dest: count_flow_wfD)

definition class_count :: "mt_classcfg \<Rightarrow> nat" where
  "class_count cfg = (if profile cfg = 1 then 6 else 3)"

lemma frame_class_ok:
  assumes "wf_table ft"
  shows "fst (frame_class e cfg A ft cutoff p n) < class_count cfg \<and>
    wf_table (snd (frame_class e cfg A ft cutoff p n))"
  using generic_class_ok [OF assms] security_class_ok [OF assms] assms
  by (simp add: frame_class_def class_count_def split: option.split)

text \<open>The flow a packet is counted under by the generic profile: none for packets that are not IPv4,
  whose addresses are watched, or whose ports are not captured.\<close>

definition flow_of :: "endian \<Rightarrow> mt_classcfg \<Rightarrow> u32 set \<Rightarrow> u8 list \<times> u32 \<Rightarrow> u64 option" where
  "flow_of e cfg A pkt =
     (case ipv4_offset (fst pkt) (unat (snd pkt)) (unat (l2_off cfg)) of None \<Rightarrow> None
      | Some i \<Rightarrow>
          let v = view_at e (fst pkt) (unat (snd pkt)) i in
          if src_ip v \<in> A \<or> dst_ip v \<in> A then None
          else map_option (\<lambda>(sp, dp). view_key v sp dp) (ports v))"

lemma frame_class_flow:
  assumes "profile cfg \<noteq> 1" and "cutoff \<noteq> 0" and "flow_seen f k = Some (c, f')"
    and "flow_of e cfg A (p, len) = Some k"
  shows "frame_class e cfg A (Some f) cutoff p (unat len) = (if c < cutoff then 1 else 0, Some f')"
  using assms
  by (auto simp: frame_class_def flow_of_def generic_class_def count_flow_def Let_def
      split: option.splits if_splits)

lemma frame_class_no_flow:
  assumes "profile cfg \<noteq> 1" and "flow_of e cfg A (p, len) = None"
  shows "\<exists>c. c \<noteq> 1 \<and> frame_class e cfg A ft cutoff p (unat len) = (c, ft)"
  using assms by (auto simp: frame_class_def flow_of_def generic_class_def Let_def split: option.splits if_splits)

lemma generic_heads:
  assumes cfg: "wf_cfg cfg" "profile cfg \<noteq> 1" and set: "wf_set S" and cutoff: "cutoff \<noteq> 0"
    and "wf_flowtab f \<and> fmask f = mask 20" and "\<forall>(p, len) \<in> set pkts. unat len \<le> length p"
  shows "\<exists>cs ft'. traceM (\<lambda>ft (p, len). classify_dispatch e cfg S ft cutoff p len pi0) (Some f) pkts
      = Some (cs, ft') \<and> length cs = length pkts \<and>
    (\<forall>i < length pkts. \<forall>k. flow_of e cfg (members_of S) (pkts ! i) = Some k \<and>
       recorded f k + length (filter (\<lambda>q. flow_of e cfg (members_of S) q = Some k) (take i pkts))
         < unat cutoff \<longrightarrow> cs ! i = 1)"
  using assms(5,6)
proof (induction pkts arbitrary: f)
  case (Cons pkt pkts)
  obtain p len where pkt: "pkt = (p, len)" by fastforce
  let ?fl = "flow_of e cfg (members_of S)"
  have wf: "wf_table (Some f)" using Cons.prems by (simp add: wf_table_def)
  have len: "unat len \<le> length p" using Cons.prems pkt by simp
  have step: "classify_dispatch e cfg S (Some f) cutoff p len pi0 =
      Some (frame_class e cfg (members_of S) (Some f) cutoff p (unat len))"
    by (rule classify_dispatch_eq [OF cfg(1) len set wf])
  have "\<exists>c f'. frame_class e cfg (members_of S) (Some f) cutoff p (unat len) = (c, Some f') \<and>
      (wf_flowtab f' \<and> fmask f' = mask 20) \<and>
      (\<forall>k. ?fl pkt = Some k \<and> recorded f k < unat cutoff \<longrightarrow> c = 1) \<and>
      (\<forall>k. recorded f' k \<le> recorded f k + (if ?fl pkt = Some k then 1 else 0))"
  proof (cases "?fl pkt")
    case None
    then show ?thesis using frame_class_no_flow [OF cfg(2), of e "members_of S" p len "Some f" cutoff]
        Cons.prems(1) pkt by auto
  next
    case (Some k)
    obtain f' where f': "flow_seen f k = Some (word_of_nat (recorded f k), f')"
      "wf_flowtab f' \<and> fmask f' = mask 20" "recorded f' k = Suc (recorded f k) mod 2 ^ 32"
      "\<And>k'. k' \<noteq> k \<Longrightarrow> recorded f' k' \<le> recorded f k'"
      using flows.seen_ok [OF Cons.prems(1), of k] by blast
    have "(word_of_nat (recorded f k) :: u32) < cutoff" if "recorded f k < unat cutoff"
      using that less_trans [OF that unat_less_u32] by (simp add: word_less_nat_alt unat_of_nat)
    moreover have "recorded f' k' \<le> recorded f k' + (if ?fl pkt = Some k' then 1 else 0)" for k'
      using f'(3,4) Some by (cases "k' = k") (auto intro: order_trans [OF mod_less_eq_dividend])
    ultimately show ?thesis
      using frame_class_flow [OF cfg(2) cutoff f'(1), of e "members_of S" p len] Some pkt f'(2)
      by auto
  qed
  then obtain c f' where c: "frame_class e cfg (members_of S) (Some f) cutoff p (unat len) = (c, Some f')"
    "wf_flowtab f' \<and> fmask f' = mask 20"
    "\<And>k. ?fl pkt = Some k \<Longrightarrow> recorded f k < unat cutoff \<Longrightarrow> c = 1"
    "\<And>k. recorded f' k \<le> recorded f k + (if ?fl pkt = Some k then 1 else 0)" by blast
  obtain cs ft' where cs: "traceM (\<lambda>ft (p, len). classify_dispatch e cfg S ft cutoff p len pi0) (Some f') pkts
      = Some (cs, ft')" "length cs = length pkts"
    "\<And>i k. i < length pkts \<Longrightarrow> ?fl (pkts ! i) = Some k \<Longrightarrow>
       recorded f' k + length (filter (\<lambda>q. ?fl q = Some k) (take i pkts)) < unat cutoff \<Longrightarrow> cs ! i = 1"
    using Cons.IH [OF c(2)] Cons.prems(2) by auto
  have "(c # cs) ! i = 1" if "i < length (pkt # pkts)" "?fl ((pkt # pkts) ! i) = Some k"
    "recorded f k + length (filter (\<lambda>q. ?fl q = Some k) (take i (pkt # pkts))) < unat cutoff" for i k
  proof (cases i)
    case 0
    then show ?thesis using that c(3) by simp
  next
    case (Suc j)
    then show ?thesis using that c(4) [of k] cs(3) [of j k] by (auto split: if_splits)
  qed
  then show ?case using cs step c(1) pkt by (intro exI [of _ "c # cs"] exI [of _ ft']) auto
qed simp


lemma generic_class_2:
  "fst (generic_class A ft cutoff v) = 2 \<longleftrightarrow> src_ip v \<in> A \<or> dst_ip v \<in> A"
  "fst (generic_class A ft cutoff v) = 2 \<Longrightarrow> snd (generic_class A ft cutoff v) = ft"
  by (auto simp: generic_class_def Let_def split: option.splits prod.splits if_splits)

lemma view_at_addrs [simp]:
  "src_ip (view_at e p n i) = load_at e p (i + 12)" "dst_ip (view_at e p n i) = load_at e p (i + 16)"
  by (simp_all add: view_at_def Let_def)

lemma frame_class_2:
  assumes "profile cfg \<noteq> 1"
  shows "fst (frame_class e cfg A ft cutoff p n) = 2 \<longleftrightarrow>
      (\<exists>i. ipv4_offset p n (unat (l2_off cfg)) = Some i \<and>
         (load_at e p (i + 12) \<in> A \<or> load_at e p (i + 16) \<in> A))"
    and "fst (frame_class e cfg A ft cutoff p n) = 2 \<Longrightarrow> snd (frame_class e cfg A ft cutoff p n) = ft"
  using assms generic_class_2
  by (simp_all add: frame_class_def split: option.splits)

section \<open>The classifier interface\<close>

text \<open>What the capture callbacks rely on: on captured packets the classifier answers a class below a
  bound and keeps its state well-formed.\<close>

locale classifier =
  fixes classify :: "'t \<Rightarrow> 'p \<Rightarrow> (nat \<times> 't) option"
    and ok :: "'t \<Rightarrow> bool"
    and captured :: "'p \<Rightarrow> bool"
    and bound :: nat
  assumes total: "ok t \<Longrightarrow> captured p \<Longrightarrow> \<exists>c t'. classify t p = Some (c, t') \<and> c < bound \<and> ok t'"
begin

lemma trace_total:
  assumes "ok t" and "\<forall>p \<in> set ps. captured p"
  shows "\<exists>cs t'. traceM classify t ps = Some (cs, t') \<and> length cs = length ps \<and>
    (\<forall>c \<in> set cs. c < bound) \<and> ok t'"
  using assms
proof (induction ps arbitrary: t)
  case (Cons p ps)
  then obtain c t1 where "classify t p = Some (c, t1)" "c < bound" "ok t1" using total by force
  with Cons show ?case by fastforce
qed simp

end

interpretation classes: classifier
  "\<lambda>ft (p, len). classify_dispatch e cfg S ft cutoff p len pi0"
  "\<lambda>ft. wf_cfg cfg \<and> wf_set S \<and> wf_table ft" "\<lambda>(p, len). unat len \<le> length p" "class_count cfg"
proof unfold_locales
  fix ft and pkt :: "u8 list \<times> u32"
  assume ok: "wf_cfg cfg \<and> wf_set S \<and> wf_table ft" and cap: "case pkt of (p, len) \<Rightarrow> unat len \<le> length p"
  obtain p len where pkt: "pkt = (p, len)" by fastforce
  have "classify_dispatch e cfg S ft cutoff p len pi0 =
      Some (frame_class e cfg (members_of S) ft cutoff p (unat len))"
    using ok cap pkt by (intro classify_dispatch_eq) auto
  then show "\<exists>c ft'. (case pkt of (p, len) \<Rightarrow> classify_dispatch e cfg S ft cutoff p len pi0) = Some (c, ft') \<and>
      c < class_count cfg \<and> (wf_cfg cfg \<and> wf_set S \<and> wf_table ft')"
    using frame_class_ok [of ft e cfg "members_of S" cutoff p "unat len"] ok pkt
    by (cases "frame_class e cfg (members_of S) ft cutoff p (unat len)") simp
qed

section \<open>Properties\<close>

text \<open>For the witnesses: the configuration of a call that leaves all defaults, and an Ethernet frame with
  a 28-byte UDP packet from 10.0.0.1:12345 to 10.0.0.2:80.\<close>

definition default_cfg :: "cint \<Rightarrow> mt_classcfg" where
  "default_cfg prof = \<lparr>dns_port = 53, dpi_ports = MT_DPI_PORTS_DEFAULT, ndpi = 6,
     tls_ports = MT_TLS_PORTS_DEFAULT, ntls = 1, l2_off = 14, profile = prof\<rparr>"

definition udp_frame :: "u8 list" where
  "udp_frame = replicate 12 2 @ [8, 0] @ [0x45, 0, 0, 28, 0, 1, 0, 0, 64, 17, 0, 0] @
     [10, 0, 0, 1] @ [10, 0, 0, 2] @ [0x30, 0x39, 0, 80, 0, 8, 0, 0]"

definition no_info :: mt_pktinfo where
  "no_info = \<lparr>cand = 0, ipv4 = 0, proto = 0, l3 = 0, l4 = 0, sport = 0, dport = 0\<rparr>"

lemma default_cfg_ok [simp]:
  "wf_cfg (default_cfg prof)" "profile (default_cfg prof) = prof" "l2_off (default_cfg prof) = 14"
  by (simp_all add: wf_cfg_def default_cfg_def MT_DPI_PORTS_DEFAULT_def MT_TLS_PORTS_DEFAULT_def)

lemma length_udp_frame [simp]: "length udp_frame = 42"
  by (simp add: udp_frame_def)

lemma udp_frame_offset: "ipv4_offset udp_frame 42 14 = Some 14"
proof -
  have "udp_frame ! 14 = 0x45" by (simp add: udp_frame_def nth_append)
  moreover have "drop_bit 4 (0x45 :: u8) = 4" by simp
  ultimately have "first_behind_tags udp_frame 42 14 0"
    by (simp only: first_behind_tags_0 v4_at_def) simp
  from ipv4_offset_behind [OF _ this] show ?thesis by simp
qed

lemma wf_none [simp]: "wf_set None" "wf_table None"
  by (simp_all add: wf_set_def wf_table_def)

text \<open>C3: the generic classifier stays inside the captured bytes and computes its decision table:
  OTHER when no IPv4 header is located, else SET_MATCH before FLOW_HEAD before OTHER, counting the
  packet only when it is neither a set match nor without ports.\<close>

theorem classify_generic_refines:
  assumes "wf_cfg cfg" and "unat len \<le> length p" and "wf_set S" and "wf_table ft"
  shows "classify_generic e cfg S ft cutoff p len =
    Some (case ipv4_offset p (unat len) (unat (l2_off cfg)) of None \<Rightarrow> (0, ft)
          | Some i \<Rightarrow> generic_class (members_of S) ft cutoff (view_at e p (unat len) i))"
proof -
  have l2: "unat (l2_off cfg) \<le> 64" using assms(1) by (simp add: wf_cfg_def)
  note loc = locate_ipv4_offset [OF l2 assms(2)]
  show ?thesis
    using assms(1,2)
  proof (cases rule: find_located)
    case none
    then show ?thesis using loc by (simp add: classify_generic_def)
  next
    case (at h)
    then have "locate_ipv4 (l2_off cfg) p len = Some (int (unat h))" using loc by simp
    from classify_generic_at [OF this at(3) assms(3,4)] at(2) show ?thesis by simp
  qed
qed

theorem classify_generic_refines_witness:
  "classify_generic Little (default_cfg 0) None None 0 udp_frame 42 =
    Some (case ipv4_offset udp_frame (unat (42 :: u32)) (unat (l2_off (default_cfg 0))) of None \<Rightarrow> (0, None)
          | Some i \<Rightarrow> generic_class (members_of None) None 0
                       (view_at Little udp_frame (unat (42 :: u32)) i))"
  by (rule classify_generic_refines) simp_all

text \<open>C2: the security classifier stays inside the captured bytes and computes its decision table,
  whatever the uninitialised packet-info structure held: no undefined field is ever used.\<close>

theorem classify_refine_refines:
  assumes "wf_cfg cfg" and "unat len \<le> length p" and "wf_set S" and "wf_table ft"
  shows "classify_refine e cfg S ft cutoff p len pi0 =
    Some (case ipv4_offset p (unat len) (unat (l2_off cfg)) of None \<Rightarrow> (2, ft)
          | Some i \<Rightarrow> security_class (dns_port cfg) (dpi_set cfg) (tls_set cfg) (members_of S) ft cutoff
                        (view_at e p (unat len) i))"
  using assms(1,2)
proof (cases rule: find_located)
  case none
  then show ?thesis by (simp add: classify_refine_def mt_classify_def)
next
  case (at h)
  from classify_refine_at [OF assms(1) at(1,3) assms(3,4)] at(2) show ?thesis by simp
qed

theorem classify_refine_refines_witness:
  "classify_refine Big (default_cfg 1) None None 0 udp_frame 42 no_info =
    Some (case ipv4_offset udp_frame (unat (42 :: u32)) (unat (l2_off (default_cfg 1))) of None \<Rightarrow> (2, None)
          | Some i \<Rightarrow> security_class (dns_port (default_cfg 1)) (dpi_set (default_cfg 1))
                        (tls_set (default_cfg 1)) (members_of None) None 0
                        (view_at Big udp_frame (unat (42 :: u32)) i))"
  by (rule classify_refine_refines) simp_all

text \<open>On every captured packet the dispatched classifier answers a class of its profile (three
  generic classes, six security classes), without a fault, and keeps the flow table well-formed.\<close>

theorem classify_dispatch_total:
  assumes "wf_cfg cfg" and "unat len \<le> length p" and "wf_set S" and "wf_table ft"
  shows "\<exists>c ft'. classify_dispatch e cfg S ft cutoff p len pi0 = Some (c, ft') \<and>
    c < class_count cfg \<and> wf_table ft'"
  using classes.total [of cfg S ft "(p, len)" e cutoff pi0] assms by auto

theorem classify_dispatch_total_witness:
  "\<exists>c ft'. classify_dispatch Little (default_cfg 1) None None 3 udp_frame 42 no_info = Some (c, ft') \<and>
    c < class_count (default_cfg 1) \<and> wf_table ft'"
  by (rule classify_dispatch_total) simp_all

text \<open>C7: with an address set built (with memory available) from a packed list below 4 GiB, the generic profile reports SET_MATCH
  exactly for the IPv4 packets whose source or destination is one of them (and not 0.0.0.0),
  whatever the protocol, and does not count those packets against their flow.\<close>

theorem generic_set_match_exact:
  assumes "wf_cfg cfg" and "profile cfg \<noteq> 1" and "unat len \<le> length p" and "wf_table ft"
    and "length data < 2 ^ 32" and "\<forall>k. alloc k" and "ipset_build e alloc data = Some S"
  shows "\<exists>c ft'. classify_dispatch e cfg S ft cutoff p len pi0 = Some (c, ft') \<and>
    (c = 2 \<longleftrightarrow> (\<exists>i a. ipv4_offset p (unat len) (unat (l2_off cfg)) = Some i \<and>
                a \<in> {load_at e p (i + 12), load_at e p (i + 16)} \<and> a \<noteq> 0 \<and>
                a \<in> set (packed_addrs e data))) \<and>
    (c = 2 \<longrightarrow> ft' = ft)"
proof -
  obtain s where s: "S = Some s" "wf_ipset s"
    "\<And>ip. ipset_has (Some s) ip = Some (ip \<noteq> 0 \<and> ip \<in> set (packed_addrs e data))"
    using ipset_build_spec [OF assms(5,6), of e] assms(7) by auto
  have mem: "members_of S = set (packed_addrs e data) - {0}"
    using s(3) ipset_has_ok [OF s(2)] by (auto simp: s(1) members_of_def members_def)
  have wf: "wf_set S" using s by (simp add: wf_set_def)
  obtain c ft' where c: "frame_class e cfg (members_of S) ft cutoff p (unat len) = (c, ft')" by fastforce
  then have "c = 2 \<longleftrightarrow> (\<exists>i. ipv4_offset p (unat len) (unat (l2_off cfg)) = Some i \<and>
      (load_at e p (i + 12) \<in> members_of S \<or> load_at e p (i + 16) \<in> members_of S))"
    and "c = 2 \<Longrightarrow> ft' = ft"
    using frame_class_2 [OF assms(2), of e "members_of S" ft cutoff p "unat len"] by simp_all
  then have "c = 2 \<longleftrightarrow> (\<exists>i a. ipv4_offset p (unat len) (unat (l2_off cfg)) = Some i \<and>
                a \<in> {load_at e p (i + 12), load_at e p (i + 16)} \<and> a \<noteq> 0 \<and>
                a \<in> set (packed_addrs e data))" and "c = 2 \<longrightarrow> ft' = ft"
    unfolding mem by blast+
  then show ?thesis
    using classify_dispatch_eq [OF assms(1,3) wf assms(4)] c by simp
qed



theorem generic_set_match_exact_witness:
  "\<exists>S. ipset_build Big (\<lambda>_. True) [10, 0, 0, 2] = Some S \<and>
    (\<exists>c ft'. classify_dispatch Big (default_cfg 0) S None 0 udp_frame 42 no_info = Some (c, ft') \<and>
     (c = 2 \<longleftrightarrow> (\<exists>i a. ipv4_offset udp_frame (unat (42 :: u32)) (unat (l2_off (default_cfg 0))) = Some i \<and>
                a \<in> {load_at Big udp_frame (i + 12), load_at Big udp_frame (i + 16)} \<and> a \<noteq> 0 \<and>
                a \<in> set (packed_addrs Big [10, 0, 0, 2]))) \<and>
     (c = 2 \<longrightarrow> ft' = None))"
proof -
  obtain S where S: "ipset_build Big (\<lambda>_. True) [10, 0, 0, 2] = Some S"
    using ipset_build_spec [of "[10, 0, 0, 2]" "\<lambda>_. True" Big] by auto
  show ?thesis
    by (rule exI [of _ S], rule conjI [OF S], rule generic_set_match_exact [OF _ _ _ _ _ _ S]) simp_all
qed

text \<open>C4: with a flow cutoff and a fresh flow table, the generic profile never misses the head of a
  flow: every packet counted under a flow of which fewer than \<open>cutoff\<close> packets came before is
  reported as FLOW_HEAD, whatever evictions and counter wraps happened.\<close>

theorem generic_never_misses_head:
  assumes "wf_cfg cfg" and "profile cfg \<noteq> 1" and "wf_set S" and "cutoff \<noteq> 0"
    and "flowtab_build alloc 20 = Some f" and "\<forall>(p, len) \<in> set pkts. unat len \<le> length p"
  shows "\<exists>cs ft'. traceM (\<lambda>ft (p, len). classify_dispatch e cfg S ft cutoff p len pi0) (Some f) pkts
      = Some (cs, ft') \<and> length cs = length pkts \<and>
    (\<forall>i < length pkts. \<forall>k. flow_of e cfg (members_of S) (pkts ! i) = Some k \<and>
       length (filter (\<lambda>q. flow_of e cfg (members_of S) q = Some k) (take i pkts)) < unat cutoff
         \<longrightarrow> cs ! i = 1)"
proof -
  have "wf_flowtab f \<and> fmask f = mask 20" "recorded f k = 0" for k
    using flowtab_build_ok [OF assms(5)] by simp_all
  then show ?thesis using generic_heads [OF assms(1-4) _ assms(6), of f e pi0] by simp
qed

theorem generic_never_misses_head_witness:
  "\<exists>f. flowtab_build (\<lambda>_. True) 20 = Some f \<and>
    (\<exists>cs ft'. traceM (\<lambda>ft (p, len). classify_dispatch Little (default_cfg 0) None ft 1 p len no_info) (Some f)
        [(udp_frame, 42), (udp_frame, 42)] = Some (cs, ft') \<and>
      length cs = length [(udp_frame, 42 :: u32), (udp_frame, 42)] \<and>
      (\<forall>i < length [(udp_frame, 42 :: u32), (udp_frame, 42)]. \<forall>k.
         flow_of Little (default_cfg 0) (members_of None) ([(udp_frame, 42), (udp_frame, 42)] ! i) = Some k \<and>
         length (filter (\<lambda>q. flow_of Little (default_cfg 0) (members_of None) q = Some k)
           (take i [(udp_frame, 42), (udp_frame, 42)])) < unat (1 :: u32) \<longrightarrow> cs ! i = 1))"
proof -
  obtain f where f: "flowtab_build (\<lambda>_. True) 20 = Some f" by (auto simp: flowtab_build_def Let_def)
  show ?thesis
    by (rule exI [of _ f], rule conjI [OF f], rule generic_never_misses_head [OF _ _ _ _ f]) simp_all
qed

text \<open>Neither profile looks at the fragment-offset field of the IPv4 header (bytes 6 and 7):
  changing it changes nothing, so the first payload bytes of a non-first fragment are read as ports
  and the fragment can be counted and reported as a flow head.\<close>

theorem classify_ignores_fragment_offset:
  assumes "wf_cfg cfg" and "unat len \<le> length p" and "wf_set S" and "wf_table ft"
    and "ipv4_offset p (unat len) (unat (l2_off cfg)) = Some i"
  shows "classify_dispatch e cfg S ft cutoff (p[i + 6 := x, i + 7 := y]) len pi0 =
    classify_dispatch e cfg S ft cutoff p len pi0"
proof -
  let ?q = "p[i + 6 := x, i + 7 := y]" and ?l = "unat (l2_off cfg)"
  obtain k where k: "k \<le> 2" "first_behind_tags p (unat len) ?l k" "i = ?l + 4 * k"
    using ipv4_offset_None ipv4_offset_behind assms(5) by (metis option.discI option.inject)
  have "v4_behind_tags ?q (unat len) ?l j \<longleftrightarrow> v4_behind_tags p (unat len) ?l j" if "j \<le> k" for j
    using that unfolding k(3) v4_behind_tags_def v4_at_def tag_before_def by simp
  then have "first_behind_tags ?q (unat len) ?l k" using k(2) by (simp add: first_behind_tags_def)
  then have off: "ipv4_offset ?q (unat len) ?l = Some i"
    using ipv4_offset_behind [OF k(1)] k(3) by simp
  define q where "q = ?q"
  have same: "q ! j = p ! j" if "j < i + 6 \<or> i + 8 \<le> j" for j
    using that by (auto simp: q_def)
  have hdr: "q ! i = p ! i" "q ! (i + 9) = p ! (i + 9)"
    "load_at e q (i + 12) = load_at e p (i + 12)" "load_at e q (i + 16) = load_at e p (i + 16)"
    by (simp_all add: same load_at_def)
  define H where "H = 4 * (unat (p ! i) mod 16)"
  have "view_at e q (unat len) i = view_at e p (unat len) i"
  proof (cases "20 \<le> H")
    case True
    then have "q ! (i + H + m) = p ! (i + H + m)" for m by (intro same) simp
    from this [of 0] this [of 1] this [of 2] this [of 3] this [of 12] this [of 13]
    show ?thesis by (simp only: view_at_def Let_def hdr H_def [symmetric] add_0_right)
  next
    case False
    then show ?thesis by (simp only: view_at_def Let_def hdr H_def [symmetric] simp_thms if_False)
  qed
  then have "frame_class e cfg (members_of S) ft cutoff ?q (unat len) =
      frame_class e cfg (members_of S) ft cutoff p (unat len)"
    by (simp only: frame_class_def off assms(5) q_def option.case)
  moreover have "unat len \<le> length ?q" using assms(2) by simp
  ultimately show ?thesis
    using classify_dispatch_eq [OF assms(1) _ assms(3,4)] assms(2) by metis
qed

theorem classify_ignores_fragment_offset_witness:
  "ipv4_offset udp_frame 42 14 = Some 14 \<and>
   classify_dispatch Little (default_cfg 0) None None 1 (udp_frame[14 + 6 := 0, 14 + 7 := 185]) 42 no_info =
     classify_dispatch Little (default_cfg 0) None None 1 udp_frame 42 no_info"
proof -
  have off: "ipv4_offset udp_frame (unat (42 :: u32)) (unat (l2_off (default_cfg 0))) = Some 14"
    by (simp add: udp_frame_offset)
  then have "ipv4_offset udp_frame 42 14 = Some 14" by simp
  then show ?thesis
    by (intro conjI classify_ignores_fragment_offset [OF _ _ _ _ off]) simp_all
qed

end
