(* ===== verification/Pyobj.thy ===== *)
theory Pyobj
  imports Prelude
begin

text \<open>
  The Python side of the extension: what a C function gives back to the interpreter, the packet
  header objects of \<open>src/pcap_pkthdr.cc\<close>, and the capture object \<open>pcapobject\<close> of
  \<open>src/pcapobj.cc\<close> with its creation and its closing.

  A C function of the extension returns a pointer to an object, or NULL, and may leave the error
  indicator of the thread set. Both are part of the result here, because some functions return
  without consulting the indicator.
\<close>

section \<open>Results of C functions\<close>

text \<open>The exceptions the extension raises, with their messages. \<open>ArgError\<close> is the one that argument
  parsing raises, \<open>CallbackError n\<close> one raised by the \<open>n\<close>th call of a Python callback. \<open>OverflowError\<close>,
  \<open>NoMemory\<close> and \<open>SystemError\<close> also come from the interpreter itself, the last one for a call that
  returns a result while an exception is set.\<close>

datatype exn =
    PcapError string
  | BPFError string
  | ValueError string
  | TypeError string
  | NoMemory
  | ArgError string
  | CallbackError nat
  | OverflowError string
  | SystemError

type_synonym 'a cret = "'a option \<times> exn option"

abbreviation returns :: "'a \<Rightarrow> 'a cret" where
  "returns v \<equiv> (Some v, None)"

abbreviation raises :: "exn \<Rightarrow> 'a cret" where
  "raises ex \<equiv> (None, Some ex)"

text \<open>The calling convention of the interpreter: NULL exactly when an exception is set.\<close>

definition conventional :: "'a cret \<Rightarrow> bool" where
  "conventional r \<longleftrightarrow> (fst r = None) = (snd r \<noteq> None)"

lemma conventional_simps [simp]:
  "conventional (returns v)" "conventional (raises ex)"
  "\<not> conventional (None, None)" "\<not> conventional (Some v, Some ex)"
  by (simp_all add: conventional_def)

text \<open>\<open>self\<close> as a C function receives it: an object of the expected type or of another one
  (\<open>Py_TYPE(pp) != &T\<close>).\<close>

datatype 'o pyobj = Obj 'o | OtherType

section \<open>Packet headers\<close>

text \<open>\<open>struct pcap_pkthdr\<close> of libpcap, with \<open>struct timeval\<close> as two 64-bit fields, and the Python
  object that copies it.\<close>

record pcap_pkthdr =
  tv_sec :: u64
  tv_usec :: u64
  h_caplen :: u32
  h_len :: u32

record pkthdr =
  ts :: "u64 \<times> u64"
  caplen :: u32
  pkt_len :: u32

definition new_pcap_pkthdr :: "pcap_pkthdr \<Rightarrow> pkthdr" where
  "new_pcap_pkthdr hdr =
     \<lparr>ts = (tv_sec hdr, tv_usec hdr), caplen = h_caplen hdr, pkt_len = h_len hdr\<rparr>"

definition p_getts :: "pkthdr pyobj \<Rightarrow> (int \<times> int) cret" where
  "p_getts self =
     (case self of OtherType \<Rightarrow> raises (PcapError ''Not a pkthdr object'')
      | Obj pp \<Rightarrow> returns (sint (fst (ts pp)), sint (snd (ts pp))))"

definition p_getcaplen :: "pkthdr pyobj \<Rightarrow> int cret" where
  "p_getcaplen self =
     (case self of OtherType \<Rightarrow> raises (PcapError ''Not a pkthdr object'')
      | Obj pp \<Rightarrow> returns (uint (caplen pp)))"

definition p_getlen :: "pkthdr pyobj \<Rightarrow> int cret" where
  "p_getlen self =
     (case self of OtherType \<Rightarrow> raises (PcapError ''Not a pkthdr object'')
      | Obj pp \<Rightarrow> returns (uint (pkt_len pp)))"

text \<open>\<open>pkthdr_to_native\<close>: the native header, or the exception and -1.\<close>

definition pkthdr_to_native :: "pkthdr pyobj \<Rightarrow> pcap_pkthdr cret" where
  "pkthdr_to_native pyhdr =
     (case pyhdr of OtherType \<Rightarrow> raises (PcapError ''Not a pkthdr object'')
      | Obj pp \<Rightarrow> returns \<lparr>tv_sec = fst (ts pp), tv_usec = snd (ts pp), h_caplen = caplen pp, h_len = pkt_len pp\<rparr>)"

lemma pkthdr_roundtrip [simp]: "pkthdr_to_native (Obj (new_pcap_pkthdr hdr)) = returns hdr"
  by (simp add: pkthdr_to_native_def new_pcap_pkthdr_def)

lemma pkthdr_roundtrip_back:
  "pkthdr_to_native (Obj pp) = returns hdr \<Longrightarrow> new_pcap_pkthdr hdr = pp"
  by (auto simp: pkthdr_to_native_def new_pcap_pkthdr_def)

text \<open>The bytes object made from \<open>n\<close> bytes at a pointer (\<open>"y#"\<close>): a fault when the object behind the
  pointer is shorter.\<close>

definition bytes_of :: "u8 list \<Rightarrow> u32 \<Rightarrow> u8 list option" where
  "bytes_of d n = (if unat n \<le> length d then Some (take (unat n) d) else None)"

text \<open>A packet as libpcap delivers it: the header and the memory behind the data pointer. libpcap
  guarantees that the captured bytes are there.\<close>

type_synonym packet = "pcap_pkthdr \<times> u8 list"

definition captured :: "packet \<Rightarrow> bool" where
  "captured x \<longleftrightarrow> unat (h_caplen (fst x)) \<le> length (snd x)"

lemma captured_bytes [simp]:
  "captured (h, d) \<Longrightarrow> bytes_of d (h_caplen h) = Some (take (unat (h_caplen h)) d)"
  by (simp add: captured_def bytes_of_def)

section \<open>The capture object\<close>

text \<open>A \<open>pcap_t\<close> pointer is a natural number; \<open>None\<close> is NULL, the closed state.\<close>

record pcapobject =
  pcap :: "nat option"
  net :: u32
  netmask :: u32
  filt_counts :: "u64 list"
  filt_profile :: cint

text \<open>\<open>new_pcapobject\<close> sets three fields; the rest of the object is what the allocator returned.\<close>

definition new_pcapobject :: "pcapobject \<Rightarrow> nat \<Rightarrow> u32 \<Rightarrow> u32 \<Rightarrow> pcapobject" where
  "new_pcapobject fresh h n m = fresh\<lparr>pcap := Some h, net := n, netmask := m\<rparr>"

definition err_closed :: "'a cret" where
  "err_closed = raises (ValueError ''pcap is closed'')"

text \<open>\<open>close()\<close> (and \<open>__exit__\<close>): the object afterwards, the handles passed to \<open>pcap_close\<close> and
  the result.\<close>

definition p_close :: "pcapobject \<Rightarrow> pcapobject \<times> nat list \<times> unit cret" where
  "p_close pp =
     (let closed = (case pcap pp of None \<Rightarrow> [] | Some h \<Rightarrow> [h]) in
      (pp\<lparr>pcap := None\<rparr>, closed, returns ()))"

definition pcap_dealloc :: "pcapobject \<Rightarrow> nat list" where
  "pcap_dealloc pp = (let (pp', closed, res) = p_close pp in closed)"

text \<open>The prologue every method shares: the type check, then the closed check; \<open>fail\<close> is how the
  caller reports an exception, \<open>k\<close> the rest of the method on the open handle.\<close>

definition check_open ::
  "pcapobject pyobj \<Rightarrow> (exn \<Rightarrow> 'r) \<Rightarrow> (pcapobject \<Rightarrow> nat \<Rightarrow> 'r) \<Rightarrow> 'r" where
  "check_open self fail k =
     (case self of OtherType \<Rightarrow> fail (PcapError ''Not a pcap object'')
      | Obj pp \<Rightarrow> (case pcap pp of None \<Rightarrow> fail (ValueError ''pcap is closed'') | Some h \<Rightarrow> k pp h))"

lemma check_open_simps [simp]:
  "check_open OtherType fail k = fail (PcapError ''Not a pcap object'')"
  "pcap pp = None \<Longrightarrow> check_open (Obj pp) fail k = fail (ValueError ''pcap is closed'')"
  "pcap pp = Some h \<Longrightarrow> check_open (Obj pp) fail k = k pp h"
  by (simp_all add: check_open_def)

end
