(* ===== verification/Loops.thy ===== *)
theory Loops
  imports Pyobj
begin

text \<open>
  Running a callback over the packets of a capture: what the extension relies on of
  \<open>pcap_loop\<close> and \<open>pcap_dispatch\<close>, the interface of a packet callback with the lemmas every
  capture loop shares, and the plain callback \<open>PythonCallBack\<close> with \<open>loop()\<close> and
  \<open>dispatch()\<close> of \<open>src/pcapobj.cc\<close>.

  A callback maps its context and a packet to the context afterwards and whether it called
  \<open>pcap_breakloop\<close>. libpcap is a parameter; its documented behaviour is the hypothesis
  \<open>loop_contract\<close>.
\<close>

section \<open>The contract of libpcap\<close>

text \<open>Handing packets to a callback, one by one, until it breaks the loop.\<close>

fun deliver :: "('s \<Rightarrow> 'p \<Rightarrow> ('s \<times> bool) option) \<Rightarrow> 's \<Rightarrow> 'p list \<Rightarrow> ('s \<times> bool) option" where
  "deliver cb s [] = Some (s, False)"
| "deliver cb s (x # xs) = do { (s', brk) \<leftarrow> cb s x; if brk then Some (s', True) else deliver cb s' xs }"

text \<open>How many packets that takes from the source.\<close>

fun consumed :: "('s \<Rightarrow> 'p \<Rightarrow> ('s \<times> bool) option) \<Rightarrow> 's \<Rightarrow> 'p list \<Rightarrow> nat" where
  "consumed cb s [] = 0"
| "consumed cb s (x # xs) =
     (case cb s x of None \<Rightarrow> 1 | Some (s', brk) \<Rightarrow> if brk then 1 else Suc (consumed cb s' xs))"

type_synonym 's pcap_loop = "int \<Rightarrow> ('s \<Rightarrow> packet \<Rightarrow> ('s \<times> bool) option) \<Rightarrow> 's \<Rightarrow> ('s \<times> int) option"

text \<open>The packets a call with count \<open>cnt\<close> may deliver: all that the source holds for a count of zero
  or less, the first \<open>cnt\<close> otherwise.\<close>

definition offered :: "int \<Rightarrow> 'p list \<Rightarrow> 'p list" where
  "offered cnt src = (if 0 < cnt then take (nat cnt) src else src)"

text \<open>\<open>pcap_loop\<close> delivers them in order until the callback breaks. It returns \<open>brk\<close> after a break
  (-2, or 0 when the break came with the last packet of the count), 0 when the count is exhausted,
  and otherwise \<open>fin\<close>, how the source ends (0 at the end of a file, -1 on a read error, -2 when
  another party broke the loop).\<close>

definition loop_contract :: "'s pcap_loop \<Rightarrow> packet list \<Rightarrow> int \<Rightarrow> int \<Rightarrow> bool" where
  "loop_contract pl src fin brk \<longleftrightarrow>
     (\<forall>cnt cb s. pl cnt cb s = do {
        (s', stopped) \<leftarrow> deliver cb s (offered cnt src);
        Some (s', if stopped then brk
                  else if 0 < cnt \<and> nat cnt \<le> length src then 0 else fin) })"

text \<open>\<open>pcap_dispatch\<close> on the packets of one buffer: after a break by the callback it returns
  \<open>brk\<close>, and otherwise the number of packets delivered, unless a read error (-1) or a break requested
  by another party (-2) comes before the count is filled: that is \<open>fin\<close>, when it is negative.\<close>

definition filled :: "int \<Rightarrow> 'p list \<Rightarrow> bool" where
  "filled cnt src \<longleftrightarrow> 0 < cnt \<and> nat cnt \<le> length src"

definition dispatch_contract :: "'s pcap_loop \<Rightarrow> packet list \<Rightarrow> int \<Rightarrow> int \<Rightarrow> bool" where
  "dispatch_contract pd src fin brk \<longleftrightarrow>
     (\<forall>cnt cb s. pd cnt cb s = do {
        (s', stopped) \<leftarrow> deliver cb s (offered cnt src);
        Some (s', if stopped then brk else if fin < 0 \<and> \<not> filled cnt src then fin
                  else int (length (offered cnt src))) })"

text \<open>A library that keeps the contracts, for the witnesses.\<close>

definition reference_loop :: "packet list \<Rightarrow> int \<Rightarrow> int \<Rightarrow> 's pcap_loop" where
  "reference_loop src fin brk cnt cb s = do {
     (s', stopped) \<leftarrow> deliver cb s (offered cnt src);
     Some (s', if stopped then brk else if 0 < cnt \<and> nat cnt \<le> length src then 0 else fin) }"

lemma reference_loop_contract: "loop_contract (reference_loop src fin brk) src fin brk"
  by (simp add: loop_contract_def reference_loop_def)

definition reference_dispatch :: "packet list \<Rightarrow> int \<Rightarrow> int \<Rightarrow> 's pcap_loop" where
  "reference_dispatch src fin brk cnt cb s = do {
     (s', stopped) \<leftarrow> deliver cb s (offered cnt src);
     Some (s', if stopped then brk else if fin < 0 \<and> \<not> filled cnt src then fin
                  else int (length (offered cnt src))) }"

lemma reference_dispatch_contract: "dispatch_contract (reference_dispatch src fin brk) src fin brk"
  by (simp add: dispatch_contract_def reference_dispatch_def)

lemma deliver_all_consumed: "deliver cb s xs = Some (s', False) \<Longrightarrow> consumed cb s xs = length xs"
  by (induction xs arbitrary: s) (auto split: Option.bind_splits if_splits)

lemma consumed_counts:
  assumes "\<And>s x s' brk. cb s x = Some (s', brk) \<Longrightarrow> g s' = Suc (g s)" and "deliver cb s xs = Some (s', brk)"
  shows "g s' = g s + consumed cb s xs"
  using assms(2)
proof (induction xs arbitrary: s)
  case (Cons x xs)
  then obtain s1 b where "cb s x = Some (s1, b)" by (auto split: Option.bind_splits)
  then show ?case using Cons assms(1) by (cases b) fastforce+
qed simp

lemma set_offered: "x \<in> set (offered cnt src) \<Longrightarrow> x \<in> set src"
  by (auto simp: offered_def split: if_splits dest: in_set_takeD)

section \<open>The callback interface\<close>

text \<open>What a loop needs of its callback: no packet makes it fault; \<open>inv seen s\<close> describes the
  context after the packets \<open>seen\<close>, \<open>broken seen s\<close> the one after the packet that broke the
  loop. \<open>room seen\<close> says that a further packet may come.\<close>

locale bounded_callback =
  fixes cb :: "'s \<Rightarrow> 'p \<Rightarrow> ('s \<times> bool) option"
    and inv :: "'p list \<Rightarrow> 's \<Rightarrow> bool"
    and broken :: "'p list \<Rightarrow> 's \<Rightarrow> bool"
    and ok :: "'p \<Rightarrow> bool"
    and room :: "'p list \<Rightarrow> bool"
  assumes step: "inv seen s \<Longrightarrow> ok x \<Longrightarrow> room seen \<Longrightarrow>
      \<exists>s' brk. cb s x = Some (s', brk) \<and> (if brk then broken else inv) (seen @ [x]) s'"
begin

lemma deliver_inv:
  assumes "inv seen s" and "\<forall>x \<in> set xs. ok x" and "\<And>n. n < length xs \<Longrightarrow> room (seen @ take n xs)"
  shows "\<exists>s' brk n. deliver cb s xs = Some (s', brk) \<and> n = consumed cb s xs \<and> n \<le> length xs \<and> (brk \<longrightarrow> 0 < n) \<and>
    (if brk then broken (seen @ take n xs) s' else n = length xs \<and> inv (seen @ xs) s')"
  using assms
proof (induction xs arbitrary: seen s)
  case Nil
  then show ?case by (intro exI [of _ s] exI [of _ False]) simp
next
  case (Cons x xs)
  then obtain s1 b where s1: "cb s x = Some (s1, b)" "(if b then broken else inv) (seen @ [x]) s1"
    using step [of seen s x] Cons.prems(3) [of 0] by auto
  show ?case
  proof (cases b)
    case True
    then have "deliver cb s (x # xs) = Some (s1, True)" "broken (seen @ take 1 (x # xs)) s1"
      using s1 by simp_all
    then show ?thesis using s1(1) True by (intro exI [of _ s1] exI [of _ True] exI [of _ 1]) simp
  next
    case False
    have "room ((seen @ [x]) @ take n xs)" if "n < length xs" for n
      using Cons.prems(3) [of "Suc n"] that by simp
    with s1 False Cons.IH [of "seen @ [x]" s1] Cons.prems(2) obtain s' brk n where
      d: "deliver cb s1 xs = Some (s', brk)" "n = consumed cb s1 xs" "n \<le> length xs"
        "if brk then broken ((seen @ [x]) @ take n xs) s' else n = length xs \<and> inv ((seen @ [x]) @ xs) s'"
      by auto
    with s1 False have "deliver cb s (x # xs) = Some (s', brk)"
      "if brk then broken (seen @ take (Suc n) (x # xs)) s'
       else Suc n = length (x # xs) \<and> inv (seen @ (x # xs)) s'" by (auto split: if_splits)
    then show ?thesis
      using d(2,3) s1(1) False by (intro exI [of _ s'] exI [of _ brk] exI [of _ "Suc n"]) simp
  qed
qed

text \<open>The outcome of a whole run from the initial context.\<close>

lemma run_bounded:
  assumes "inv [] s" and "\<forall>x \<in> set src. ok x"
    and "\<And>n. n < length (offered cnt src) \<Longrightarrow> room (take n (offered cnt src))"
  shows "(\<exists>s'. deliver cb s (offered cnt src) = Some (s', False) \<and> inv (offered cnt src) s') \<or>
    (\<exists>s' n. deliver cb s (offered cnt src) = Some (s', True) \<and> 0 < n \<and> n \<le> length (offered cnt src) \<and>
       n = consumed cb s (offered cnt src) \<and> broken (take n (offered cnt src)) s')"
proof -
  have "\<forall>x \<in> set (offered cnt src). ok x" using assms(2) set_offered by metis
  from deliver_inv [OF assms(1) this, unfolded append_Nil, OF assms(3)] obtain s' brk n where
    "deliver cb s (offered cnt src) = Some (s', brk)" "n = consumed cb s (offered cnt src)"
    "n \<le> length (offered cnt src)" "brk \<longrightarrow> 0 < n"
    "if brk then broken (take n (offered cnt src)) s' else n = length (offered cnt src) \<and> inv (offered cnt src) s'"
    by blast
  then show ?thesis by (cases brk) auto
qed

end

text \<open>A callback that can take any number of packets.\<close>

locale packet_callback =
  fixes cb :: "'s \<Rightarrow> 'p \<Rightarrow> ('s \<times> bool) option"
    and inv :: "'p list \<Rightarrow> 's \<Rightarrow> bool"
    and broken :: "'p list \<Rightarrow> 's \<Rightarrow> bool"
    and ok :: "'p \<Rightarrow> bool"
  assumes any_step: "inv seen s \<Longrightarrow> ok x \<Longrightarrow>
      \<exists>s' brk. cb s x = Some (s', brk) \<and> (if brk then broken else inv) (seen @ [x]) s'"

sublocale packet_callback \<subseteq> bounded: bounded_callback cb inv broken ok "\<lambda>_. True"
  by unfold_locales (rule any_step)

context packet_callback
begin

lemmas run = bounded.run_bounded [OF _ _ TrueI]

end

section \<open>The plain callback\<close>

text \<open>The callback's view: the calls made so far, and the error indicator. \<open>py\<close> is the Python
  function: from the calls made, the last one included, the exception it raises, if any.\<close>

record pyctx =
  calls :: "(pkthdr \<times> u8 list) list"
  pyerr :: "exn option"

definition PythonCallBack ::
  "((pkthdr \<times> u8 list) list \<Rightarrow> exn option) \<Rightarrow> pyctx \<Rightarrow> packet \<Rightarrow> (pyctx \<times> bool) option" where
  "PythonCallBack py ctx = (\<lambda>(header, packetdata). do {
     let hdr = new_pcap_pkthdr header;
     data \<leftarrow> bytes_of packetdata (h_caplen header);
     let made = calls ctx @ [(hdr, data)];
     let raised = py made;
     Some (ctx\<lparr>calls := made, pyerr := raised\<rparr>, raised \<noteq> None) })"

text \<open>The arguments a packet is delivered with.\<close>

definition py_args :: "packet \<Rightarrow> pkthdr \<times> u8 list" where
  "py_args x = (new_pcap_pkthdr (fst x), take (unat (h_caplen (fst x))) (snd x))"

text \<open>When the function raises: \<open>py\<close> on no prefix of the calls, or first on the prefix of length \<open>n\<close>.\<close>

definition never_raises :: "('c list \<Rightarrow> exn option) \<Rightarrow> 'c list \<Rightarrow> bool" where
  "never_raises py cs \<longleftrightarrow> (\<forall>n. 0 < n \<and> n \<le> length cs \<longrightarrow> py (take n cs) = None)"

definition first_raise :: "('c list \<Rightarrow> exn option) \<Rightarrow> 'c list \<Rightarrow> nat \<Rightarrow> bool" where
  "first_raise py cs n \<longleftrightarrow> 0 < n \<and> n \<le> length cs \<and> py (take n cs) \<noteq> None \<and>
     never_raises py (take (n - 1) cs)"

lemma never_raises_Nil [simp]: "never_raises py []"
  by (simp add: never_raises_def)

lemma never_raises_snoc [simp]:
  "never_raises py (cs @ [c]) \<longleftrightarrow> never_raises py cs \<and> py (cs @ [c]) = None"
  by (auto simp: never_raises_def le_Suc_eq)

lemma first_raise_snoc:
  "first_raise py (cs @ [c]) (length (cs @ [c])) \<longleftrightarrow> never_raises py cs \<and> py (cs @ [c]) \<noteq> None"
  by (auto simp: first_raise_def)

lemma never_raises_take: "never_raises py cs \<Longrightarrow> never_raises py (take n cs)"
  by (auto simp: never_raises_def min_def)

lemma first_raise_take:
  "n \<le> length cs \<Longrightarrow> first_raise py (take n cs) n \<longleftrightarrow> first_raise py cs n"
  by (simp add: first_raise_def min_def)

lemma first_raise_unique: "first_raise py cs n \<Longrightarrow> first_raise py cs m \<Longrightarrow> n = m"
proof (rule ccontr)
  have False if "first_raise py cs n" "first_raise py cs m" "n < m" for n m
  proof -
    have "n \<le> length (take (m - 1) cs)" "take n (take (m - 1) cs) = take n cs"
      using that by (auto simp: first_raise_def min_def)
    then show False using that by (auto simp: first_raise_def never_raises_def)
  qed
  moreover assume "first_raise py cs n" "first_raise py cs m" "n \<noteq> m"
  ultimately show False by (metis linorder_neqE_nat)
qed

definition plain_inv :: "((pkthdr \<times> u8 list) list \<Rightarrow> exn option) \<Rightarrow> packet list \<Rightarrow> pyctx \<Rightarrow> bool" where
  "plain_inv py seen ctx \<longleftrightarrow> ctx = \<lparr>calls = map py_args seen, pyerr = None\<rparr> \<and> never_raises py (map py_args seen)"

definition plain_broken :: "((pkthdr \<times> u8 list) list \<Rightarrow> exn option) \<Rightarrow> packet list \<Rightarrow> pyctx \<Rightarrow> bool" where
  "plain_broken py seen ctx \<longleftrightarrow> ctx = \<lparr>calls = map py_args seen, pyerr = py (map py_args seen)\<rparr> \<and>
     first_raise py (map py_args seen) (length seen)"

interpretation plain: packet_callback "PythonCallBack py" "plain_inv py" "plain_broken py" captured
proof unfold_locales
  fix seen ctx x assume inv: "plain_inv py seen ctx" and cap: "captured x"
  obtain h d where x: "x = (h, d)" by fastforce
  have "PythonCallBack py ctx x = Some (\<lparr>calls = map py_args (seen @ [x]),
      pyerr = py (map py_args (seen @ [x]))\<rparr>, py (map py_args (seen @ [x])) \<noteq> None)"
    using inv cap by (simp add: PythonCallBack_def x plain_inv_def Let_def py_args_def)
  then show "\<exists>s' brk. PythonCallBack py ctx x = Some (s', brk) \<and>
      (if brk then plain_broken py else plain_inv py) (seen @ [x]) s'"
    using inv first_raise_snoc [of py "map py_args seen" "py_args x"]
    by (auto simp: plain_inv_def plain_broken_def)
qed

section \<open>loop() and dispatch()\<close>

text \<open>The arguments come parsed: \<open>args\<close> is the count, or the exception that argument parsing
  raised. \<open>geterr\<close> is \<open>pcap_geterr\<close>. The result is the calls made and what the function returns;
  a closed or foreign object makes no calls.\<close>

definition p_loop ::
  "pyctx pcap_loop \<Rightarrow> (nat \<Rightarrow> string) \<Rightarrow> ((pkthdr \<times> u8 list) list \<Rightarrow> exn option) \<Rightarrow>
     pcapobject pyobj \<Rightarrow> exn + int \<Rightarrow> ((pkthdr \<times> u8 list) list \<times> unit cret) option" where
  "p_loop pl geterr py self args =
     check_open self (\<lambda>ex. Some ([], raises ex)) (\<lambda>pp h.
       case args of Inl ex \<Rightarrow> Some ([], raises ex)
       | Inr cant \<Rightarrow> do {
           (ctx, ret) \<leftarrow> pl cant (PythonCallBack py) \<lparr>calls = [], pyerr = None\<rparr>;
           if ret < 0
           then if ret \<noteq> - 2 then Some (calls ctx, raises (PcapError (geterr h)))
                else Some (calls ctx, None, pyerr ctx)
           else Some (calls ctx, Some (), pyerr ctx) })"

definition p_dispatch ::
  "pyctx pcap_loop \<Rightarrow> (nat \<Rightarrow> string) \<Rightarrow> ((pkthdr \<times> u8 list) list \<Rightarrow> exn option) \<Rightarrow>
     pcapobject pyobj \<Rightarrow> exn + int \<Rightarrow> ((pkthdr \<times> u8 list) list \<times> int cret) option" where
  "p_dispatch pd geterr py self args =
     check_open self (\<lambda>ex. Some ([], raises ex)) (\<lambda>pp h.
       case args of Inl ex \<Rightarrow> Some ([], raises ex)
       | Inr cant \<Rightarrow> do {
           (ctx, ret) \<leftarrow> pd cant (PythonCallBack py) \<lparr>calls = [], pyerr = None\<rparr>;
           if pyerr ctx \<noteq> None then Some (calls ctx, None, pyerr ctx)
           else if ret < 0
           then if ret \<noteq> - 2 then Some (calls ctx, raises (PcapError (geterr h)))
                else Some (calls ctx, None, None)
           else Some (calls ctx, returns ret) })"

lemma plain_run:
  fixes cnt :: int
  assumes "\<forall>x \<in> set src. captured x"
  defines "cs \<equiv> map py_args (offered cnt src)"
  shows "(never_raises py cs \<and> deliver (PythonCallBack py) \<lparr>calls = [], pyerr = None\<rparr> (offered cnt src) =
        Some (\<lparr>calls = cs, pyerr = None\<rparr>, False)) \<or>
    (\<exists>n. first_raise py cs n \<and> deliver (PythonCallBack py) \<lparr>calls = [], pyerr = None\<rparr> (offered cnt src) =
        Some (\<lparr>calls = take n cs, pyerr = py (take n cs)\<rparr>, True))"
proof -
  let ?o = "offered cnt src"
  have "plain_inv py [] \<lparr>calls = [], pyerr = None\<rparr>" by (simp add: plain_inv_def)
  from plain.run [OF this assms(1), of cnt] consider
    (all) s where "deliver (PythonCallBack py) \<lparr>calls = [], pyerr = None\<rparr> ?o = Some (s, False)" "plain_inv py ?o s"
  | (brk) s n where "deliver (PythonCallBack py) \<lparr>calls = [], pyerr = None\<rparr> ?o = Some (s, True)"
      "0 < n" "n \<le> length ?o" "plain_broken py (take n ?o) s" by blast
  then show ?thesis
  proof cases
    case all
    then show ?thesis by (simp add: plain_inv_def cs_def)
  next
    case brk
    have take: "map py_args (take n ?o) = take n cs" "length (take n ?o) = n"
      using brk(3) by (simp_all add: cs_def take_map)
    have "n \<le> length cs" using brk(3) by (simp add: cs_def)
    with brk take have "first_raise py cs n" "s = \<lparr>calls = take n cs, pyerr = py (take n cs)\<rparr>"
      by (simp_all add: plain_broken_def first_raise_take)
    with brk(1) show ?thesis by blast
  qed
qed

section \<open>Properties\<close>

text \<open>For the witnesses: an open capture object, two packets and a Python function that raises on its
  second call.\<close>

definition sample_object :: pcapobject where
  "sample_object = \<lparr>pcap = Some 1, net = 0x0a000000, netmask = 0xff000000, filt_counts = replicate 8 0,
     filt_profile = 0\<rparr>"

definition sample_packet :: "u8 list \<Rightarrow> packet" where
  "sample_packet d = (\<lparr>tv_sec = 1, tv_usec = 2, h_caplen = word_of_nat (length d), h_len = 60\<rparr>, d)"

definition raises_second :: "'c list \<Rightarrow> exn option" where
  "raises_second cs = (if length cs = 2 then Some (CallbackError 2) else None)"

lemma sample_simps [simp]:
  "pcap sample_object = Some 1" "captured (sample_packet [])" "captured (sample_packet [0, 0])"
  by (simp_all add: sample_object_def sample_packet_def captured_def)

text \<open>C32: \<open>dispatch()\<close> calls the function once per offered packet, in order and with the header and
  exactly the captured bytes, until a call raises; its result is the exception of the first call that
  raised; else the number of calls, when the count was filled or the source ended without an error;
  else the libpcap error after a read error. When another party broke the loop before the count was
  filled (\<open>fin = -2\<close>) and no call raised it returns NULL without an exception, the one case in which it
  breaks the calling convention.\<close>

theorem p_dispatch_outcome:
  assumes "dispatch_contract pd src fin brk" and "\<forall>x \<in> set src. captured x" and "pcap pp = Some h"
  shows "\<exists>made r. p_dispatch pd geterr py (Obj pp) (Inr cnt) = Some (made, r) \<and>
    (let cs = map py_args (offered cnt src) in
       (never_raises py cs \<and> made = cs \<and>
          r = (if 0 \<le> fin \<or> filled cnt src then returns (int (length cs))
               else if fin = - 2 then (None, None) else raises (PcapError (geterr h))) \<and>
          (conventional r \<longleftrightarrow> filled cnt src \<or> fin \<noteq> - 2)) \<or>
       (\<exists>n. first_raise py cs n \<and> made = take n cs \<and> r = (None, py (take n cs)) \<and> conventional r))"
  using plain_run [OF assms(2), of py cnt] assms(1,3)
  by (elim disjE exE conjE)
    (auto simp: p_dispatch_def dispatch_contract_def first_raise_def conventional_def Let_def)

theorem p_dispatch_outcome_witness:
  "(\<exists>made r. p_dispatch (reference_dispatch [sample_packet [], sample_packet [0, 0]] 0 2) (\<lambda>_. [])
      raises_second (Obj sample_object) (Inr (- 1)) = Some (made, r) \<and>
    (let cs = map py_args (offered (- 1) [sample_packet [], sample_packet [0, 0]]) in
       (never_raises raises_second cs \<and> made = cs \<and>
          r = (if (0 :: int) \<le> 0 \<or> filled (- 1) [sample_packet [], sample_packet [0, 0]]
               then returns (int (length cs))
               else if (0 :: int) = - 2 then (None, None) else raises (PcapError [])) \<and>
          (conventional r \<longleftrightarrow> filled (- 1) [sample_packet [], sample_packet [0, 0]] \<or> (0 :: int) \<noteq> - 2)) \<or>
       (\<exists>n. first_raise raises_second cs n \<and> made = take n cs \<and> r = (None, raises_second (take n cs)) \<and>
            conventional r))) \<and>
   (\<exists>made r. p_dispatch (reference_dispatch [sample_packet []] (- 1) 2) (\<lambda>_. ''read error'')
      (\<lambda>_. None) (Obj sample_object) (Inr (- 1)) = Some (made, r) \<and>
    (let cs = map py_args (offered (- 1) [sample_packet []]) in
       (never_raises (\<lambda>_. None) cs \<and> made = cs \<and>
          r = (if 0 \<le> (- 1 :: int) \<or> filled (- 1) [sample_packet []] then returns (int (length cs))
               else if (- 1 :: int) = - 2 then (None, None) else raises (PcapError ''read error'')) \<and>
          (conventional r \<longleftrightarrow> filled (- 1) [sample_packet []] \<or> (- 1 :: int) \<noteq> - 2)) \<or>
       (\<exists>n. first_raise (\<lambda>_. None) cs n \<and> made = take n cs \<and> r = (None, None) \<and> conventional r)))"
  by (rule conjI; rule p_dispatch_outcome [OF reference_dispatch_contract]) simp_all

text \<open>C31: when libpcap reports a break as -2, \<open>loop()\<close> likewise calls the function once per offered
  packet until a call raises; it returns None at the end of the capture or the count, the libpcap
  error after a read error, and the exception of the first call that raised.\<close>

theorem p_loop_outcome:
  assumes "loop_contract pl src fin (- 2)" and "fin \<in> {0, - 1}"
    and "\<forall>x \<in> set src. captured x" and "pcap pp = Some h"
  shows "\<exists>made r. p_loop pl geterr py (Obj pp) (Inr cnt) = Some (made, r) \<and> conventional r \<and>
    (let cs = map py_args (offered cnt src) in
       (never_raises py cs \<and> made = cs \<and>
          r = (if fin = 0 \<or> 0 < cnt \<and> nat cnt \<le> length src then returns () else raises (PcapError (geterr h)))) \<or>
       (\<exists>n. first_raise py cs n \<and> made = take n cs \<and> fst r = None \<and> snd r = py (take n cs)))"
  using plain_run [OF assms(3), of py cnt] assms(1,2,4)
  by (elim disjE exE conjE)
    (auto simp: p_loop_def loop_contract_def first_raise_def conventional_def Let_def)

theorem p_loop_outcome_witness:
  "\<exists>made r. p_loop (reference_loop [sample_packet [], sample_packet [0, 0]] (- 1) (- 2)) (\<lambda>_. ''read error'')
      (\<lambda>_. None) (Obj sample_object) (Inr 0) = Some (made, r) \<and> conventional r \<and>
    (let cs = map py_args (offered 0 [sample_packet [], sample_packet [0, 0]]) in
       (never_raises (\<lambda>_. None) cs \<and> made = cs \<and>
          r = (if (- 1 :: int) = 0 \<or> 0 < (0 :: int) \<and> nat 0 \<le> length [sample_packet [], sample_packet [0, 0]]
               then returns () else raises (PcapError ''read error''))) \<or>
       (\<exists>n. first_raise (\<lambda>_. None) cs n \<and> made = take n cs \<and> fst r = None \<and> snd r = None))"
  by (rule p_loop_outcome [OF reference_loop_contract]) simp_all

text \<open>C39: when the call that raises is the one for the last packet of the count, libpcap reports the
  count as exhausted (0), and \<open>loop()\<close>, which does not look at the error indicator, returns None with
  the exception still set: it breaks the calling convention.\<close>

theorem p_loop_error_on_last_packet:
  assumes "loop_contract pl src fin 0" and "\<forall>x \<in> set src. captured x" and "pcap pp = Some h"
    and "first_raise py (map py_args (offered cnt src)) n"
  shows "\<exists>made r. p_loop pl geterr py (Obj pp) (Inr cnt) = Some (made, r) \<and> fst r = Some () \<and>
    snd r = py (take n (map py_args (offered cnt src))) \<and> \<not> conventional r"
proof -
  let ?cs = "map py_args (offered cnt src)"
  have "\<not> never_raises py ?cs" using assms(4) by (auto simp: never_raises_def first_raise_def)
  moreover have "m = n" if "first_raise py ?cs m" for m
    using first_raise_unique that assms(4) by blast
  ultimately have "deliver (PythonCallBack py) \<lparr>calls = [], pyerr = None\<rparr> (offered cnt src) =
      Some (\<lparr>calls = take n ?cs, pyerr = py (take n ?cs)\<rparr>, True)"
    using plain_run [OF assms(2), of py cnt] by blast
  moreover have "py (take n ?cs) \<noteq> None" using assms(4) by (simp add: first_raise_def)
  ultimately show ?thesis using assms(1,3)
    by (simp add: p_loop_def loop_contract_def conventional_def)
qed

theorem p_loop_error_on_last_packet_witness:
  "\<exists>made r. p_loop (reference_loop [sample_packet [], sample_packet [0, 0]] 0 0) (\<lambda>_. [])
      raises_second (Obj sample_object) (Inr 2) = Some (made, r) \<and> fst r = Some () \<and>
    snd r = raises_second (take 2 (map py_args (offered 2 [sample_packet [], sample_packet [0, 0]]))) \<and>
    \<not> conventional r"
  by (rule p_loop_error_on_last_packet [OF reference_loop_contract])
    (simp_all add: first_raise_def never_raises_def raises_second_def offered_def)

end
