(* ===== verification/Filtered.thy ===== *)
theory Filtered
  imports Classify Loops
begin

text \<open>
  \<open>loop_filtered()\<close> and \<open>filtered_stats()\<close> of \<open>src/pcapobj.cc\<close>: the parsing of port sequences, the
  set-up of the classifier, the callback that classifies, counts and admits packets, and the two
  methods.

  The counters of the callback are those of the capture object (\<open>c.live = pp->filt_counts\<close>), so the
  object is updated with them after the loop.
\<close>

section \<open>Arguments\<close>

text \<open>A Python argument expected to be a sequence of ints: absent, None, a sequence with the result of
  converting each item to a C long, or something that is no sequence.\<close>

datatype seq_arg = Absent | PyNone | Items "(exn + int) list" | NotSequence

fun long_items :: "(exn + int) list \<Rightarrow> exn + u16 list" where
  "long_items [] = Inr []"
| "long_items (Inl ex # r) = Inl ex"
| "long_items (Inr v # r) =
     (case long_items r of Inl ex \<Rightarrow> Inl ex | Inr ps \<Rightarrow> Inr (word_of_int (v AND 0xffff) # ps))"

text \<open>\<open>seq_to_ports\<close>: the array (\<open>None\<close> is NULL), \<open>*outn\<close>, and the exception when \<open>*err\<close> is set.\<close>

definition seq_to_ports :: "(nat \<Rightarrow> bool) \<Rightarrow> seq_arg \<Rightarrow> u16 list option \<times> u32 \<times> exn option" where
  "seq_to_ports alloc sq =
     (case sq of
        Absent \<Rightarrow> (None, 0, None)
      | PyNone \<Rightarrow> (None, 0, None)
      | NotSequence \<Rightarrow> (None, 0, Some (TypeError ''ports must be a sequence of ints''))
      | Items its \<Rightarrow>
          if its = [] then (None, 0, None)
          else if \<not> alloc (length its * 2) then (None, 0, Some NoMemory)
          else (case long_items its of
                  Inl ex \<Rightarrow> (None, 0, Some ex)
                | Inr ps \<Rightarrow> (Some ps, word_of_nat (length its), None)))"

text \<open>The parsed arguments of \<open>loop_filtered\<close> (without the callback) and \<open>loop_to_buffer\<close> (without
  the buffer). \<open>a_addr_set\<close> is \<open>None\<close> when the argument is absent.\<close>

record loop_args =
  a_cnt :: int
  a_admit_mask :: cint
  a_addr_set :: "u8 list option"
  a_flow_cutoff :: cint
  a_dpi_ports :: seq_arg
  a_tls_ports :: seq_arg
  a_dns_port :: cint
  a_l2_offset :: cint
  a_profile :: cint

definition default_args :: "int \<Rightarrow> loop_args" where
  "default_args cant = \<lparr>a_cnt = cant, a_admit_mask = 7, a_addr_set = None, a_flow_cutoff = 0,
     a_dpi_ports = Absent, a_tls_ports = Absent, a_dns_port = 53, a_l2_offset = 14, a_profile = 0\<rparr>"

text \<open>The checks and the port parsing, up to the configuration of the classifier; \<open>pmsg\<close> is the
  message for a bad profile, which differs between the two methods.\<close>

definition classcfg_of :: "(nat \<Rightarrow> bool) \<Rightarrow> string \<Rightarrow> loop_args \<Rightarrow> exn + mt_classcfg" where
  "classcfg_of alloc pmsg a =
     (if sint (a_l2_offset a) < 0 \<or> 64 < sint (a_l2_offset a)
      then Inl (ValueError ''l2_offset out of range [0,64]'')
      else if a_profile a \<noteq> 0 \<and> a_profile a \<noteq> 1 then Inl (ValueError pmsg)
      else (case seq_to_ports alloc (a_dpi_ports a) of (dpi, nd, derr) \<Rightarrow>
            (case derr of Some ex \<Rightarrow> Inl ex
             | None \<Rightarrow>
            (case seq_to_ports alloc (a_tls_ports a) of (tls, nt, terr) \<Rightarrow>
            (case terr of Some ex \<Rightarrow> Inl ex
             | None \<Rightarrow>
               let dpi_given = a_dpi_ports a \<notin> {Absent, PyNone};
                   tls_given = a_tls_ports a \<notin> {Absent, PyNone} in
               Inr \<lparr>dns_port = ucast (a_dns_port a),
                 dpi_ports = (if dpi_given then (case dpi of None \<Rightarrow> [] | Some ps \<Rightarrow> ps) else MT_DPI_PORTS_DEFAULT),
                 ndpi = (if dpi_given then nd else 6),
                 tls_ports = (if tls_given then (case tls of None \<Rightarrow> [] | Some ps \<Rightarrow> ps) else MT_TLS_PORTS_DEFAULT),
                 ntls = (if tls_given then nt else 1),
                 l2_off = a_l2_offset a, profile = a_profile a\<rparr>)))))"

text \<open>\<open>(iocbuf && ioclen >= 4) ? ipset_build(iocbuf, ioclen) : NULL\<close>, the cutoff and the flow table.\<close>

definition address_set :: "endian \<Rightarrow> (nat \<Rightarrow> bool) \<Rightarrow> loop_args \<Rightarrow> mt_ipset option option" where
  "address_set e alloc a =
     (case a_addr_set a of None \<Rightarrow> Some None
      | Some d \<Rightarrow> if 4 \<le> length d then ipset_build e alloc d else Some None)"

definition cutoff_of :: "loop_args \<Rightarrow> u32" where
  "cutoff_of a = (if 0 < sint (a_flow_cutoff a) then a_flow_cutoff a else 0)"

definition table_of :: "(nat \<Rightarrow> bool) \<Rightarrow> loop_args \<Rightarrow> mt_flowtab option" where
  "table_of alloc a = (if cutoff_of a \<noteq> 0 then flowtab_build alloc 20 else None)"

section \<open>The callback\<close>

record FilteredContext =
  f_admit_mask :: cint
  f_ioc :: "mt_ipset option"
  f_flowtab :: "mt_flowtab option"
  f_flow_cutoff :: u32
  f_cfg :: mt_classcfg
  f_live :: "u64 list"
  f_calls :: "(pkthdr \<times> u8 list \<times> nat) list"
  f_pyerr :: "exn option"

text \<open>\<open>counters[i]++\<close>\<close>

definition bump :: "u64 list \<Rightarrow> nat \<Rightarrow> u64 list option" where
  "bump xs i = (if i < length xs then Some (xs[i := xs ! i + 1]) else None)"

text \<open>\<open>(admit_mask >> idx) & 1\<close> on a signed int\<close>

definition admits :: "cint \<Rightarrow> nat \<Rightarrow> bool" where
  "admits am idx \<longleftrightarrow> signed_drop_bit idx am AND 1 \<noteq> 0"

definition FilteredCallBack ::
  "endian \<Rightarrow> mt_pktinfo \<Rightarrow> ((pkthdr \<times> u8 list \<times> nat) list \<Rightarrow> exn option) \<Rightarrow>
     FilteredContext \<Rightarrow> packet \<Rightarrow> (FilteredContext \<times> bool) option" where
  "FilteredCallBack e pi0 py c = (\<lambda>(header, packetdata). do {
     (idx, ft) \<leftarrow> classify_dispatch e (f_cfg c) (f_ioc c) (f_flowtab c) (f_flow_cutoff c)
                    packetdata (h_caplen header) pi0;
     counted \<leftarrow> bump (f_live c) (2 + idx);
     if \<not> admits (f_admit_mask c) idx
     then do {
       live \<leftarrow> bump counted 1;
       Some (c\<lparr>f_flowtab := ft, f_live := live\<rparr>, False) }
     else do {
       live \<leftarrow> bump counted 0;
       let cls = profile_base (f_cfg c) + idx;
       let hdr = new_pcap_pkthdr header;
       data \<leftarrow> bytes_of packetdata (h_caplen header);
       let made = f_calls c @ [(hdr, data, cls)];
       let raised = py made;
       Some (c\<lparr>f_flowtab := ft, f_live := live, f_calls := made, f_pyerr := raised\<rparr>, raised \<noteq> None) } })"

section \<open>loop_filtered() and filtered_stats()\<close>

text \<open>\<open>Py_BuildValue("(KKKKKKKK)", ...)\<close> or \<open>("(KKKKK)", ...)\<close>\<close>

definition stats_tuple :: "cint \<Rightarrow> u64 list \<Rightarrow> u64 list option" where
  "stats_tuple prof s =
     (if length s < 8 then None
      else Some (if prof = 1 then [s ! 0, s ! 1, s ! 2, s ! 3, s ! 4, s ! 5, s ! 6, s ! 7]
                 else [s ! 0, s ! 1, s ! 2, s ! 3, s ! 4]))"

definition p_filtered_stats :: "pcapobject pyobj \<Rightarrow> u64 list cret option" where
  "p_filtered_stats self =
     (case self of OtherType \<Rightarrow> Some (raises (PcapError ''Not a pcap object''))
      | Obj pp \<Rightarrow> map_option returns (stats_tuple (filt_profile pp) (filt_counts pp)))"

text \<open>A run counts into the object itself: it starts by zeroing the counters, and \<open>c.live\<close> points to them.\<close>

definition reset_counters :: "pcapobject \<Rightarrow> cint \<Rightarrow> pcapobject" where
  "reset_counters pp prof = pp\<lparr>filt_counts := replicate 8 0, filt_profile := prof\<rparr>"

definition begin_filtered ::
  "(nat \<Rightarrow> bool) \<Rightarrow> pcapobject \<Rightarrow> loop_args \<Rightarrow> mt_classcfg \<Rightarrow> mt_ipset option \<Rightarrow> pcapobject \<times> FilteredContext" where
  "begin_filtered alloc pp a config S = (
     let pp' = reset_counters pp (a_profile a) in
     (pp', \<lparr>f_admit_mask = a_admit_mask a, f_ioc = S, f_flowtab = table_of alloc a,
            f_flow_cutoff = cutoff_of a, f_cfg = config, f_live = filt_counts pp',
            f_calls = [], f_pyerr = None\<rparr>))"

text \<open>\<open>loop_filtered\<close>: the object afterwards, the calls made, and the result. \<open>None\<close> is a fault or an
  address set whose construction never ends.\<close>

definition p_loop_filtered ::
  "endian \<Rightarrow> (nat \<Rightarrow> bool) \<Rightarrow> FilteredContext pcap_loop \<Rightarrow> (nat \<Rightarrow> string) \<Rightarrow> mt_pktinfo \<Rightarrow>
     ((pkthdr \<times> u8 list \<times> nat) list \<Rightarrow> exn option) \<Rightarrow> pcapobject pyobj \<Rightarrow> exn + loop_args \<Rightarrow>
     (pcapobject pyobj \<times> (pkthdr \<times> u8 list \<times> nat) list \<times> u64 list cret) option" where
  "p_loop_filtered e alloc pl geterr pi0 py self args =
     check_open self (\<lambda>ex. Some (self, [], raises ex)) (\<lambda>pp h.
       case args of Inl ex \<Rightarrow> Some (self, [], raises ex)
       | Inr a \<Rightarrow>
         (case classcfg_of alloc ''profile must be 0 (generic) or 1 (security)'' a of
            Inl ex \<Rightarrow> Some (self, [], raises ex)
          | Inr config \<Rightarrow> do {
              S \<leftarrow> address_set e alloc a;
              let (pp', c) = begin_filtered alloc pp a config S;
              (c', ret) \<leftarrow> pl (a_cnt a) (FilteredCallBack e pi0 py) c;
              let self' = Obj (pp'\<lparr>filt_counts := f_live c'\<rparr>);
              if f_pyerr c' \<noteq> None then Some (self', f_calls c', None, f_pyerr c')
              else if ret < 0
              then if ret \<noteq> - 2 then Some (self', f_calls c', raises (PcapError (geterr h)))
                   else Some (self', f_calls c', None, None)
              else do {
                tup \<leftarrow> stats_tuple (a_profile a) (f_live c');
                Some (self', f_calls c', returns tup) } }))"

text \<open>The same with the start of the run written out.\<close>

lemma begin_filtered_simps [simp]:
  "snd (begin_filtered alloc pp a config S) = \<lparr>f_admit_mask = a_admit_mask a, f_ioc = S,
     f_flowtab = table_of alloc a, f_flow_cutoff = cutoff_of a, f_cfg = config, f_live = replicate 8 0,
     f_calls = [], f_pyerr = None\<rparr>"
  "fst (begin_filtered alloc pp a config S) = reset_counters pp (a_profile a)"
  by (simp_all add: begin_filtered_def Let_def) (simp add: reset_counters_def)

lemma reset_counters_update:
  "(reset_counters pp prof)\<lparr>filt_counts := cs\<rparr> = pp\<lparr>filt_counts := cs, filt_profile := prof\<rparr>"
  by (cases pp) (simp add: reset_counters_def)

lemma p_loop_filtered_unfold:
  "p_loop_filtered e alloc pl geterr pi0 py self args =
     check_open self (\<lambda>ex. Some (self, [], raises ex)) (\<lambda>pp h.
       case args of Inl ex \<Rightarrow> Some (self, [], raises ex)
       | Inr a \<Rightarrow>
         (case classcfg_of alloc ''profile must be 0 (generic) or 1 (security)'' a of
            Inl ex \<Rightarrow> Some (self, [], raises ex)
          | Inr config \<Rightarrow> do {
              S \<leftarrow> address_set e alloc a;
              let c = \<lparr>f_admit_mask = a_admit_mask a, f_ioc = S, f_flowtab = table_of alloc a,
                       f_flow_cutoff = cutoff_of a, f_cfg = config, f_live = replicate 8 0,
                       f_calls = [], f_pyerr = None\<rparr>;
              (c', ret) \<leftarrow> pl (a_cnt a) (FilteredCallBack e pi0 py) c;
              let self' = Obj (pp\<lparr>filt_counts := f_live c', filt_profile := a_profile a\<rparr>);
              if f_pyerr c' \<noteq> None then Some (self', f_calls c', None, f_pyerr c')
              else if ret < 0
              then if ret \<noteq> - 2 then Some (self', f_calls c', raises (PcapError (geterr h)))
                   else Some (self', f_calls c', None, None)
              else do {
                tup \<leftarrow> stats_tuple (a_profile a) (f_live c');
                Some (self', f_calls c', returns tup) } }))"
  by (simp add: p_loop_filtered_def case_prod_beta reset_counters_update cong: sum.case_cong)

section \<open>What a run counts\<close>

lemma admits_bit: "idx < 32 \<Longrightarrow> admits am idx \<longleftrightarrow> bit am idx"
proof -
  assume idx: "idx < 32"
  have "bit (signed_drop_bit idx am) 0 = bit am idx"
    using idx by (auto simp: bit_signed_drop_bit_iff)
  then show ?thesis by (simp add: admits_def and_one_eq odd_iff_mod_2_eq_one bit_0)
qed

text \<open>The classes of a sequence of packets, and the flow table afterwards, by the decision tables.\<close>

fun class_trace ::
  "endian \<Rightarrow> mt_classcfg \<Rightarrow> u32 set \<Rightarrow> u32 \<Rightarrow> mt_flowtab option \<Rightarrow> packet list
     \<Rightarrow> nat list \<times> mt_flowtab option" where
  "class_trace e config A cutoff ft [] = ([], ft)"
| "class_trace e config A cutoff ft (x # xs) =
     (let (c, ft') = frame_class e config A ft cutoff (snd x) (unat (h_caplen (fst x)));
          (cs, ft'') = class_trace e config A cutoff ft' xs in (c # cs, ft''))"

lemma class_trace_snoc:
  "class_trace e config A cutoff ft (xs @ [x]) =
     (let (cs, ft') = class_trace e config A cutoff ft xs;
          (c, ft'') = frame_class e config A ft' cutoff (snd x) (unat (h_caplen (fst x)))
      in (cs @ [c], ft''))"
  by (induction xs arbitrary: ft) (simp_all split: prod.split)

lemma class_trace_ok:
  assumes "wf_table ft"
  shows "wf_table (snd (class_trace e config A cutoff ft xs)) \<and>
    length (fst (class_trace e config A cutoff ft xs)) = length xs \<and>
    (\<forall>c \<in> set (fst (class_trace e config A cutoff ft xs)). c < class_count config)"
  using assms
proof (induction xs arbitrary: ft)
  case (Cons x xs)
  obtain c ft' where c: "frame_class e config A ft cutoff (snd x) (unat (h_caplen (fst x))) = (c, ft')"
    by fastforce
  then have "c < class_count config" "wf_table ft'"
    using frame_class_ok [OF Cons.prems, of e config A cutoff "snd x" "unat (h_caplen (fst x))"] by simp_all
  with Cons.IH [of ft'] c show ?case by (auto split: prod.split)
qed simp

text \<open>The eight counters after packets of classes \<open>cs\<close>: admitted, dropped, and one per class.\<close>

definition tally :: "cint \<Rightarrow> nat list \<Rightarrow> u64 list" where
  "tally am cs = word_of_nat (length (filter (admits am) cs))
     # word_of_nat (length (filter (\<lambda>c. \<not> admits am c) cs))
     # map (\<lambda>i. word_of_nat (count_list cs i)) [0..<6]"

lemma length_tally [simp]: "length (tally am cs) = 8"
  by (simp add: tally_def)

lemma tally_Nil: "tally am [] = replicate 8 0"
  by (simp add: tally_def upt_rec numeral_eq_Suc)

lemma tally_snoc:
  assumes "c < 6"
  shows "do { xs \<leftarrow> bump (tally am cs) (2 + c); bump xs (if admits am c then 0 else 1) } =
    Some (tally am (cs @ [c]))"
proof -
  have "c = 0 \<or> c = 1 \<or> c = 2 \<or> c = 3 \<or> c = 4 \<or> c = 5" using assms by arith
  then show ?thesis by (elim disjE) (simp_all add: bump_def tally_def upt_rec)
qed

text \<open>The callback invocations for packets of classes \<open>cs\<close>.\<close>

definition admitted_calls ::
  "cint \<Rightarrow> nat \<Rightarrow> packet list \<Rightarrow> nat list \<Rightarrow> (pkthdr \<times> u8 list \<times> nat) list" where
  "admitted_calls am base xs cs =
     map (\<lambda>(x, c). (fst (py_args x), snd (py_args x), base + c)) (filter (\<lambda>(x, c). admits am c) (zip xs cs))"

lemma admitted_calls_snoc:
  "length cs = length xs \<Longrightarrow>
     admitted_calls am base (xs @ [x]) (cs @ [c]) = admitted_calls am base xs cs @
       (if admits am c then [(fst (py_args x), snd (py_args x), base + c)] else [])"
  by (simp add: admitted_calls_def)

section \<open>The callback keeps its books\<close>

definition filt_start :: "FilteredContext \<Rightarrow> bool" where
  "filt_start c \<longleftrightarrow> wf_cfg (f_cfg c) \<and> wf_set (f_ioc c) \<and> wf_table (f_flowtab c) \<and>
     f_live c = replicate 8 0 \<and> f_calls c = [] \<and> f_pyerr c = None"

definition filt_trace :: "endian \<Rightarrow> FilteredContext \<Rightarrow> packet list \<Rightarrow> nat list \<times> mt_flowtab option" where
  "filt_trace e c xs = class_trace e (f_cfg c) (members_of (f_ioc c)) (f_flow_cutoff c) (f_flowtab c) xs"

text \<open>The context after the packets \<open>xs\<close>, and error indicator \<open>err\<close>.\<close>

definition filt_state :: "endian \<Rightarrow> FilteredContext \<Rightarrow> packet list \<Rightarrow> exn option \<Rightarrow> FilteredContext" where
  "filt_state e c xs err = (let (cs, ft) = filt_trace e c xs in
     c\<lparr>f_flowtab := ft, f_live := tally (f_admit_mask c) cs,
       f_calls := admitted_calls (f_admit_mask c) (profile_base (f_cfg c)) xs cs, f_pyerr := err\<rparr>)"

definition filt_inv ::
  "endian \<Rightarrow> ((pkthdr \<times> u8 list \<times> nat) list \<Rightarrow> exn option) \<Rightarrow> FilteredContext \<Rightarrow>
     packet list \<Rightarrow> FilteredContext \<Rightarrow> bool" where
  "filt_inv e py c0 seen c \<longleftrightarrow>
     filt_start c0 \<and> c = filt_state e c0 seen None \<and> never_raises py (f_calls c)"

definition filt_broken ::
  "endian \<Rightarrow> ((pkthdr \<times> u8 list \<times> nat) list \<Rightarrow> exn option) \<Rightarrow> FilteredContext \<Rightarrow>
     packet list \<Rightarrow> FilteredContext \<Rightarrow> bool" where
  "filt_broken e py c0 seen c \<longleftrightarrow>
     filt_start c0 \<and> c = filt_state e c0 seen (py (f_calls c)) \<and>
     first_raise py (f_calls c) (length (f_calls c)) \<and>
     length (f_calls c) = Suc (length (f_calls (filt_state e c0 (butlast seen) None)))"

lemma FilteredCallBack_step:
  fixes e :: endian and seen :: "packet list" and py :: "(pkthdr \<times> u8 list \<times> nat) list \<Rightarrow> exn option"
  assumes st: "filt_start c0" and cap: "captured x"
  defines "err \<equiv> (if length (f_calls (filt_state e c0 (seen @ [x]) None)) = length (f_calls (filt_state e c0 seen None))
                 then None else py (f_calls (filt_state e c0 (seen @ [x]) None)))"
  shows "FilteredCallBack e pi0 py (filt_state e c0 seen None) x =
    Some (filt_state e c0 (seen @ [x]) err, err \<noteq> None)"
proof -
  obtain h d where x: "x = (h, d)" by fastforce
  obtain cs ft where cs: "filt_trace e c0 seen = (cs, ft)" by fastforce
  have ok: "wf_table ft" "length cs = length seen"
    using class_trace_ok [of "f_flowtab c0" e "f_cfg c0" "members_of (f_ioc c0)" "f_flow_cutoff c0" seen]
      st cs by (simp_all add: filt_start_def filt_trace_def)
  obtain c ft' where c: "frame_class e (f_cfg c0) (members_of (f_ioc c0)) ft (f_flow_cutoff c0) d (unat (h_caplen h))
      = (c, ft')" by fastforce
  have cls: "classify_dispatch e (f_cfg c0) (f_ioc c0) ft (f_flow_cutoff c0) d (h_caplen h) pi0 = Some (c, ft')"
    using classify_dispatch_eq [of "f_cfg c0" "h_caplen h" d "f_ioc c0" ft e "f_flow_cutoff c0" pi0] st cap ok(1) x c
    by (simp add: filt_start_def captured_def)
  have c6: "c < 6"
    using frame_class_ok [OF ok(1), of e "f_cfg c0" "members_of (f_ioc c0)" "f_flow_cutoff c0" d "unat (h_caplen h)"] c
    by (simp add: class_count_def split: if_splits)
  have cs': "filt_trace e c0 (seen @ [x]) = (cs @ [c], ft')"
    using cs c by (simp add: filt_trace_def class_trace_snoc x)
  let ?am = "f_admit_mask c0" and ?base = "profile_base (f_cfg c0)"
  obtain xs where xs: "bump (tally ?am cs) (2 + c) = Some xs"
    "bump xs (if admits ?am c then 0 else 1) = Some (tally ?am (cs @ [c]))"
    using tally_snoc [OF c6, of ?am cs] by (auto simp: bind_eq_Some_conv)
  note calls = admitted_calls_snoc [OF ok(2), of ?am ?base x c]
  show ?thesis
  proof (cases "admits ?am c")
    case True
    then show ?thesis
      using cls xs cap calls
      by (simp add: FilteredCallBack_def x filt_state_def cs cs' [unfolded x] err_def Let_def py_args_def)
  next
    case False
    then show ?thesis
      using cls xs calls
      by (simp add: FilteredCallBack_def x filt_state_def cs cs' [unfolded x] err_def Let_def)
  qed
qed

lemma filt_state_err: "f_calls (filt_state e c0 seen err) = f_calls (filt_state e c0 seen None)"
  by (simp add: filt_state_def split: prod.split)

lemma filt_calls_snoc:
  assumes "filt_start c0"
  shows "f_calls (filt_state e c0 (seen @ [x]) err) = f_calls (filt_state e c0 seen err) \<or>
    (\<exists>k. f_calls (filt_state e c0 (seen @ [x]) err) = f_calls (filt_state e c0 seen err) @ [k])"
proof -
  have "length (fst (filt_trace e c0 seen)) = length seen"
    using class_trace_ok [of "f_flowtab c0"] assms by (simp add: filt_start_def filt_trace_def)
  then show ?thesis
    by (auto simp: filt_state_def filt_trace_def class_trace_snoc admitted_calls_snoc split: prod.splits)
qed

interpretation filt: packet_callback "FilteredCallBack e pi0 py" "filt_inv e py c0" "filt_broken e py c0" captured
proof unfold_locales
  fix seen c x assume inv: "filt_inv e py c0 seen c" and cap: "captured x"
  then have st: "filt_start c0" and c: "c = filt_state e c0 seen None" and nr: "never_raises py (f_calls c)"
    unfolding filt_inv_def by blast+
  note step = FilteredCallBack_step [OF st cap, of e pi0 py seen, folded c]
  let ?c' = "filt_state e c0 (seen @ [x])"
  consider (same) "f_calls (?c' None) = f_calls c" | (more) k where "f_calls (?c' None) = f_calls c @ [k]"
    using filt_calls_snoc [OF st, of e seen x None] unfolding c by blast
  then show "\<exists>s' brk. FilteredCallBack e pi0 py c x = Some (s', brk) \<and>
      (if brk then filt_broken e py c0 else filt_inv e py c0) (seen @ [x]) s'"
  proof cases
    case same
    then show ?thesis
      using step st nr by (intro exI [of _ "?c' None"] exI [of _ False]) (simp add: filt_inv_def)
  next
    case more
    then have "FilteredCallBack e pi0 py c x =
        Some (?c' (py (f_calls c @ [k])), py (f_calls c @ [k]) \<noteq> None)" using step by simp
    then show ?thesis
      using st nr more filt_state_err [of e c0 "seen @ [x]"] first_raise_snoc [of py "f_calls c" k] c
      by (auto simp: filt_inv_def filt_broken_def)
  qed
qed

section \<open>From the arguments to the run\<close>

lemma seq_to_ports_bound:
  "seq_to_ports alloc sq = (ps, n, None) \<Longrightarrow> unat n \<le> length (case ps of None \<Rightarrow> [] | Some p \<Rightarrow> p)"
proof -
  have len: "long_items its = Inr ps \<Longrightarrow> length ps = length its" for its ps
    by (induction its arbitrary: ps rule: long_items.induct) (auto split: sum.splits)
  assume "seq_to_ports alloc sq = (ps, n, None)"
  then show ?thesis
    by (auto simp: seq_to_ports_def unat_of_nat dest!: len split: seq_arg.splits if_splits sum.splits)
qed

text \<open>The configuration, once the checks are passed.\<close>

lemma classcfg_of_Inr:
  assumes "classcfg_of alloc pmsg a = Inr config"
  obtains dpi nd tls nt where "seq_to_ports alloc (a_dpi_ports a) = (dpi, nd, None)"
    "seq_to_ports alloc (a_tls_ports a) = (tls, nt, None)"
    "0 \<le> sint (a_l2_offset a)" "sint (a_l2_offset a) \<le> 64" "a_profile a = 0 \<or> a_profile a = 1"
    "dns_port config = ucast (a_dns_port a)" "l2_off config = a_l2_offset a" "profile config = a_profile a"
    "if a_dpi_ports a \<in> {Absent, PyNone}
     then dpi_ports config = MT_DPI_PORTS_DEFAULT \<and> ndpi config = 6
     else dpi_ports config = (case dpi of None \<Rightarrow> [] | Some ps \<Rightarrow> ps) \<and> ndpi config = nd"
    "if a_tls_ports a \<in> {Absent, PyNone}
     then tls_ports config = MT_TLS_PORTS_DEFAULT \<and> ntls config = 1
     else tls_ports config = (case tls of None \<Rightarrow> [] | Some ps \<Rightarrow> ps) \<and> ntls config = nt"
proof -
  obtain dpi nd derr where dpi: "seq_to_ports alloc (a_dpi_ports a) = (dpi, nd, derr)"
    by (metis prod_cases3)
  obtain tls nt terr where tls: "seq_to_ports alloc (a_tls_ports a) = (tls, nt, terr)"
    by (metis prod_cases3)
  have chk: "\<not> (sint (a_l2_offset a) < 0 \<or> 64 < sint (a_l2_offset a))"
    "\<not> (a_profile a \<noteq> 0 \<and> a_profile a \<noteq> 1)" "derr = None" "terr = None"
    using assms dpi tls by (auto simp: classcfg_of_def split: if_splits option.splits)
  let ?config = "\<lparr>dns_port = ucast (a_dns_port a),
       dpi_ports = (if a_dpi_ports a \<notin> {Absent, PyNone} then (case dpi of None \<Rightarrow> [] | Some ps \<Rightarrow> ps) else MT_DPI_PORTS_DEFAULT),
       ndpi = (if a_dpi_ports a \<notin> {Absent, PyNone} then nd else 6),
       tls_ports = (if a_tls_ports a \<notin> {Absent, PyNone} then (case tls of None \<Rightarrow> [] | Some ps \<Rightarrow> ps) else MT_TLS_PORTS_DEFAULT),
       ntls = (if a_tls_ports a \<notin> {Absent, PyNone} then nt else 1),
       l2_off = a_l2_offset a, profile = a_profile a\<rparr>"
  have "classcfg_of alloc pmsg a = Inr ?config"
    unfolding classcfg_of_def if_not_P [OF chk(1)] if_not_P [OF chk(2)] dpi tls chk(3,4)
    by (simp only: prod.case option.case Let_def)
  then have "config = ?config" using assms by (simp only: sum.inject)
  moreover have "0 \<le> sint (a_l2_offset a)" "sint (a_l2_offset a) \<le> 64" using chk(1) by simp_all
  ultimately show thesis using chk(2-4) dpi tls by (intro that [of dpi nd tls nt]) simp_all
qed

lemma classcfg_of_ok:
  assumes "classcfg_of alloc pmsg a = Inr config"
  shows "wf_cfg config \<and> profile config = a_profile a \<and> l2_off config = a_l2_offset a"
  using assms
proof (rule classcfg_of_Inr)
  fix dpi nd tls nt
  assume p: "seq_to_ports alloc (a_dpi_ports a) = (dpi, nd, None)"
      "seq_to_ports alloc (a_tls_ports a) = (tls, nt, None)"
    and l2: "0 \<le> sint (a_l2_offset a)" "sint (a_l2_offset a) \<le> 64"
    and f: "l2_off config = a_l2_offset a" "profile config = a_profile a"
    and dpi: "if a_dpi_ports a \<in> {Absent, PyNone}
     then dpi_ports config = MT_DPI_PORTS_DEFAULT \<and> ndpi config = 6
     else dpi_ports config = (case dpi of None \<Rightarrow> [] | Some ps \<Rightarrow> ps) \<and> ndpi config = nd"
    and tls: "if a_tls_ports a \<in> {Absent, PyNone}
     then tls_ports config = MT_TLS_PORTS_DEFAULT \<and> ntls config = 1
     else tls_ports config = (case tls of None \<Rightarrow> [] | Some ps \<Rightarrow> ps) \<and> ntls config = nt"
  have "uint (a_l2_offset a) \<le> 64" using l2 sint_nonneg [of "a_l2_offset a"] by linarith
  moreover have "uint (a_l2_offset a) = int (unat (a_l2_offset a))" by simp
  ultimately have "unat (a_l2_offset a) \<le> 64" by linarith
  moreover have "unat (ndpi config) \<le> length (dpi_ports config)"
    using dpi seq_to_ports_bound [OF p(1)]
    by (cases "a_dpi_ports a \<in> {Absent, PyNone}") (simp_all add: MT_DPI_PORTS_DEFAULT_def)
  moreover have "unat (ntls config) \<le> length (tls_ports config)"
    using tls seq_to_ports_bound [OF p(2)]
    by (cases "a_tls_ports a \<in> {Absent, PyNone}") (simp_all add: MT_TLS_PORTS_DEFAULT_def)
  ultimately show ?thesis using f by (simp add: wf_cfg_def)
qed

text \<open>The watched addresses of a call, and the set built for them.\<close>

definition watched :: "endian \<Rightarrow> loop_args \<Rightarrow> u32 set" where
  "watched e a = (case a_addr_set a of None \<Rightarrow> {} | Some d \<Rightarrow> set (packed_addrs e d) - {0})"

lemma address_set_ok:
  assumes "\<forall>k. alloc k" and "\<forall>d. a_addr_set a = Some d \<longrightarrow> length d < 2 ^ 32"
  obtains S where "address_set e alloc a = Some S" "wf_set S" "members_of S = watched e a"
proof (cases "a_addr_set a")
  case None
  then show ?thesis by (intro that [of None]) (simp_all add: address_set_def watched_def)
next
  case (Some d)
  show ?thesis
  proof (cases "4 \<le> length d")
    case True
    have "length d < 2 ^ 32" using assms(2) Some by simp
    from ipset_build_spec [OF this assms(1), of e] obtain s where s: "ipset_build e alloc d = Some (Some s)"
      "wf_ipset s" "\<And>ip. ipset_has (Some s) ip = Some (ip \<noteq> 0 \<and> ip \<in> set (packed_addrs e d))" by blast
    have "members (slots s) = set (packed_addrs e d) - {0}"
      using s(3) ipset_has_ok [OF s(2)] by (auto simp: members_def)
    with s Some True show ?thesis
      by (intro that [of "Some s"]) (simp_all add: address_set_def wf_set_def members_of_def watched_def)
  next
    case False
    then have "packed_addrs e d = []" by (simp flip: length_0_conv)
    with Some False show ?thesis
      by (intro that [of None]) (simp_all add: address_set_def watched_def)
  qed
qed

lemma table_of_ok: "wf_table (table_of alloc a)"
proof (cases "table_of alloc a")
  case (Some f)
  then have "flowtab_build alloc 20 = Some f" by (simp add: table_of_def split: if_splits)
  from flowtab_build_ok [OF this] Some show ?thesis by (simp add: wf_table_def)
qed simp

text \<open>The classes that a call with arguments \<open>a\<close> and configuration \<open>config\<close> gives to packets.\<close>

definition run_classes ::
  "endian \<Rightarrow> (nat \<Rightarrow> bool) \<Rightarrow> loop_args \<Rightarrow> mt_classcfg \<Rightarrow> packet list \<Rightarrow> nat list" where
  "run_classes e alloc a config xs =
     fst (class_trace e config (watched e a) (cutoff_of a) (table_of alloc a) xs)"

lemma class_trace_take:
  "fst (class_trace e config A cutoff ft (take n xs)) = take n (fst (class_trace e config A cutoff ft xs))"
proof (induction xs arbitrary: ft n)
  case (Cons x xs)
  then show ?case by (cases n) (auto split: prod.split simp: prod_eq_iff)
qed simp

lemma run_classes_take: "run_classes e alloc a config (take n xs) = take n (run_classes e alloc a config xs)"
  by (simp add: run_classes_def class_trace_take)

lemma run_classes_ok:
  "length (run_classes e alloc a config xs) = length xs"
  "c \<in> set (run_classes e alloc a config xs) \<Longrightarrow> c < class_count config"
  using class_trace_ok [OF table_of_ok] by (simp_all add: run_classes_def)

text \<open>The calls for a prefix of the packets are a prefix of the calls.\<close>

lemma filter_take: "\<exists>m. filter P (take n xs) = take m (filter P xs)"
proof -
  have "filter P xs = filter P (take n xs) @ filter P (drop n xs)"
    by (metis append_take_drop_id filter_append)
  then have "filter P (take n xs) = take (length (filter P (take n xs))) (filter P xs)" by simp
  then show ?thesis by blast
qed

lemma admitted_calls_take:
  "\<exists>m. admitted_calls am base (take n xs) (take n cs) = take m (admitted_calls am base xs cs)"
proof -
  have "zip (take n xs) (take n cs) = take n (zip xs cs)" by (simp add: take_zip)
  then show ?thesis
    using filter_take [of "\<lambda>(x, c). admits am c" n "zip xs cs"]
    by (auto simp: admitted_calls_def take_map)
qed

lemma never_raises_prefix:
  assumes "never_raises py cs" and "made = take m cs"
  shows "\<not> first_raise py made (length made)"
  using never_raises_take [OF assms(1), of m] assms(2)
  by (auto simp: first_raise_def never_raises_def)

lemma stats_tuple_tally:
  assumes "prof = 0 \<or> prof = 1" and "profile config = prof"
  shows "stats_tuple prof (tally am cs) = Some (take (2 + class_count config) (tally am cs))"
  using assms by (auto simp: stats_tuple_def class_count_def tally_def upt_rec)

definition filtered_msg :: string where
  "filtered_msg = ''profile must be 0 (generic) or 1 (security)''"

text \<open>The object and the calls after the first \<open>n\<close> offered packets.\<close>

definition counted_object ::
  "endian \<Rightarrow> (nat \<Rightarrow> bool) \<Rightarrow> pcapobject \<Rightarrow> loop_args \<Rightarrow> mt_classcfg \<Rightarrow> packet list \<Rightarrow> pcapobject pyobj" where
  "counted_object e alloc pp a config xs =
     Obj (pp\<lparr>filt_counts := tally (a_admit_mask a) (run_classes e alloc a config xs),
             filt_profile := a_profile a\<rparr>)"

definition run_calls ::
  "endian \<Rightarrow> (nat \<Rightarrow> bool) \<Rightarrow> loop_args \<Rightarrow> mt_classcfg \<Rightarrow> packet list
     \<Rightarrow> (pkthdr \<times> u8 list \<times> nat) list" where
  "run_calls e alloc a config xs =
     admitted_calls (a_admit_mask a) (profile_base config) xs (run_classes e alloc a config xs)"

lemma run_calls_prefix: "\<exists>m. run_calls e alloc a config (take n xs) = take m (run_calls e alloc a config xs)"
  unfolding run_calls_def run_classes_take by (rule admitted_calls_take)

text \<open>How the source's end is reported.\<close>

definition loop_end :: "int \<Rightarrow> packet list \<Rightarrow> int \<Rightarrow> int" where
  "loop_end cant src fin = (if 0 < cant \<and> nat cant \<le> length src then 0 else fin)"

text \<open>The context a call starts with, and the packets it takes from the source.\<close>

definition filtered_start :: "endian \<Rightarrow> (nat \<Rightarrow> bool) \<Rightarrow> loop_args \<Rightarrow> mt_classcfg \<Rightarrow> FilteredContext" where
  "filtered_start e alloc a config =
     \<lparr>f_admit_mask = a_admit_mask a, f_ioc = (case address_set e alloc a of None \<Rightarrow> None | Some S \<Rightarrow> S),
      f_flowtab = table_of alloc a, f_flow_cutoff = cutoff_of a, f_cfg = config, f_live = replicate 8 0,
      f_calls = [], f_pyerr = None\<rparr>"

lemma filtered_run_consumed:
  assumes pl: "loop_contract pl src fin brk" and cap: "\<forall>x \<in> set src. captured x"
    and open_pp: "pcap pp = Some h" and cfg: "classcfg_of alloc filtered_msg a = Inr config"
    and mem: "\<forall>k. alloc k" "\<forall>d. a_addr_set a = Some d \<longrightarrow> length d < 2 ^ 32"
  defines "xs \<equiv> offered (a_cnt a) src"
  shows "(never_raises py (run_calls e alloc a config xs) \<and>
      consumed (FilteredCallBack e pi0 py) (filtered_start e alloc a config) xs = length xs \<and>
      p_loop_filtered e alloc pl geterr pi0 py (Obj pp) (Inr a) =
        Some (counted_object e alloc pp a config xs, run_calls e alloc a config xs,
          if 0 \<le> loop_end (a_cnt a) src fin
          then returns (take (2 + class_count config) (tally (a_admit_mask a) (run_classes e alloc a config xs)))
          else if loop_end (a_cnt a) src fin = - 2 then (None, None)
          else raises (PcapError (geterr h)))) \<or>
    (\<exists>n \<le> length xs.
      let made = run_calls e alloc a config (take n xs) in
      n = consumed (FilteredCallBack e pi0 py) (filtered_start e alloc a config) xs \<and>
      first_raise py made (length made) \<and>
      length made = Suc (length (run_calls e alloc a config (take (n - 1) xs))) \<and>
      p_loop_filtered e alloc pl geterr pi0 py (Obj pp) (Inr a) =
        Some (counted_object e alloc pp a config (take n xs), made, None, py made))"
proof -
  obtain S where S: "address_set e alloc a = Some S" "wf_set S" "members_of S = watched e a"
    using address_set_ok [OF mem] by blast
  have start: "filtered_start e alloc a config = \<lparr>f_admit_mask = a_admit_mask a, f_ioc = S, f_flowtab = table_of alloc a,
     f_flow_cutoff = cutoff_of a, f_cfg = config, f_live = replicate 8 0, f_calls = [], f_pyerr = None\<rparr>"
    using S(1) by (simp add: filtered_start_def)
  note cfg_ok = classcfg_of_ok [OF cfg]
  have prof: "a_profile a = 0 \<or> a_profile a = 1" using cfg by (rule classcfg_of_Inr)
  define c0 where "c0 = \<lparr>f_admit_mask = a_admit_mask a, f_ioc = S, f_flowtab = table_of alloc a,
     f_flow_cutoff = cutoff_of a, f_cfg = config, f_live = replicate 8 0, f_calls = [], f_pyerr = None\<rparr>"
  have st: "filt_start c0" using cfg_ok S(2) table_of_ok by (simp add: filt_start_def c0_def)
  have inv0: "filt_inv e py c0 [] c0"
    using st by (simp add: filt_inv_def filt_state_def filt_trace_def c0_def tally_Nil admitted_calls_def)
  have state: "f_calls (filt_state e c0 ys err) = run_calls e alloc a config ys"
    "f_live (filt_state e c0 ys err) = tally (a_admit_mask a) (run_classes e alloc a config ys)"
    "f_pyerr (filt_state e c0 ys err) = err" for ys err
    by (simp_all add: filt_state_def filt_trace_def run_calls_def run_classes_def c0_def S(3) split: prod.split)
  have loop: "p_loop_filtered e alloc pl geterr pi0 py (Obj pp) (Inr a) = do {
      (c', ret) \<leftarrow> pl (a_cnt a) (FilteredCallBack e pi0 py) c0;
      let self' = Obj (pp\<lparr>filt_counts := f_live c', filt_profile := a_profile a\<rparr>);
      if f_pyerr c' \<noteq> None then Some (self', f_calls c', None, f_pyerr c')
      else if ret < 0
      then if ret \<noteq> - 2 then Some (self', f_calls c', raises (PcapError (geterr h)))
           else Some (self', f_calls c', None, None)
      else do { tup \<leftarrow> stats_tuple (a_profile a) (f_live c'); Some (self', f_calls c', returns tup) } }"
    using open_pp cfg S(1) by (simp add: p_loop_filtered_unfold filtered_msg_def c0_def Let_def)
  note tup = stats_tuple_tally [OF prof, of config]
  from filt.run [OF inv0 cap, of pi0 "a_cnt a", folded xs_def] consider
    (all) s where "deliver (FilteredCallBack e pi0 py) c0 xs = Some (s, False)" "filt_inv e py c0 xs s"
  | (brk) s n where "deliver (FilteredCallBack e pi0 py) c0 xs = Some (s, True)" "n \<le> length xs"
      "n = consumed (FilteredCallBack e pi0 py) c0 xs"
      "filt_broken e py c0 (take n xs) s" by blast
  then show ?thesis
  proof cases
    case all
    then have s: "s = filt_state e c0 xs None" "never_raises py (run_calls e alloc a config xs)"
      using all(2) state unfolding filt_inv_def by metis+
    have "pl (a_cnt a) (FilteredCallBack e pi0 py) c0 = Some (s, loop_end (a_cnt a) src fin)"
      using pl all(1) by (simp add: loop_contract_def loop_end_def xs_def)
    then show ?thesis
      using s(2) cfg_ok deliver_all_consumed [OF all(1)] by (simp add: start [folded c0_def] loop s(1) state tup counted_object_def not_less)
  next
    case brk
    define made where "made = run_calls e alloc a config (take n xs)"
    have s: "s = filt_state e c0 (take n xs) (py made)" "first_raise py made (length made)"
      using brk(4) state unfolding filt_broken_def made_def by metis+
    have "butlast (take n xs) = take (n - 1) xs" using brk(2) by (simp add: butlast_take)
    then have last: "length made = Suc (length (run_calls e alloc a config (take (n - 1) xs)))"
      using brk(4) state unfolding filt_broken_def made_def by metis
    have "pl (a_cnt a) (FilteredCallBack e pi0 py) c0 = Some (s, brk)"
      using pl brk(1) by (simp add: loop_contract_def xs_def)
    moreover have "py made \<noteq> None" using s(2) by (simp add: first_raise_def)
    ultimately have "p_loop_filtered e alloc pl geterr pi0 py (Obj pp) (Inr a) =
        Some (counted_object e alloc pp a config (take n xs), made, None, py made)"
      by (simp add: loop s(1) state counted_object_def made_def)
    with s(2) last brk(2,3) show ?thesis unfolding made_def Let_def start [folded c0_def] by blast
  qed
qed

lemma filtered_run:
  assumes pl: "loop_contract pl src fin brk" and cap: "\<forall>x \<in> set src. captured x"
    and open_pp: "pcap pp = Some h" and cfg: "classcfg_of alloc filtered_msg a = Inr config"
    and mem: "\<forall>k. alloc k" "\<forall>d. a_addr_set a = Some d \<longrightarrow> length d < 2 ^ 32"
  defines "xs \<equiv> offered (a_cnt a) src"
  shows "(never_raises py (run_calls e alloc a config xs) \<and>
      p_loop_filtered e alloc pl geterr pi0 py (Obj pp) (Inr a) =
        Some (counted_object e alloc pp a config xs, run_calls e alloc a config xs,
          if 0 \<le> loop_end (a_cnt a) src fin
          then returns (take (2 + class_count config) (tally (a_admit_mask a) (run_classes e alloc a config xs)))
          else if loop_end (a_cnt a) src fin = - 2 then (None, None)
          else raises (PcapError (geterr h)))) \<or>
    (\<exists>n \<le> length xs.
      let made = run_calls e alloc a config (take n xs) in
      first_raise py made (length made) \<and>
      length made = Suc (length (run_calls e alloc a config (take (n - 1) xs))) \<and>
      p_loop_filtered e alloc pl geterr pi0 py (Obj pp) (Inr a) =
        Some (counted_object e alloc pp a config (take n xs), made, None, py made))"
  using filtered_run_consumed [OF assms(1-6), where py = py and e = e and geterr = geterr and ?pi0.0 = pi0] unfolding xs_def Let_def by blast

section \<open>Bookkeeping facts\<close>

lemma length_filter_split: "length (filter P cs) + length (filter (\<lambda>c. \<not> P c) cs) = length cs"
  by (induction cs) simp_all

lemma sum_class_counts:
  assumes "\<forall>c \<in> set cs. c < k"
  shows "(\<Sum>i\<leftarrow>[0..<k]. count_list cs i) = length cs"
proof -
  have "set cs \<subseteq> {0..<k}" using assms by auto
  then show ?thesis
    by (simp add: interv_sum_list_conv_sum_set_nat sum_count_set)
qed

text \<open>Summing counters as 64-bit words.\<close>

lemma sum_word_counts:
  "(\<Sum>i\<leftarrow>is. word_of_nat (f i)) = (word_of_nat (\<Sum>i\<leftarrow>is. f i) :: u64)" for "is" :: "nat list"
  by (induction "is") simp_all

lemma tally_balance:
  assumes "\<forall>c \<in> set cs. c < 6"
  shows "tally am cs ! 0 + tally am cs ! 1 = sum_list (drop 2 (tally am cs))"
proof -
  have "sum_list (drop 2 (tally am cs)) = word_of_nat (length cs)"
    by (simp only: tally_def numeral_2_eq_2 drop_Suc_Cons drop0 sum_word_counts sum_class_counts [OF assms])
  moreover have "tally am cs ! 0 + tally am cs ! 1 = (word_of_nat (length cs) :: u64)"
    by (simp add: tally_def length_filter_split flip: of_nat_add)
  ultimately show ?thesis by simp
qed

lemma length_run_calls:
  "length (run_calls e alloc a config xs) =
     length (filter (admits (a_admit_mask a)) (run_classes e alloc a config xs))"
proof -
  have "length (filter (\<lambda>(x, c). P c) (zip xs cs)) = length (filter P cs)"
    if "length xs = length cs" for P and xs :: "packet list" and cs :: "nat list"
    using that by (induction xs cs rule: list_induct2) auto
  then show ?thesis by (simp add: run_calls_def admitted_calls_def run_classes_ok)
qed

lemma class_count_le: "class_count config \<le> 6"
  by (simp add: class_count_def)

lemma run_classes_less6: "\<forall>c \<in> set (run_classes e alloc a config xs). c < 6"
  using run_classes_ok(2) class_count_le by (metis less_le_trans)

lemma admits_7: "c < 3 \<Longrightarrow> admits 7 c"
  by (simp add: admits_bit) (auto simp: less_Suc_eq numeral_3_eq_3)

lemma admits_7_security: "c < 6 \<Longrightarrow> admits 7 c \<longleftrightarrow> c < 3"
proof -
  assume "c < 6"
  then have "c = 0 \<or> c = 1 \<or> c = 2 \<or> c = 3 \<or> c = 4 \<or> c = 5" by arith
  then show ?thesis by (elim disjE) (simp_all add: admits_bit)
qed

text \<open>The default mask admits every generic class: a call per packet.\<close>

lemma default_mask_calls:
  assumes "a_admit_mask a = 7" and "profile config \<noteq> 1"
  shows "run_calls e alloc a config xs =
    map2 (\<lambda>x c. (fst (py_args x), snd (py_args x), c)) xs (run_classes e alloc a config xs)"
proof -
  have "admits 7 c" if "(x, c) \<in> set (zip xs (run_classes e alloc a config xs))" for x c
    using set_zip_rightD [OF that] run_classes_ok(2) assms(2)
    by (intro admits_7) (force simp: class_count_def)
  then have "filter (\<lambda>(x, c). admits 7 c) (zip xs (run_classes e alloc a config xs)) =
      zip xs (run_classes e alloc a config xs)"
    by (intro filter_True) auto
  then show ?thesis
    using assms by (simp add: run_calls_def admitted_calls_def profile_base_def)
qed

section \<open>Properties\<close>

text \<open>The configuration of a call with all defaults.\<close>

lemma default_args_simps [simp]:
  "a_admit_mask (default_args n) = 7" "a_cnt (default_args n) = n" "a_profile (default_args n) = 0"
  "a_addr_set (default_args n) = None"
  by (simp_all add: default_args_def)

lemma default_args_cfg: "classcfg_of alloc pmsg (default_args n) = Inr (default_cfg 0)"
  by (simp add: classcfg_of_def default_args_def seq_to_ports_def default_cfg_def)

text \<open>C1: a run that no callback invocation interrupts and that reaches the end of the capture or the
  count hands exactly the admitted packets to the callback, in order, each with its header, captured
  bytes and public class id, and returns the admitted, dropped and per-class counts, which it also
  leaves in the object.\<close>

theorem p_loop_filtered_complete:
  assumes "loop_contract pl src 0 brk" and "\<forall>x \<in> set src. captured x"
    and "pcap pp = Some h" and "classcfg_of alloc filtered_msg a = Inr config"
    and "\<forall>k. alloc k" and "\<forall>d. a_addr_set a = Some d \<longrightarrow> length d < 2 ^ 32"
    and "\<forall>cs. py cs = None"
  shows "p_loop_filtered e alloc pl geterr pi0 py (Obj pp) (Inr a) =
    (let xs = offered (a_cnt a) src; cs = run_classes e alloc a config xs;
         counts = tally (a_admit_mask a) cs in
     Some (Obj (pp\<lparr>filt_counts := counts, filt_profile := a_profile a\<rparr>),
       admitted_calls (a_admit_mask a) (profile_base config) xs cs,
       returns (take (2 + class_count config) counts)))"
  using filtered_run [OF assms(1-6), of py e geterr pi0] assms(7)
  by (auto simp: Let_def loop_end_def counted_object_def run_calls_def first_raise_def)

theorem p_loop_filtered_complete_witness:
  "p_loop_filtered Little (\<lambda>_. True) (reference_loop [sample_packet [0, 0]] 0 (- 2)) (\<lambda>_. []) no_info (\<lambda>_. None)
     (Obj sample_object) (Inr (default_args (- 1))) =
    (let xs = offered (a_cnt (default_args (- 1))) [sample_packet [0, 0]];
         cs = run_classes Little (\<lambda>_. True) (default_args (- 1)) (default_cfg 0) xs;
         counts = tally (a_admit_mask (default_args (- 1))) cs in
     Some (Obj (sample_object\<lparr>filt_counts := counts, filt_profile := a_profile (default_args (- 1))\<rparr>),
       admitted_calls (a_admit_mask (default_args (- 1))) (profile_base (default_cfg 0)) xs cs,
       returns (take (2 + class_count (default_cfg 0)) counts)))"
  by (rule p_loop_filtered_complete [OF reference_loop_contract _ _ default_args_cfg]) simp_all

text \<open>C16: an exception in the callback stops the run right there: when the \<open>m\<close>-th call is the first that
  raises, and its packet is the \<open>n\<close>-th of the capture, the calls are the first \<open>m\<close>, the exception of the
  last is propagated, and the counters left in the object are those of exactly the first \<open>n\<close> packets.\<close>

theorem p_loop_filtered_stops_at_exception:
  assumes "loop_contract pl src fin brk" and "\<forall>x \<in> set src. captured x"
    and "pcap pp = Some h" and "classcfg_of alloc filtered_msg a = Inr config"
    and "\<forall>k. alloc k" and "\<forall>d. a_addr_set a = Some d \<longrightarrow> length d < 2 ^ 32"
    and "first_raise py (run_calls e alloc a config (offered (a_cnt a) src)) m"
  shows "let xs = offered (a_cnt a) src; all = run_calls e alloc a config xs in
    (\<exists>!n. 0 < n \<and> n \<le> length xs \<and> length (run_calls e alloc a config (take (n - 1) xs)) = m - 1 \<and>
       length (run_calls e alloc a config (take n xs)) = m) \<and>
    (\<forall>n. 0 < n \<and> n \<le> length xs \<and> length (run_calls e alloc a config (take (n - 1) xs)) = m - 1 \<and>
       length (run_calls e alloc a config (take n xs)) = m \<longrightarrow>
       p_loop_filtered e alloc pl geterr pi0 py (Obj pp) (Inr a) =
         Some (counted_object e alloc pp a config (take n xs), take m all, None, py (take m all)))"
proof -
  let ?xs = "offered (a_cnt a) src" and ?all = "run_calls e alloc a config (offered (a_cnt a) src)"
  let ?made = "\<lambda>n. run_calls e alloc a config (take n ?xs)"
  have "\<not> never_raises py ?all" using assms(7) by (auto simp: first_raise_def never_raises_def)
  with filtered_run [OF assms(1-6), of py e geterr pi0] obtain n where n: "n \<le> length ?xs"
    and fr: "first_raise py (?made n) (length (?made n))"
    and last: "length (?made n) = Suc (length (?made (n - 1)))"
    and eq: "p_loop_filtered e alloc pl geterr pi0 py (Obj pp) (Inr a) =
        Some (counted_object e alloc pp a config (take n ?xs), ?made n, None, py (?made n))"
    by (auto simp: Let_def)
  obtain k where "?made n = take k ?all" using run_calls_prefix by blast
  then have made: "?made n = take (length (?made n)) ?all" "length (?made n) \<le> length ?all" by (auto simp: min_def)
  have "first_raise py ?all (length (?made n))"
    using fr first_raise_take [OF made(2), of py] made(1) by simp
  then have m: "length (?made n) = m" using assms(7) first_raise_unique by blast
  have "0 < n" using last by (cases n) simp_all
  with n m last have at: "0 < n \<and> n \<le> length ?xs \<and> length (?made (n - 1)) = m - 1 \<and> length (?made n) = m" by simp
  have mono: "length (?made i) \<le> length (?made j)" if "i \<le> j" for i j
  proof -
    have "take i ?xs = take i (take j ?xs)" using that by (simp add: min_def)
    then show ?thesis using run_calls_prefix [of e alloc a config i "take j ?xs"] by auto
  qed
  have uniq: "i = n" if "0 < i \<and> i \<le> length ?xs \<and> length (?made (i - 1)) = m - 1 \<and> length (?made i) = m" for i
  proof (rule ccontr)
    assume "i \<noteq> n"
    then have "i \<le> n - 1 \<or> n \<le> i - 1" by linarith
    then show False using mono [of i "n - 1"] mono [of n "i - 1"] that at last by auto
  qed
  have "?made n = take m ?all" using made(1) m by metis
  with eq have res: "p_loop_filtered e alloc pl geterr pi0 py (Obj pp) (Inr a) =
      Some (counted_object e alloc pp a config (take n ?xs), take m ?all, None, py (take m ?all))" by simp
  show ?thesis
    unfolding Let_def
  proof (intro conjI allI impI)
    show "\<exists>!i. 0 < i \<and> i \<le> length ?xs \<and> length (?made (i - 1)) = m - 1 \<and> length (?made i) = m"
      using at uniq by (rule ex1I)
  qed (use res uniq in blast)
qed

text \<open>The witness: the second packet raises, and two are counted.\<close>

theorem p_loop_filtered_stops_at_exception_witness:
  "p_loop_filtered Little (\<lambda>_. True) (reference_loop [sample_packet [], sample_packet [0, 0], sample_packet []] 0 (- 2))
      (\<lambda>_. []) no_info raises_second (Obj sample_object) (Inr (default_args 0)) =
    (let xs = [sample_packet [], sample_packet [0, 0], sample_packet []];
         all = run_calls Little (\<lambda>_. True) (default_args 0) (default_cfg 0) xs in
     Some (counted_object Little (\<lambda>_. True) sample_object (default_args 0) (default_cfg 0) (take 2 xs),
       take 2 all, None, raises_second (take 2 all)))"
proof -
  let ?src = "[sample_packet [], sample_packet [0, 0], sample_packet []]"
  have off: "offered (a_cnt (default_args 0)) ?src = ?src" by (simp add: offered_def)
  have off0: "offered 0 ?src = ?src" by (simp add: offered_def)
  have len: "length (run_calls Little (\<lambda>_. True) (default_args 0) (default_cfg 0) xs) = length xs" for xs
    by (simp add: default_mask_calls run_classes_ok)
  have "first_raise raises_second (run_calls Little (\<lambda>_. True) (default_args 0) (default_cfg 0)
      (offered (a_cnt (default_args 0)) ?src)) 2"
    using len [of ?src] by (auto simp: off0 first_raise_def never_raises_def raises_second_def)
  note run = p_loop_filtered_stops_at_exception [OF reference_loop_contract _ sample_simps(1) default_args_cfg _ _ this,
      of 0 "- 2" "\<lambda>_. []" no_info, unfolded off Let_def, THEN conjunct2, THEN spec, of 2, THEN mp]
  show ?thesis unfolding Let_def by (rule run) (simp_all add: len)
qed

text \<open>C19: however the run ends, the counters balance: admitted plus dropped equals the sum of the class
  counters, and the admitted counter is the number of callback invocations (modulo 2^64).\<close>

theorem p_loop_filtered_conservation:
  assumes "loop_contract pl src fin brk" and "\<forall>x \<in> set src. captured x"
    and "pcap pp = Some h" and "classcfg_of alloc filtered_msg a = Inr config"
    and "\<forall>k. alloc k" and "\<forall>d. a_addr_set a = Some d \<longrightarrow> length d < 2 ^ 32"
  shows "\<exists>pp' made r. p_loop_filtered e alloc pl geterr pi0 py (Obj pp) (Inr a) = Some (Obj pp', made, r) \<and>
    length (filt_counts pp') = 8 \<and>
    filt_counts pp' ! 0 + filt_counts pp' ! 1 = sum_list (drop 2 (filt_counts pp')) \<and>
    filt_counts pp' ! 0 = word_of_nat (length made)"
proof -
  obtain ys r where eq: "p_loop_filtered e alloc pl geterr pi0 py (Obj pp) (Inr a) =
      Some (counted_object e alloc pp a config ys, run_calls e alloc a config ys, r)"
    using filtered_run [OF assms, of py e geterr pi0] unfolding Let_def by blast
  have "tally (a_admit_mask a) (run_classes e alloc a config ys) ! 0 =
      word_of_nat (length (run_calls e alloc a config ys))"
    by (simp add: length_run_calls tally_def)
  moreover note tally_balance [OF run_classes_less6, of "a_admit_mask a" e alloc a config ys]
  ultimately show ?thesis
    by - (intro exI conjI, rule eq [unfolded counted_object_def], simp_all)
qed

theorem p_loop_filtered_conservation_witness:
  "\<exists>pp' made r. p_loop_filtered Big (\<lambda>_. True) (reference_loop [sample_packet [0, 0]] (- 1) (- 2)) (\<lambda>_. [])
      no_info raises_second (Obj sample_object) (Inr (default_args 5)) = Some (Obj pp', made, r) \<and>
    length (filt_counts pp') = 8 \<and>
    filt_counts pp' ! 0 + filt_counts pp' ! 1 = sum_list (drop 2 (filt_counts pp')) \<and>
    filt_counts pp' ! 0 = word_of_nat (length made)"
  by (rule p_loop_filtered_conservation [OF reference_loop_contract _ _ default_args_cfg]) simp_all

text \<open>The class counters do not depend on the admit mask.\<close>

theorem p_loop_filtered_mask_independent:
  assumes "loop_contract pl src 0 brk" and "\<forall>x \<in> set src. captured x"
    and "pcap pp = Some h" and "classcfg_of alloc filtered_msg a = Inr config"
    and "\<forall>k. alloc k" and "\<forall>d. a_addr_set a = Some d \<longrightarrow> length d < 2 ^ 32"
    and "\<forall>cs. py cs = None"
  shows "\<exists>pp1 made1 r1 pp2 made2 r2.
    p_loop_filtered e alloc pl geterr pi0 py (Obj pp) (Inr a) = Some (Obj pp1, made1, r1) \<and>
    p_loop_filtered e alloc pl geterr pi0 py (Obj pp) (Inr (a\<lparr>a_admit_mask := am\<rparr>)) =
      Some (Obj pp2, made2, r2) \<and>
    drop 2 (filt_counts pp1) = drop 2 (filt_counts pp2)"
proof -
  have same: "run_classes e alloc (a\<lparr>a_admit_mask := am\<rparr>) config xs = run_classes e alloc a config xs" for xs
    by (simp add: run_classes_def watched_def cutoff_of_def table_of_def)
  have "classcfg_of alloc filtered_msg (a\<lparr>a_admit_mask := am\<rparr>) = classcfg_of alloc filtered_msg a"
    by (simp add: classcfg_of_def)
  with assms(4) have cfg: "classcfg_of alloc filtered_msg (a\<lparr>a_admit_mask := am\<rparr>) = Inr config" by simp
  have mem: "\<forall>d. a_addr_set (a\<lparr>a_admit_mask := am\<rparr>) = Some d \<longrightarrow> length d < 2 ^ 32"
    using assms(6) by simp
  have all: "never_raises py cs" "\<not> first_raise py cs n" for cs n
    using assms(7) by (simp_all add: never_raises_def first_raise_def)
  show ?thesis
    using filtered_run [OF assms(1-6), of py e geterr pi0]
      filtered_run [OF assms(1-3) cfg assms(5) mem, of py e geterr pi0]
    by (simp add: all counted_object_def same tally_def)
qed

theorem p_loop_filtered_mask_independent_witness:
  "\<exists>pp1 made1 r1 pp2 made2 r2.
    p_loop_filtered Big (\<lambda>_. True) (reference_loop [sample_packet [0, 0]] 0 (- 2)) (\<lambda>_. []) no_info (\<lambda>_. None)
      (Obj sample_object) (Inr (default_args 5)) = Some (Obj pp1, made1, r1) \<and>
    p_loop_filtered Big (\<lambda>_. True) (reference_loop [sample_packet [0, 0]] 0 (- 2)) (\<lambda>_. []) no_info (\<lambda>_. None)
      (Obj sample_object) (Inr (default_args 5\<lparr>a_admit_mask := 0\<rparr>)) = Some (Obj pp2, made2, r2) \<and>
    drop 2 (filt_counts pp1) = drop 2 (filt_counts pp2)"
  by (rule p_loop_filtered_mask_independent [OF reference_loop_contract _ _ default_args_cfg]) simp_all

text \<open>Bad arguments are refused before a packet is consumed: whatever libpcap and the callback do,
  the object is unchanged, nothing is called, and the exception names the first check that failed.\<close>

theorem p_loop_filtered_rejects:
  "p_loop_filtered e alloc pl geterr pi0 py OtherType args =
     Some (OtherType, [], raises (PcapError ''Not a pcap object'')) \<and>
   (pcap pp = None \<longrightarrow> p_loop_filtered e alloc pl geterr pi0 py (Obj pp) args =
     Some (Obj pp, [], raises (ValueError ''pcap is closed''))) \<and>
   (pcap pp = Some h \<longrightarrow> p_loop_filtered e alloc pl geterr pi0 py (Obj pp) (Inl ex) =
     Some (Obj pp, [], raises ex)) \<and>
   (pcap pp = Some h \<longrightarrow> \<not> (0 \<le> sint (a_l2_offset a) \<and> sint (a_l2_offset a) \<le> 64) \<longrightarrow>
     p_loop_filtered e alloc pl geterr pi0 py (Obj pp) (Inr a) =
     Some (Obj pp, [], raises (ValueError ''l2_offset out of range [0,64]''))) \<and>
   (pcap pp = Some h \<longrightarrow> 0 \<le> sint (a_l2_offset a) \<and> sint (a_l2_offset a) \<le> 64 \<longrightarrow>
     a_profile a \<notin> {0, 1} \<longrightarrow> p_loop_filtered e alloc pl geterr pi0 py (Obj pp) (Inr a) =
     Some (Obj pp, [], raises (ValueError ''profile must be 0 (generic) or 1 (security)''))) \<and>
   (pcap pp = Some h \<longrightarrow> 0 \<le> sint (a_l2_offset a) \<and> sint (a_l2_offset a) \<le> 64 \<longrightarrow>
     a_profile a \<in> {0, 1} \<longrightarrow> a_dpi_ports a = NotSequence \<longrightarrow>
     p_loop_filtered e alloc pl geterr pi0 py (Obj pp) (Inr a) =
     Some (Obj pp, [], raises (TypeError ''ports must be a sequence of ints'')))"
  by (auto simp: p_loop_filtered_unfold classcfg_of_def seq_to_ports_def not_le not_less)

theorem p_loop_filtered_rejects_witness:
  "p_loop_filtered Little (\<lambda>_. False) (\<lambda>_ _ _. None) (\<lambda>_. []) no_info (\<lambda>_. None) (Obj sample_object)
     (Inr (default_args 0\<lparr>a_l2_offset := 65\<rparr>)) =
     Some (Obj sample_object, [], raises (ValueError ''l2_offset out of range [0,64]''))"
  using p_loop_filtered_rejects [of Little "\<lambda>_. False" "\<lambda>_ _ _. None" "\<lambda>_. []" no_info "\<lambda>_. None"
      "Inr (default_args 0)" sample_object 1 NoMemory "default_args 0\<lparr>a_l2_offset := 65\<rparr>"]
  by simp

text \<open>After a run that returns its counts, \<open>filtered_stats()\<close> reports the same tuple.\<close>

theorem filtered_stats_agrees:
  assumes "p_loop_filtered e alloc pl geterr pi0 py self args = Some (self', made, returns counts)"
  shows "p_filtered_stats self' = Some (returns counts)"
proof (cases self)
  case (Obj pp)
  show ?thesis
  proof (cases "pcap pp")
    case (Some h)
    then show ?thesis using assms Obj
      by (auto simp: p_loop_filtered_unfold p_filtered_stats_def bind_eq_Some_conv Let_def
          split: sum.splits if_splits)
  qed (use assms Obj in \<open>simp add: p_loop_filtered_unfold\<close>)
qed (use assms in \<open>simp add: p_loop_filtered_unfold\<close>)

theorem filtered_stats_agrees_witness:
  "\<exists>self' made counts.
     p_loop_filtered Little (\<lambda>_. True) (reference_loop [] 0 0) (\<lambda>_. []) no_info (\<lambda>_. None) (Obj sample_object)
       (Inr (default_args 0)) = Some (self', made, returns counts) \<and>
     p_filtered_stats self' = Some (returns counts)"
proof -
  have "p_loop_filtered Little (\<lambda>_. True) (reference_loop [] 0 0) (\<lambda>_. []) no_info (\<lambda>_. None) (Obj sample_object)
      (Inr (default_args 0)) = Some (Obj (sample_object\<lparr>filt_counts := replicate 8 0, filt_profile := 0\<rparr>), [],
        returns [0, 0, 0, 0, 0])"
    by (simp add: p_loop_filtered_unfold default_args_cfg address_set_def reference_loop_def offered_def
        stats_tuple_def numeral_eq_Suc)
  with filtered_stats_agrees [OF this] show ?thesis by blast
qed

text \<open>Before any run, \<open>filtered_stats()\<close> reports whatever the allocator left in the new object: the
  constructor does not initialise the counters, nor the profile that selects the tuple.\<close>

theorem filtered_stats_uninitialised:
  assumes "length (filt_counts fresh) = 8"
  shows "p_filtered_stats (Obj (new_pcapobject fresh h n m)) =
    Some (returns (take (if filt_profile fresh = 1 then 8 else 5) (filt_counts fresh)))"
proof -
  obtain a b c d i j k l where "filt_counts fresh = [a, b, c, d, i, j, k, l]"
    using assms by (auto simp: length_Suc_conv numeral_eq_Suc)
  then show ?thesis by (simp add: p_filtered_stats_def new_pcapobject_def stats_tuple_def numeral_eq_Suc)
qed

theorem filtered_stats_uninitialised_witness:
  "p_filtered_stats (Obj (new_pcapobject (sample_object\<lparr>filt_counts := [9, 9, 9, 9, 9, 9, 9, 9]\<rparr>) 3 0 0)) =
    Some (returns (take (if filt_profile (sample_object\<lparr>filt_counts := [9, 9, 9, 9, 9, 9, 9, 9]\<rparr>) = 1 then 8 else 5)
      (filt_counts (sample_object\<lparr>filt_counts := [9, 9, 9, 9, 9, 9, 9, 9]\<rparr>))))"
  by (rule filtered_stats_uninitialised) simp

text \<open>With the default mask, the generic profile delivers every packet, tagged with its class, while
  the security profile delivers only its classes 100 to 102: address hits, handshakes and SYNs are
  dropped, and no packet of the bulk class is.\<close>

theorem default_mask_delivery:
  assumes "loop_contract pl src 0 brk" and "\<forall>x \<in> set src. captured x"
    and "pcap pp = Some h" and "classcfg_of alloc filtered_msg a = Inr config"
    and "\<forall>k. alloc k" and "\<forall>d. a_addr_set a = Some d \<longrightarrow> length d < 2 ^ 32"
    and "\<forall>cs. py cs = None" and "a_admit_mask a = 7"
  shows "\<exists>self' made r. p_loop_filtered e alloc pl geterr pi0 py (Obj pp) (Inr a) = Some (self', made, r) \<and>
    (a_profile a = 0 \<longrightarrow> map (\<lambda>(hdr, data, cls). (hdr, data)) made = map py_args (offered (a_cnt a) src)) \<and>
    (a_profile a = 1 \<longrightarrow> (\<forall>(hdr, data, cls) \<in> set made. cls \<in> {100, 101, 102}))"
proof -
  let ?xs = "offered (a_cnt a) src"
  have run: "p_loop_filtered e alloc pl geterr pi0 py (Obj pp) (Inr a) =
      Some (counted_object e alloc pp a config ?xs, run_calls e alloc a config ?xs,
        returns (take (2 + class_count config) (tally (a_admit_mask a) (run_classes e alloc a config ?xs))))"
    using filtered_run [OF assms(1-6), of py e geterr pi0] assms(7)
    by (auto simp: Let_def loop_end_def first_raise_def)
  have prof: "profile config = a_profile a" using classcfg_of_ok [OF assms(4)] by simp
  have "map (\<lambda>(hdr, data, cls). (hdr, data)) (run_calls e alloc a config ?xs) = map py_args ?xs"
    if "a_profile a = 0"
  proof -
    have "map (\<lambda>(hdr, data, cls). (hdr, data)) (map2 (\<lambda>x c. (fst (py_args x), snd (py_args x), c)) xs cs) =
        map py_args xs" if "length xs = length cs" for xs and cs :: "nat list"
      using that by (induction xs cs rule: list_induct2) simp_all
    then show ?thesis
      using that prof run_classes_ok(1) by (simp add: default_mask_calls [OF assms(8)])
  qed
  moreover have "cls \<in> {100, 101, 102}"
    if hyp: "a_profile a = 1" "(hdr, data, cls) \<in> set (run_calls e alloc a config ?xs)" for hdr data cls
  proof -
    obtain x c where "(x, c) \<in> set (zip ?xs (run_classes e alloc a config ?xs))" "admits 7 c" "cls = 100 + c"
      using hyp prof assms(8)
      by (auto simp: run_calls_def admitted_calls_def profile_base_def MT_PROFILE_BASE_def)
    then have "c < 3" "cls = 100 + c"
      using admits_7_security run_classes_less6 by (auto dest: set_zip_rightD)
    then show ?thesis by auto
  qed
  ultimately show ?thesis using run by auto
qed

theorem default_mask_delivery_witness:
  "\<exists>self' made r. p_loop_filtered Little (\<lambda>_. True) (reference_loop [sample_packet [0, 0]] 0 (- 2)) (\<lambda>_. []) no_info
      (\<lambda>_. None) (Obj sample_object) (Inr (default_args 0)) = Some (self', made, r) \<and>
    (a_profile (default_args 0) = 0 \<longrightarrow>
       map (\<lambda>(hdr, data, cls). (hdr, data)) made = map py_args (offered (a_cnt (default_args 0)) [sample_packet [0, 0]])) \<and>
    (a_profile (default_args 0) = 1 \<longrightarrow> (\<forall>(hdr, data, cls) \<in> set made. cls \<in> {100, 101, 102}))"
  by (rule default_mask_delivery [OF reference_loop_contract _ _ default_args_cfg]) simp_all

end
