(* ===== verification/Ring_Buffer.thy ===== *)
theory Ring_Buffer
  imports Filtered
begin

text \<open>
  \<open>loop_to_buffer()\<close> of \<open>src/pcapobj.cc\<close>: the callback that classifies packets and writes the
  admitted ones into a caller-provided buffer as slots of length (32 bits, little-endian), class id
  (one byte) and captured bytes, and the method around it. The slot format has a parser here, which
  plays the consumer.

  \<open>size_t\<close> is 64 bits wide. A write outside the buffer is a fault (\<open>None\<close>).
\<close>

section \<open>The callback\<close>

record BufferCtx =
  b_buf :: "u8 list"
  b_cap :: u64
  b_used :: u64
  b_admit_mask :: cint
  b_ioc :: "mt_ipset option"
  b_flowtab :: "mt_flowtab option"
  b_flow_cutoff :: u32
  b_cfg :: mt_classcfg
  b_written :: u64
  b_dropped :: u64
  b_overflow :: u64
  b_cls :: "u64 list"

text \<open>Writing \<open>d\<close> at offset \<open>off\<close> of a block of memory.\<close>

definition store :: "u8 list \<Rightarrow> nat \<Rightarrow> u8 list \<Rightarrow> u8 list option" where
  "store buf off d =
     (if off + length d \<le> length buf
      then Some (take off buf @ d @ drop (off + length d) buf) else None)"

text \<open>The five bytes before the packet: \<open>p[0] = cl & 0xff; ... p[4] = (unsigned char)(base + idx)\<close>.\<close>

definition slot_header :: "u32 \<Rightarrow> nat \<Rightarrow> u8 list" where
  "slot_header cl cls = [ucast (cl AND 0xff), ucast (drop_bit 8 cl AND 0xff),
     ucast (drop_bit 16 cl AND 0xff), ucast (drop_bit 24 cl AND 0xff), word_of_nat cls]"

definition BufferCallBack ::
  "endian \<Rightarrow> mt_pktinfo \<Rightarrow> BufferCtx \<Rightarrow> packet \<Rightarrow> (BufferCtx \<times> bool) option" where
  "BufferCallBack e pi0 b = (\<lambda>(h, pkt). do {
     (idx, ft) \<leftarrow> classify_dispatch e (b_cfg b) (b_ioc b) (b_flowtab b) (b_flow_cutoff b)
                    pkt (h_caplen h) pi0;
     cnts \<leftarrow> bump (b_cls b) idx;
     let b = b\<lparr>b_flowtab := ft, b_cls := cnts\<rparr>;
     if \<not> admits (b_admit_mask b) idx then Some (b\<lparr>b_dropped := b_dropped b + 1\<rparr>, False)
     else do {
       let cl = h_caplen h;
       let need = (ucast (5 + cl) :: u64);
       if b_cap b < b_used b + need then Some (b\<lparr>b_overflow := b_overflow b + 1\<rparr>, False)
       else do {
         let p = unat (b_used b);
         buf1 \<leftarrow> store (b_buf b) p (slot_header cl (profile_base (b_cfg b) + idx));
         data \<leftarrow> bytes_of pkt cl;
         buf2 \<leftarrow> store buf1 (p + 5) data;
         Some (b\<lparr>b_buf := buf2, b_used := b_used b + need, b_written := b_written b + 1\<rparr>, False) } } })"

section \<open>loop_to_buffer()\<close>

text \<open>\<open>Py_BuildValue\<close> on the counters: 7 or 10 values.\<close>

definition buffer_tuple :: "cint \<Rightarrow> BufferCtx \<Rightarrow> u64 list option" where
  "buffer_tuple prof b =
     (if length (b_cls b) < 6 then None
      else Some ([b_written b, b_dropped b, b_overflow b, b_used b] @
        (if prof = 1 then [b_cls b ! 0, b_cls b ! 1, b_cls b ! 2, b_cls b ! 3, b_cls b ! 4, b_cls b ! 5]
         else [b_cls b ! 0, b_cls b ! 1, b_cls b ! 2])))"

text \<open>The arguments are the writable buffer and the rest; the result is the buffer afterwards (when one
  was acquired), how often it was released, and what the function returns.\<close>

definition buffer_msg :: string where
  "buffer_msg = ''profile must be 0 or 1''"

definition p_loop_to_buffer ::
  "endian \<Rightarrow> (nat \<Rightarrow> bool) \<Rightarrow> BufferCtx pcap_loop \<Rightarrow> mt_pktinfo \<Rightarrow> pcapobject pyobj \<Rightarrow>
     exn + (u8 list \<times> loop_args) \<Rightarrow> (u8 list option \<times> nat \<times> u64 list cret) option" where
  "p_loop_to_buffer e alloc pl pi0 self args =
     check_open self (\<lambda>ex. Some (None, 0, raises ex)) (\<lambda>pp h.
       case args of Inl ex \<Rightarrow> Some (None, 0, raises ex)
       | Inr (view, a) \<Rightarrow>
         (case classcfg_of alloc buffer_msg a of
            Inl ex \<Rightarrow> Some (Some view, 1, raises ex)
          | Inr config \<Rightarrow> do {
              S \<leftarrow> address_set e alloc a;
              let b = \<lparr>b_buf = view, b_cap = word_of_nat (length view), b_used = 0,
                       b_admit_mask = a_admit_mask a, b_ioc = S, b_flowtab = table_of alloc a,
                       b_flow_cutoff = cutoff_of a, b_cfg = config, b_written = 0, b_dropped = 0,
                       b_overflow = 0, b_cls = replicate 6 0\<rparr>;
              (b', ret) \<leftarrow> pl (a_cnt a) (BufferCallBack e pi0) b;
              tup \<leftarrow> buffer_tuple (a_profile a) b';
              Some (Some (b_buf b'), 1, returns tup) }))"

section \<open>The slot format\<close>

text \<open>A consumer: the sequence of class ids and packets in a byte string, if it is well-formed.\<close>

function parse_slots :: "u8 list \<Rightarrow> (u8 \<times> u8 list) list option" where
  "parse_slots bs =
     (case bs of
        [] \<Rightarrow> Some []
      | a # b # c # d # k # r \<Rightarrow>
          (let n = unat (word_of_bytes Little a b c d) in
           if n \<le> length r then map_option (Cons (k, take n r)) (parse_slots (drop n r)) else None)
      | _ \<Rightarrow> None)"
  by pat_completeness auto
termination by (relation "measure length") auto

declare parse_slots.simps [simp del]

text \<open>What is written for class index \<open>c\<close> (on \<open>base\<close>) and packet bytes \<open>d\<close>.\<close>

definition slot_bytes :: "nat \<Rightarrow> nat \<times> u8 list \<Rightarrow> u8 list" where
  "slot_bytes base s = slot_header (word_of_nat (length (snd s))) (base + fst s) @ snd s"

lemma length_slot_header [simp]: "length (slot_header cl cls) = 5"
  by (simp add: slot_header_def)

lemma length_slot_bytes [simp]: "length (slot_bytes base s) = 5 + length (snd s)"
  by (simp add: slot_bytes_def)

lemma slot_length_roundtrip:
  "word_of_bytes Little (ucast (cl AND 0xff)) (ucast (drop_bit 8 cl AND 0xff))
     (ucast (drop_bit 16 cl AND 0xff)) (ucast (drop_bit 24 cl AND 0xff)) = (cl :: u32)"
proof -
  have m: "(0xff :: u32) = mask 8" by (simp add: mask_eq_exp_minus_1)
  have "ucast (w AND 0xff) = (ucast w :: u8)" for w :: u32
    unfolding m by (intro bit_word_eqI) (simp add: bit_simps)
  then show ?thesis by (simp only: word_of_bytes.simps word_of_bytes_be_split)
qed

lemma parse_slots_step:
  assumes "length (snd s) < 2 ^ 32"
  shows "parse_slots (slot_bytes base s @ r) =
    map_option (Cons (word_of_nat (base + fst s), snd s)) (parse_slots r)"
proof -
  have "unat (word_of_nat (length (snd s)) :: u32) = length (snd s)"
    using assms by (simp add: unat_of_nat)
  then show ?thesis
    by (subst parse_slots.simps)
      (simp add: slot_bytes_def slot_header_def slot_length_roundtrip del: word_of_bytes.simps)
qed

lemma parse_slots_concat:
  "\<forall>s \<in> set ss. length (snd s) < 2 ^ 32 \<Longrightarrow>
     parse_slots (concat (map (slot_bytes base) ss)) = Some (map (\<lambda>s. (word_of_nat (base + fst s), snd s)) ss)"
  by (induction ss) (simp_all add: parse_slots_step parse_slots.simps [of "[]"])

section \<open>What a run writes\<close>

text \<open>One packet of class \<open>c\<close>, with captured bytes \<open>d\<close>: dropped by the mask, written when its slot
  still fits, or counted as overflow. The state is the sl written, the drops and the overflows.\<close>

definition slots_size :: "(nat \<times> u8 list) list \<Rightarrow> nat" where
  "slots_size sl = (\<Sum>s\<leftarrow>sl. 5 + length (snd s))"

definition ring_step ::
  "cint \<Rightarrow> nat \<Rightarrow> (nat \<times> u8 list) list \<times> nat \<times> nat \<Rightarrow> nat \<times> u8 list
     \<Rightarrow> (nat \<times> u8 list) list \<times> nat \<times> nat" where
  "ring_step am cap st s = (let (sl, drops, ovf) = st in
     if \<not> admits am (fst s) then (sl, Suc drops, ovf)
     else if slots_size sl + 5 + length (snd s) \<le> cap then (sl @ [s], drops, ovf)
     else (sl, drops, Suc ovf))"

definition ring_run ::
  "cint \<Rightarrow> nat \<Rightarrow> packet list \<Rightarrow> nat list \<Rightarrow> (nat \<times> u8 list) list \<times> nat \<times> nat" where
  "ring_run am cap xs cs =
     foldl (ring_step am cap) ([], 0, 0) (zip cs (map (\<lambda>x. snd (py_args x)) xs))"

lemma ring_run_Nil [simp]: "ring_run am cap [] [] = ([], 0, 0)"
  by (simp add: ring_run_def)

lemma ring_run_snoc:
  "length cs = length xs \<Longrightarrow>
     ring_run am cap (xs @ [x]) (cs @ [c]) = ring_step am cap (ring_run am cap xs cs) (c, snd (py_args x))"
  by (simp add: ring_run_def)

lemma slots_size_simps [simp]:
  "slots_size [] = 0" "slots_size (ss @ [s]) = slots_size ss + (5 + length (snd s))"
  by (simp_all add: slots_size_def)

lemma length_slots [simp]: "length (concat (map (slot_bytes base) ss)) = slots_size ss"
  by (induction ss) (simp_all add: slots_size_def)

text \<open>Invariants of a run: the slots fit, every packet is accounted for once, the slots are admitted
  packets in their order, and without overflow they are all of them.\<close>

lemma ring_step_accounts:
  assumes "ring_step am cap (sl, drops, ovf) s = (sl', drops', ovf')" and "slots_size sl \<le> cap"
  shows "slots_size sl' \<le> cap \<and> length sl' + drops' + ovf' = Suc (length sl + drops + ovf)"
  using assms by (auto simp: ring_step_def Let_def split: if_splits)

lemma ring_run_accounts:
  assumes "ring_run am cap xs cs = (sl, drops, ovf)" and "length cs = length xs"
  shows "slots_size sl \<le> cap \<and> length sl + drops + ovf = length xs \<and>
    drops = length (filter (\<lambda>c. \<not> admits am c) cs) \<and>
    (ovf = 0 \<longrightarrow> sl = filter (\<lambda>s. admits am (fst s)) (zip cs (map (\<lambda>x. snd (py_args x)) xs)))"
  using assms(2,1)
proof (induction cs xs arbitrary: sl drops ovf rule: rev_induct2)
  case (4 c cs x xs)
  obtain sl0 drops0 ovf0 where r: "ring_run am cap xs cs = (sl0, drops0, ovf0)" by (metis prod_cases3)
  have len: "length cs = length xs" using 4 by simp
  have ih: "slots_size sl0 \<le> cap \<and> length sl0 + drops0 + ovf0 = length xs \<and>
    drops0 = length (filter (\<lambda>c. \<not> admits am c) cs) \<and>
    (ovf0 = 0 \<longrightarrow> sl0 = filter (\<lambda>s. admits am (fst s)) (zip cs (map (\<lambda>x. snd (py_args x)) xs)))"
    using 4 len r by blast
  then show ?case
    using 4 len r by (auto simp: ring_run_snoc ring_step_def Let_def split: if_splits)
qed simp_all

section \<open>The callback keeps its books\<close>

definition ring_start :: "BufferCtx \<Rightarrow> bool" where
  "ring_start b \<longleftrightarrow> wf_cfg (b_cfg b) \<and> wf_set (b_ioc b) \<and> wf_table (b_flowtab b) \<and>
     length (b_buf b) < 2 ^ 63 \<and> b_cap b = word_of_nat (length (b_buf b)) \<and> b_used b = 0 \<and>
     b_written b = 0 \<and> b_dropped b = 0 \<and> b_overflow b = 0 \<and> b_cls b = replicate 6 0"

definition class_counts :: "nat list \<Rightarrow> u64 list" where
  "class_counts cs = map (\<lambda>i. word_of_nat (count_list cs i)) [0..<6]"

lemma class_counts_snoc: "c < 6 \<Longrightarrow> bump (class_counts cs) c = Some (class_counts (cs @ [c]))"
proof -
  assume "c < 6"
  then have "c = 0 \<or> c = 1 \<or> c = 2 \<or> c = 3 \<or> c = 4 \<or> c = 5" by arith
  then show ?thesis by (elim disjE) (simp_all add: bump_def class_counts_def upt_rec)
qed

lemma class_counts_Nil: "class_counts [] = replicate 6 0"
  by (simp add: class_counts_def upt_rec numeral_eq_Suc)

definition ring_trace :: "endian \<Rightarrow> BufferCtx \<Rightarrow> packet list \<Rightarrow> nat list \<times> mt_flowtab option" where
  "ring_trace e b xs = class_trace e (b_cfg b) (members_of (b_ioc b)) (b_flow_cutoff b) (b_flowtab b) xs"

definition ring_state :: "endian \<Rightarrow> BufferCtx \<Rightarrow> packet list \<Rightarrow> BufferCtx" where
  "ring_state e b xs = (
     let (cs, ft) = ring_trace e b xs;
         (sl, drops, ovf) = ring_run (b_admit_mask b) (length (b_buf b)) xs cs in
     b\<lparr>b_flowtab := ft, b_cls := class_counts cs, b_written := word_of_nat (length sl),
       b_dropped := word_of_nat drops, b_overflow := word_of_nat ovf,
       b_used := word_of_nat (slots_size sl),
       b_buf := concat (map (slot_bytes (profile_base (b_cfg b))) sl) @ drop (slots_size sl) (b_buf b)\<rparr>)"

text \<open>The length of a packet for which \<open>5 + cl\<close> does not wrap in 32 bits; libpcap's largest snapshot
  length is far below.\<close>

definition storable :: "packet \<Rightarrow> bool" where
  "storable x \<longleftrightarrow> captured x \<and> unat (h_caplen (fst x)) + 5 < 2 ^ 32"

lemma unat_need: "unat (cl :: u32) + 5 < 2 ^ 32 \<Longrightarrow> unat (ucast (5 + cl) :: u64) = 5 + unat cl"
proof -
  assume h: "unat cl + 5 < 2 ^ 32"
  have "unat (ucast (5 + cl) :: u64) = unat (5 + cl)" by (rule unat_ucast_u64)
  also have "\<dots> = 5 + unat cl" using unat_plus_numeral [of cl _] h by (simp add: add.commute)
  finally show ?thesis .
qed

lemma fits_iff:
  assumes "k \<le> cap" and "cap < 2 ^ 63" and "unat need < 2 ^ 33"
  shows "(word_of_nat cap :: u64) < word_of_nat k + need \<longleftrightarrow> cap < k + unat need"
proof -
  have "unat (word_of_nat k + need :: u64) = k + unat need"
    using assms by (simp add: unat_word_ariths unat_of_nat)
  then show ?thesis using assms(2) by (simp add: word_less_nat_alt unat_of_nat)
qed

lemma store_slot:
  assumes "k + 5 + length d \<le> length buf" and "length hdr = 5" and "length pre = k"
  shows "do { b1 \<leftarrow> store (pre @ drop k buf) k hdr; store b1 (k + 5) d } =
    Some (pre @ hdr @ d @ drop (k + (5 + length d)) buf)"
  using assms by (simp add: store_def add.assoc) (simp add: add.commute add.left_commute)

definition ring_inv :: "endian \<Rightarrow> BufferCtx \<Rightarrow> packet list \<Rightarrow> BufferCtx \<Rightarrow> bool" where
  "ring_inv e b0 seen b \<longleftrightarrow> ring_start b0 \<and> b = ring_state e b0 seen"

lemma BufferCallBack_step:
  assumes st: "ring_start b0" and x: "storable x"
  shows "BufferCallBack e pi0 (ring_state e b0 seen) x = Some (ring_state e b0 (seen @ [x]), False)"
proof -
  obtain h d where xd: "x = (h, d)" by fastforce
  obtain cs ft where cs: "ring_trace e b0 seen = (cs, ft)" by fastforce
  let ?am = "b_admit_mask b0" and ?cap = "length (b_buf b0)" and ?base = "profile_base (b_cfg b0)"
  define dd where "dd = take (unat (h_caplen h)) d"
  have ok: "wf_table ft" "length cs = length seen"
    using class_trace_ok [of "b_flowtab b0" e "b_cfg b0" "members_of (b_ioc b0)" "b_flow_cutoff b0" seen]
      st cs by (simp_all add: ring_start_def ring_trace_def)
  obtain c ft' where c: "frame_class e (b_cfg b0) (members_of (b_ioc b0)) ft (b_flow_cutoff b0) d (unat (h_caplen h))
      = (c, ft')" by fastforce
  have cap: "captured (h, d)" "unat (h_caplen h) + 5 < 2 ^ 32" using x by (simp_all add: storable_def xd)
  have cls: "classify_dispatch e (b_cfg b0) (b_ioc b0) ft (b_flow_cutoff b0) d (h_caplen h) pi0 = Some (c, ft')"
    using classify_dispatch_eq [of "b_cfg b0" "h_caplen h" d "b_ioc b0" ft e "b_flow_cutoff b0" pi0] st cap ok(1) c
    by (simp add: ring_start_def captured_def)
  have c6: "c < 6"
    using frame_class_ok [OF ok(1), of e "b_cfg b0" "members_of (b_ioc b0)" "b_flow_cutoff b0" d "unat (h_caplen h)"] c
    by (simp add: class_count_def split: if_splits)
  have cs': "ring_trace e b0 (seen @ [(h, d)]) = (cs @ [c], ft')"
    using cs c by (simp add: ring_trace_def class_trace_snoc)
  obtain sl drops ovf where r: "ring_run ?am ?cap seen cs = (sl, drops, ovf)" by (metis prod_cases3)
  have fit: "slots_size sl \<le> ?cap" using ring_run_accounts [OF r ok(2)] by simp
  have args: "snd (py_args (h, d)) = dd" by (simp add: py_args_def dd_def)
  have len: "length dd = unat (h_caplen h)" using cap(1) by (simp add: captured_def dd_def)
  have run': "ring_run ?am ?cap (seen @ [(h, d)]) (cs @ [c]) = ring_step ?am ?cap (sl, drops, ovf) (c, dd)"
    using ring_run_snoc [OF ok(2)] r args by simp
  have b63: "?cap < 2 ^ 63" and bcap: "b_cap b0 = word_of_nat ?cap" using st by (simp_all add: ring_start_def)
  have need: "unat (ucast (5 + h_caplen h) :: u64) = 5 + unat (h_caplen h)" by (rule unat_need [OF cap(2)])
  then have need33: "unat (ucast (5 + h_caplen h) :: u64) < 2 ^ 33" using cap(2) by simp
  note full = fits_iff [OF fit b63 need33, unfolded need]
  have used: "unat (word_of_nat (slots_size sl) :: u64) = slots_size sl"
    using fit b63 by (simp add: unat_of_nat)
  note base = BufferCallBack_def xd ring_state_def cs cs' r run' cls class_counts_snoc [OF c6] Let_def
  consider (dropped) "\<not> admits ?am c" | (overflow) "admits ?am c" "?cap < slots_size sl + (5 + unat (h_caplen h))"
    | (written) "admits ?am c" "slots_size sl + (5 + unat (h_caplen h)) \<le> ?cap" by linarith
  then show ?thesis
  proof cases
    case dropped
    then show ?thesis by (simp add: base ring_step_def)
  next
    case overflow
    then show ?thesis using len by (simp add: base ring_step_def bcap full)
  next
    case written
    have "word_of_nat (length dd) = h_caplen h" using len by simp
    then have slot: "slot_bytes ?base (c, dd) = slot_header (h_caplen h) (?base + c) @ dd"
      by (simp add: slot_bytes_def)
    obtain b1 where b1: "store (concat (map (slot_bytes ?base) sl) @ drop (slots_size sl) (b_buf b0)) (slots_size sl)
        (slot_header (h_caplen h) (?base + c)) = Some b1"
      "store b1 (slots_size sl + 5) dd = Some (concat (map (slot_bytes ?base) sl) @
        slot_header (h_caplen h) (?base + c) @ dd @ drop (slots_size sl + (5 + length dd)) (b_buf b0))"
      using store_slot [of "slots_size sl" dd "b_buf b0" "slot_header (h_caplen h) (?base + c)"
          "concat (map (slot_bytes ?base) sl)"] written len
      by (auto simp: bind_eq_Some_conv)
    have data: "bytes_of d (h_caplen h) = Some dd" using cap(1) by (simp add: dd_def)
    have sum: "ucast (5 + h_caplen h) = (word_of_nat (5 + unat (h_caplen h)) :: u64)"
      unfolding need [symmetric] by simp
    have "\<not> (b_cap b0 < word_of_nat (slots_size sl) + ucast (5 + h_caplen h))"
      using written bcap full by simp
    moreover have "slots_size sl + 5 + length dd \<le> ?cap" using written len by simp
    ultimately show ?thesis
      using written(1) by (simp add: base ring_step_def used b1 data slot len) (simp add: sum)
  qed
qed

interpretation ring: packet_callback "BufferCallBack e pi0" "ring_inv e b0" "\<lambda>_ _. False" storable
proof unfold_locales
  fix seen b x assume "ring_inv e b0 seen b" and "storable x"
  then show "\<exists>s' brk. BufferCallBack e pi0 b x = Some (s', brk) \<and>
      (if brk then \<lambda>_ _. False else ring_inv e b0) (seen @ [x]) s'"
    using BufferCallBack_step [of b0 x e pi0 seen]
    by (intro exI [of _ "ring_state e b0 (seen @ [x])"] exI [of _ False]) (simp add: ring_inv_def)
qed

section \<open>From the arguments to the run\<close>

text \<open>What a call leaves in the buffer and returns, from the slots, drops and overflows of its run.\<close>

definition buffer_result ::
  "mt_classcfg \<Rightarrow> u8 list \<Rightarrow> nat list \<Rightarrow> (nat \<times> u8 list) list \<times> nat \<times> nat
     \<Rightarrow> u8 list option \<times> nat \<times> u64 list cret" where
  "buffer_result config view cs out = (let (sl, drops, ovf) = out in
     (Some (concat (map (slot_bytes (profile_base config)) sl) @ drop (slots_size sl) view), 1,
      returns ([word_of_nat (length sl), word_of_nat drops, word_of_nat ovf, word_of_nat (slots_size sl)] @
        take (class_count config) (class_counts cs))))"

lemma buffer_run:
  assumes pl: "loop_contract pl src fin brk" and cap: "\<forall>x \<in> set src. storable x"
    and open_pp: "pcap pp = Some h" and cfg: "classcfg_of alloc buffer_msg a = Inr config"
    and mem: "\<forall>k. alloc k" "\<forall>d. a_addr_set a = Some d \<longrightarrow> length d < 2 ^ 32"
    and view: "length view < 2 ^ 63"
  shows "p_loop_to_buffer e alloc pl pi0 (Obj pp) (Inr (view, a)) =
    Some (buffer_result config view (run_classes e alloc a config (offered (a_cnt a) src))
      (ring_run (a_admit_mask a) (length view) (offered (a_cnt a) src)
        (run_classes e alloc a config (offered (a_cnt a) src))))"
proof -
  let ?xs = "offered (a_cnt a) src"
  obtain S where S: "address_set e alloc a = Some S" "wf_set S" "members_of S = watched e a"
    using address_set_ok [OF mem] by blast
  note cfg_ok = classcfg_of_ok [OF cfg]
  have prof: "a_profile a = 0 \<or> a_profile a = 1" using cfg by (rule classcfg_of_Inr)
  define b0 where "b0 = \<lparr>b_buf = view, b_cap = word_of_nat (length view), b_used = 0,
     b_admit_mask = a_admit_mask a, b_ioc = S, b_flowtab = table_of alloc a,
     b_flow_cutoff = cutoff_of a, b_cfg = config, b_written = 0, b_dropped = 0,
     b_overflow = 0, b_cls = replicate 6 0\<rparr>"
  have st: "ring_start b0" using cfg_ok S(2) table_of_ok view by (simp add: ring_start_def b0_def)
  have "ring_inv e b0 [] b0"
    using st by (simp add: ring_inv_def ring_state_def ring_trace_def b0_def class_counts_Nil)
  from ring.run [OF this cap, of pi0 "a_cnt a"] obtain s where
    s: "deliver (BufferCallBack e pi0) b0 ?xs = Some (s, False)" "s = ring_state e b0 ?xs"
    by (auto simp: ring_inv_def)
  obtain ret where pl_eq: "pl (a_cnt a) (BufferCallBack e pi0) b0 = Some (s, ret)"
    using pl s(1) by (simp add: loop_contract_def)
  define cs where "cs = run_classes e alloc a config ?xs"
  obtain ft where cs: "ring_trace e b0 ?xs = (cs, ft)"
    by (simp add: ring_trace_def b0_def cs_def run_classes_def S(3) prod_eq_iff)
  obtain sl drops ovf where r: "ring_run (a_admit_mask a) (length view) ?xs cs = (sl, drops, ovf)"
    by (metis prod_cases3)
  have flds: "b_admit_mask b0 = a_admit_mask a" "b_buf b0 = view" "b_cfg b0 = config" by (simp_all add: b0_def)
  have final: "b_buf s = concat (map (slot_bytes (profile_base config)) sl) @ drop (slots_size sl) view"
    "b_written s = word_of_nat (length sl)" "b_dropped s = word_of_nat drops"
    "b_overflow s = word_of_nat ovf" "b_used s = word_of_nat (slots_size sl)" "b_cls s = class_counts cs"
    by (simp_all add: s(2) ring_state_def cs flds r)
  have tup: "buffer_tuple (a_profile a) s = Some ([word_of_nat (length sl), word_of_nat drops,
      word_of_nat ovf, word_of_nat (slots_size sl)] @ take (class_count config) (class_counts cs))"
    using prof cfg_ok by (auto simp: buffer_tuple_def final class_count_def class_counts_def upt_rec)
  show ?thesis
    using open_pp cfg S(1) pl_eq tup
    by (simp add: p_loop_to_buffer_def b0_def [symmetric] Let_def cs_def [symmetric] r buffer_result_def final)
qed

lemma classcfg_of_msg:
  assumes "classcfg_of alloc m a = Inr config"
  shows "classcfg_of alloc m' a = Inr config"
proof -
  have ok: "\<not> (a_profile a \<noteq> 0 \<and> a_profile a \<noteq> 1)" using assms by (rule classcfg_of_Inr) auto
  have "classcfg_of alloc m' a = classcfg_of alloc m a" unfolding classcfg_of_def if_not_P [OF ok] ..
  with assms show ?thesis by simp
qed

lemma ring_run_data:
  assumes "ring_run am cap xs cs = (sl, drops, ovf)" and "length cs = length xs"
  shows "set sl \<subseteq> set (zip cs (map (\<lambda>x. snd (py_args x)) xs))"
  using assms(2,1)
proof (induction cs xs arbitrary: sl drops ovf rule: rev_induct2)
  case (4 c cs x xs)
  obtain sl0 drops0 ovf0 where r: "ring_run am cap xs cs = (sl0, drops0, ovf0)" by (metis prod_cases3)
  have len: "length cs = length xs" using 4 by simp
  show ?case
    using 4 len r by (auto simp: ring_run_snoc ring_step_def Let_def split: if_splits)
qed simp_all

lemma ring_run_roomy:
  assumes "ring_run am cap xs cs = (sl, drops, ovf)" and "length cs = length xs"
    and "(\<Sum>x\<leftarrow>xs. 5 + length (snd (py_args x))) \<le> cap"
  shows "slots_size sl \<le> (\<Sum>x\<leftarrow>xs. 5 + length (snd (py_args x))) \<and> ovf = 0"
  using assms(2,1,3)
proof (induction cs xs arbitrary: sl drops ovf rule: rev_induct2)
  case (4 c cs x xs)
  obtain sl0 drops0 ovf0 where r: "ring_run am cap xs cs = (sl0, drops0, ovf0)" by (metis prod_cases3)
  have len: "length cs = length xs" using 4 by simp
  have "slots_size sl0 \<le> (\<Sum>x\<leftarrow>xs. 5 + length (snd (py_args x))) \<and> ovf0 = 0"
    using "4.IH" [OF len r] "4.prems"(3) by simp
  then show ?case
    using 4 len r by (auto simp: ring_run_snoc ring_step_def Let_def split: if_splits)
qed simp_all

lemma short_data: "x \<in> set (offered n src) \<Longrightarrow> \<forall>x \<in> set src. storable x \<Longrightarrow> length (snd (py_args x)) < 2 ^ 32"
proof -
  assume x: "x \<in> set (offered n src)" and "\<forall>x \<in> set src. storable x"
  then have "storable x" using set_offered [OF x] by simp
  then show ?thesis by (simp add: storable_def captured_def py_args_def)
qed

text \<open>The outcome of a run in parts: result, bounds, and what the used bytes parse to.\<close>

lemma loop_to_buffer_run_parts:
  assumes "loop_contract pl src fin brk" and "\<forall>x \<in> set src. storable x"
    and "pcap pp = Some h" and "classcfg_of alloc buffer_msg a = Inr config"
    and "\<forall>k. alloc k" and "\<forall>d. a_addr_set a = Some d \<longrightarrow> length d < 2 ^ 32"
    and "length view < 2 ^ 63"
    and r: "ring_run (a_admit_mask a) (length view) (offered (a_cnt a) src)
      (run_classes e alloc a config (offered (a_cnt a) src)) = (sl, drops, ovf)"
  defines "buf \<equiv> concat (map (slot_bytes (profile_base config)) sl) @ drop (slots_size sl) view"
  shows "p_loop_to_buffer e alloc pl pi0 (Obj pp) (Inr (view, a)) = Some (Some buf, 1,
      returns ([word_of_nat (length sl), word_of_nat drops, word_of_nat ovf, word_of_nat (slots_size sl)] @
        take (class_count config) (class_counts (run_classes e alloc a config (offered (a_cnt a) src)))))"
    and "slots_size sl \<le> length view" and "length buf = length view"
    and "drop (slots_size sl) buf = drop (slots_size sl) view"
    and "parse_slots (take (slots_size sl) buf) =
      Some (map (\<lambda>(c, d). (word_of_nat (profile_base config + c), d)) sl)"
proof -
  let ?xs = "offered (a_cnt a) src"
  note len = run_classes_ok(1) [of e alloc a config ?xs]
  show fit: "slots_size sl \<le> length view" using ring_run_accounts [OF r len] by simp
  then show "length buf = length view" "drop (slots_size sl) buf = drop (slots_size sl) view"
    by (simp_all add: buf_def)
  have short: "\<forall>s \<in> set sl. length (snd s) < 2 ^ 32"
    using ring_run_data [OF r len] short_data [OF _ assms(2)] by (auto dest!: subsetD set_zip_rightD)
  have eq: "(\<lambda>s. (word_of_nat (profile_base config + fst s), snd s)) =
      (\<lambda>(c, d). (word_of_nat (profile_base config + c) :: u8, d :: u8 list))" by auto
  show "parse_slots (take (slots_size sl) buf) =
      Some (map (\<lambda>(c, d). (word_of_nat (profile_base config + c), d)) sl)"
    using parse_slots_concat [OF short, of "profile_base config", unfolded eq] by (simp add: buf_def)
  show "p_loop_to_buffer e alloc pl pi0 (Obj pp) (Inr (view, a)) = Some (Some buf, 1,
      returns ([word_of_nat (length sl), word_of_nat drops, word_of_nat ovf, word_of_nat (slots_size sl)] @
        take (class_count config) (class_counts (run_classes e alloc a config ?xs))))"
    unfolding buffer_run [OF assms(1-7)] by (simp add: buffer_result_def r buf_def)
qed

section \<open>Properties\<close>

text \<open>C12: For packets whose slots fit 32 bits (captured length plus five below 2^32; for longer ones see
  \<open>slot_size_wraps\<close>), a buffer below 2^63 bytes, an address list below 4 GiB and memory available,
  \<open>loop_to_buffer()\<close> does not write outside the buffer; the bytes it reports as used parse back to
  the sequence of class ids and packets that its run wrote, the bytes behind them are untouched, and
  the buffer is released exactly once.\<close>

theorem loop_to_buffer_stream:
  assumes "loop_contract pl src fin brk" and "\<forall>x \<in> set src. storable x"
    and "pcap pp = Some h" and "classcfg_of alloc buffer_msg a = Inr config"
    and "\<forall>k. alloc k" and "\<forall>d. a_addr_set a = Some d \<longrightarrow> length d < 2 ^ 32"
    and "length view < 2 ^ 63"
  shows "\<exists>buf counts used. p_loop_to_buffer e alloc pl pi0 (Obj pp) (Inr (view, a)) =
      Some (Some buf, 1, returns counts) \<and>
    length buf = length view \<and> used \<le> length view \<and> counts ! 3 = word_of_nat used \<and>
    drop used buf = drop used view \<and>
    parse_slots (take used buf) = Some (map (\<lambda>(c, d). (word_of_nat (profile_base config + c), d))
      (fst (ring_run (a_admit_mask a) (length view) (offered (a_cnt a) src)
        (run_classes e alloc a config (offered (a_cnt a) src)))))"
proof -
  obtain sl drops ovf where r: "ring_run (a_admit_mask a) (length view) (offered (a_cnt a) src)
      (run_classes e alloc a config (offered (a_cnt a) src)) = (sl, drops, ovf)"
    by (metis prod_cases3)
  note parts = loop_to_buffer_run_parts [OF assms r]
  show ?thesis
    by (intro exI conjI, rule parts(1), rule parts(3), rule parts(2), simp, rule parts(4))
      (simp only: parts(5) r fst_conv)
qed

text \<open>For the witnesses: what the default configuration and two small packets satisfy.\<close>

lemma storable_samples [simp]: "storable (sample_packet [])" "storable (sample_packet [0, 0])"
  by (simp_all add: storable_def sample_packet_def captured_def)

theorem loop_to_buffer_stream_witness:
  "\<exists>buf counts used. p_loop_to_buffer Little (\<lambda>_. True) (reference_loop [sample_packet [0, 0]] 0 0) no_info
      (Obj sample_object) (Inr (replicate 16 0, default_args 0)) = Some (Some buf, 1, returns counts) \<and>
    length buf = length (replicate 16 0 :: u8 list) \<and> used \<le> length (replicate 16 0 :: u8 list) \<and>
    counts ! 3 = word_of_nat used \<and> drop used buf = drop used (replicate 16 0) \<and>
    parse_slots (take used buf) = Some (map (\<lambda>(c, d). (word_of_nat (profile_base (default_cfg 0) + c), d))
      (fst (ring_run (a_admit_mask (default_args 0)) (length (replicate 16 0 :: u8 list))
        (offered (a_cnt (default_args 0)) [sample_packet [0, 0]])
        (run_classes Little (\<lambda>_. True) (default_args 0) (default_cfg 0)
          (offered (a_cnt (default_args 0)) [sample_packet [0, 0]])))))"
  by (rule loop_to_buffer_stream [OF reference_loop_contract _ _ default_args_cfg]) simp_all

text \<open>C33: with memory available and packets whose slots fit 32 bits, every packet is written, dropped or
  counted as overflow, exactly once, and the class counters
  add up to the same number: overflowing packets are still classified and counted.\<close>

theorem loop_to_buffer_conservation:
  assumes "loop_contract pl src fin brk" and "\<forall>x \<in> set src. storable x"
    and "pcap pp = Some h" and "classcfg_of alloc buffer_msg a = Inr config"
    and "\<forall>k. alloc k" and "\<forall>d. a_addr_set a = Some d \<longrightarrow> length d < 2 ^ 32"
    and "length view < 2 ^ 63"
  shows "\<exists>buf written dropped overflow used classes.
    p_loop_to_buffer e alloc pl pi0 (Obj pp) (Inr (view, a)) =
      Some (Some buf, 1, returns ([written, dropped, overflow, used] @ classes)) \<and>
    length classes = class_count config \<and>
    written + dropped + overflow = word_of_nat (length (offered (a_cnt a) src)) \<and>
    sum_list classes = word_of_nat (length (offered (a_cnt a) src))"
proof -
  let ?xs = "offered (a_cnt a) src" and ?cs = "run_classes e alloc a config (offered (a_cnt a) src)"
  obtain sl drops ovf where r: "ring_run (a_admit_mask a) (length view) ?xs ?cs = (sl, drops, ovf)"
    by (metis prod_cases3)
  note len = run_classes_ok(1) [of e alloc a config ?xs]
  have "(\<Sum>i\<leftarrow>[0..<class_count config]. count_list ?cs i) = length ?cs"
    using run_classes_ok(2) by (intro sum_class_counts) blast
  then have classes: "sum_list (take (class_count config) (class_counts ?cs)) = word_of_nat (length ?xs)"
    using len by (simp add: class_counts_def take_map sum_word_counts class_count_le min_absorb1)
  have "word_of_nat (length sl) + word_of_nat drops + word_of_nat ovf = (word_of_nat (length ?xs) :: u64)"
    using ring_run_accounts [OF r len] by (metis of_nat_add)
  moreover have "length (take (class_count config) (class_counts ?cs)) = class_count config"
    using class_count_le [of config] by (simp add: class_counts_def)
  moreover have "p_loop_to_buffer e alloc pl pi0 (Obj pp) (Inr (view, a)) =
      Some (Some (concat (map (slot_bytes (profile_base config)) sl) @ drop (slots_size sl) view), 1,
        returns ([word_of_nat (length sl), word_of_nat drops, word_of_nat ovf, word_of_nat (slots_size sl)] @
          take (class_count config) (class_counts ?cs)))"
    unfolding buffer_run [OF assms] by (simp add: buffer_result_def r)
  ultimately show ?thesis using classes by blast
qed

theorem loop_to_buffer_conservation_witness:
  "\<exists>buf written dropped overflow used classes.
    p_loop_to_buffer Little (\<lambda>_. True) (reference_loop [sample_packet [0, 0], sample_packet []] 0 0) no_info
      (Obj sample_object) (Inr (replicate 6 0, default_args 0)) =
      Some (Some buf, 1, returns ([written, dropped, overflow, used] @ classes)) \<and>
    length classes = class_count (default_cfg 0) \<and>
    written + dropped + overflow = word_of_nat (length (offered (a_cnt (default_args 0))
      [sample_packet [0, 0], sample_packet []])) \<and>
    sum_list classes = word_of_nat (length (offered (a_cnt (default_args 0))
      [sample_packet [0, 0], sample_packet []]))"
  by (rule loop_to_buffer_conservation [OF reference_loop_contract _ _ default_args_cfg]) simp_all

text \<open>C9: when the buffer has room for all packets, each of which fits a slot, no callback raises, the
  capture is read without an error and memory is available, \<open>loop_to_buffer()\<close> and \<open>loop_filtered()\<close> agree: the
  slots are the callback invocations of the other method, class id and bytes, in the same order, and
  the class counters are equal.\<close>

theorem loop_to_buffer_agrees:
  assumes "loop_contract pl src 0 brk" and "loop_contract pl' src 0 brk'"
    and "\<forall>x \<in> set src. storable x"
    and "pcap pp = Some h" and "classcfg_of alloc buffer_msg a = Inr config"
    and "\<forall>k. alloc k" and "\<forall>d. a_addr_set a = Some d \<longrightarrow> length d < 2 ^ 32"
    and "length view < 2 ^ 63" and "\<forall>cs. py cs = None"
    and "(\<Sum>x\<leftarrow>offered (a_cnt a) src. 5 + length (snd (py_args x))) \<le> length view"
  shows "\<exists>buf counts used pp' made r.
    p_loop_to_buffer e alloc pl pi0 (Obj pp) (Inr (view, a)) = Some (Some buf, 1, returns counts) \<and>
    p_loop_filtered e alloc pl' geterr pi0 py (Obj pp) (Inr a) = Some (Obj pp', made, r) \<and>
    counts ! 3 = word_of_nat used \<and>
    parse_slots (take used buf) = Some (map (\<lambda>(hdr, data, cls). (word_of_nat cls, data)) made) \<and>
    drop 4 counts = take (class_count config) (drop 2 (filt_counts pp'))"
proof -
  let ?xs = "offered (a_cnt a) src" and ?cs = "run_classes e alloc a config (offered (a_cnt a) src)"
  obtain sl drops ovf where r: "ring_run (a_admit_mask a) (length view) ?xs ?cs = (sl, drops, ovf)"
    by (metis prod_cases3)
  note len = run_classes_ok(1) [of e alloc a config ?xs]
  have "ovf = 0" using ring_run_roomy [OF r len] assms(10) by simp
  then have sl: "sl = filter (\<lambda>s. admits (a_admit_mask a) (fst s)) (zip ?cs (map (\<lambda>x. snd (py_args x)) ?xs))"
    using ring_run_accounts [OF r len] by simp
  have same: "map (\<lambda>(c, d). (word_of_nat (b + c) :: u8, d))
        (filter (\<lambda>s. P (fst s)) (zip cs (map (\<lambda>x. snd (py_args x)) xs))) =
      map (\<lambda>(hdr, data, cls). (word_of_nat cls, data))
        (map (\<lambda>(x, c). (fst (py_args x), snd (py_args x), b + c)) (filter (\<lambda>(x, c). P c) (zip xs cs)))"
    if "length cs = length xs" for b P and cs :: "nat list" and xs
    using that by (induction cs xs rule: list_induct2) auto
  have cap: "\<forall>x \<in> set src. captured x" using assms(3) by (simp add: storable_def)
  have filtered: "p_loop_filtered e alloc pl' geterr pi0 py (Obj pp) (Inr a) =
      Some (counted_object e alloc pp a config ?xs, run_calls e alloc a config ?xs,
        returns (take (2 + class_count config) (tally (a_admit_mask a) ?cs)))"
    using filtered_run [OF assms(2) cap assms(4) classcfg_of_msg [OF assms(5)] assms(6,7), of py e geterr pi0]
      assms(9) by (auto simp: Let_def loop_end_def first_raise_def)
  note parts = loop_to_buffer_run_parts [OF assms(1,3-8) r]
  have parsed: "parse_slots (take (slots_size sl) (concat (map (slot_bytes (profile_base config)) sl) @
        drop (slots_size sl) view)) =
      Some (map (\<lambda>(hdr, data, cls). (word_of_nat cls, data)) (run_calls e alloc a config ?xs))"
    unfolding parts(5) run_calls_def admitted_calls_def same [OF len, symmetric] by (simp only: sl)
  show ?thesis
    by (intro exI conjI, rule parts(1), rule filtered [unfolded counted_object_def], simp, rule parsed)
      (simp add: tally_def class_counts_def numeral_2_eq_2)
qed

theorem loop_to_buffer_agrees_witness:
  "\<exists>buf counts used pp' made r.
    p_loop_to_buffer Little (\<lambda>_. True) (reference_loop [sample_packet [0, 0]] 0 0) no_info
      (Obj sample_object) (Inr (replicate 16 0, default_args 0)) = Some (Some buf, 1, returns counts) \<and>
    p_loop_filtered Little (\<lambda>_. True) (reference_loop [sample_packet [0, 0]] 0 0) (\<lambda>_. []) no_info (\<lambda>_. None)
      (Obj sample_object) (Inr (default_args 0)) = Some (Obj pp', made, r) \<and>
    counts ! 3 = word_of_nat used \<and>
    parse_slots (take used buf) = Some (map (\<lambda>(hdr, data, cls). (word_of_nat cls, data)) made) \<and>
    drop 4 counts = take (class_count (default_cfg 0)) (drop 2 (filt_counts pp'))"
  by (rule loop_to_buffer_agrees [OF reference_loop_contract reference_loop_contract _ _ default_args_cfg])
    (simp_all, simp add: offered_def py_args_def sample_packet_def)

text \<open>The method ignores how the loop ended: a capture that breaks off with a read error gives the
  very result of one that reaches its end.\<close>

theorem loop_to_buffer_swallows_errors:
  assumes "loop_contract pl src (- 1) brk" and "loop_contract pl' src 0 brk'"
    and "\<forall>x \<in> set src. storable x"
    and "pcap pp = Some h" and "classcfg_of alloc buffer_msg a = Inr config"
    and "\<forall>k. alloc k" and "\<forall>d. a_addr_set a = Some d \<longrightarrow> length d < 2 ^ 32"
    and "length view < 2 ^ 63"
  shows "p_loop_to_buffer e alloc pl pi0 (Obj pp) (Inr (view, a)) =
      p_loop_to_buffer e alloc pl' pi0 (Obj pp) (Inr (view, a)) \<and>
    (\<exists>res. p_loop_to_buffer e alloc pl pi0 (Obj pp) (Inr (view, a)) = Some res \<and>
       conventional (snd (snd res)) \<and> snd (snd (snd res)) = None)"
  unfolding buffer_run [OF assms(1,3-8)] buffer_run [OF assms(2,3-8)]
  by (simp add: buffer_result_def Let_def split: prod.split)

theorem loop_to_buffer_swallows_errors_witness:
  "p_loop_to_buffer Big (\<lambda>_. True) (reference_loop [sample_packet []] (- 1) 0) no_info
      (Obj sample_object) (Inr (replicate 16 0, default_args 0)) =
    p_loop_to_buffer Big (\<lambda>_. True) (reference_loop [sample_packet []] 0 0) no_info
      (Obj sample_object) (Inr (replicate 16 0, default_args 0)) \<and>
    (\<exists>res. p_loop_to_buffer Big (\<lambda>_. True) (reference_loop [sample_packet []] (- 1) 0) no_info
      (Obj sample_object) (Inr (replicate 16 0, default_args 0)) = Some res \<and>
       conventional (snd (snd res)) \<and> snd (snd (snd res)) = None)"
  by (rule loop_to_buffer_swallows_errors
      [OF reference_loop_contract reference_loop_contract _ _ default_args_cfg]) simp_all

end
