(* ===== verification/Batch.thy ===== *)
theory Batch
  imports Loops
begin

text \<open>
  \<open>next_batch()\<close> of \<open>src/pcapobj.cc\<close>: the callback that appends packets to a growing buffer and
  records their time, offset and length, and the method that returns both as byte strings.

  \<open>alloc n\<close> says whether an allocation (or reallocation) of \<open>n\<close> bytes succeeds. Fresh memory holds
  the arbitrary byte \<open>fill\<close>, fresh records the arbitrary record \<open>junk\<close>.
\<close>

section \<open>The callback\<close>

record BatchMeta =
  m_sec :: u32
  m_usec :: u32
  m_off :: u32
  m_len :: u32

record BatchCtx =
  t_buf :: "u8 list"
  t_cap :: u64
  t_used :: u64
  t_meta :: "BatchMeta list"
  t_mcap :: u32
  t_n :: u32

text \<open>A block of \<open>n\<close> elements that starts with the old contents.\<close>

definition resize :: "'a \<Rightarrow> nat \<Rightarrow> 'a list \<Rightarrow> 'a list" where
  "resize fill n xs = take n xs @ replicate (n - length xs) fill"

text \<open>Making room for \<open>cl\<close> bytes, and for one more record; \<open>None\<close> when the reallocation fails and the
  callback returns.\<close>

definition grow_buf :: "(nat \<Rightarrow> bool) \<Rightarrow> u8 \<Rightarrow> u64 \<Rightarrow> BatchCtx \<Rightarrow> BatchCtx option" where
  "grow_buf alloc fill cl b =
     (if t_cap b < t_used b + cl
      then let nc0 = t_cap b * 2;
               nc = (if nc0 < t_used b + cl + 4096 then t_used b + cl + 4096 else nc0) in
        if alloc (unat nc) then Some (b\<lparr>t_buf := resize fill (unat nc) (t_buf b), t_cap := nc\<rparr>) else None
      else Some b)"

definition grow_meta :: "(nat \<Rightarrow> bool) \<Rightarrow> BatchMeta \<Rightarrow> BatchCtx \<Rightarrow> BatchCtx option" where
  "grow_meta alloc junk b =
     (if t_mcap b \<le> t_n b
      then let nm0 = t_mcap b * 2; nm = (if nm0 = 0 then 256 else nm0) in
        if alloc (unat nm * 16) then Some (b\<lparr>t_meta := resize junk (unat nm) (t_meta b), t_mcap := nm\<rparr>) else None
      else Some b)"

text \<open>\<open>memcpy(b->buf + off, data, cl)\<close>: a fault unless both blocks are long enough.\<close>

definition copy_in :: "u8 list \<Rightarrow> nat \<Rightarrow> u8 list \<Rightarrow> u32 \<Rightarrow> u8 list option" where
  "copy_in buf off d cl = do {
     data \<leftarrow> bytes_of d cl;
     if off + length data \<le> length buf
     then Some (take off buf @ data @ drop (off + length data) buf) else None }"

definition BatchCallBack ::
  "(nat \<Rightarrow> bool) \<Rightarrow> u8 \<Rightarrow> BatchMeta \<Rightarrow> BatchCtx \<Rightarrow> packet \<Rightarrow> (BatchCtx \<times> bool) option" where
  "BatchCallBack alloc fill junk b = (\<lambda>(h, data).
     let cl = h_caplen h in
     case grow_buf alloc fill (ucast cl) b of None \<Rightarrow> Some (b, False)
     | Some b1 \<Rightarrow>
       (case grow_meta alloc junk b1 of None \<Rightarrow> Some (b1, False)
        | Some b2 \<Rightarrow> do {
            buf \<leftarrow> copy_in (t_buf b2) (unat (t_used b2)) data cl;
            ms \<leftarrow> wr (t_meta b2) (t_n b2)
              \<lparr>m_sec = ucast (tv_sec h), m_usec = ucast (tv_usec h), m_off = ucast (t_used b2), m_len = cl\<rparr>;
            Some (b2\<lparr>t_buf := buf, t_meta := ms, t_used := t_used b2 + ucast cl, t_n := t_n b2 + 1\<rparr>, False) }))"

section \<open>next_batch()\<close>

text \<open>The bytes of \<open>struct BatchMeta\<close>: four native words.\<close>

definition meta_bytes :: "endian \<Rightarrow> BatchMeta \<Rightarrow> u8 list" where
  "meta_bytes e m = bytes_of_word e (m_sec m) @ bytes_of_word e (m_usec m) @
     bytes_of_word e (m_off m) @ bytes_of_word e (m_len m)"

definition p_next_batch ::
  "endian \<Rightarrow> (nat \<Rightarrow> bool) \<Rightarrow> u8 \<Rightarrow> BatchMeta \<Rightarrow> BatchCtx pcap_loop \<Rightarrow> (nat \<Rightarrow> string) \<Rightarrow>
     pcapobject pyobj \<Rightarrow> exn + cint \<Rightarrow> (u8 list \<times> u8 list) cret option" where
  "p_next_batch e alloc fill junk pd geterr self args =
     check_open self (\<lambda>ex. Some (raises ex)) (\<lambda>pp h.
       case args of Inl ex \<Rightarrow> Some (raises ex)
       | Inr n \<Rightarrow>
         let max_n = (if sint n \<le> 0 then 256 else n) in
         if \<not> alloc 65536 \<or> \<not> alloc (unat max_n * 16) then Some (raises NoMemory)
         else do {
           (b, ret) \<leftarrow> pd (sint max_n) (BatchCallBack alloc fill junk)
             \<lparr>t_buf = replicate 65536 fill, t_cap = 65536, t_used = 0,
              t_meta = replicate (unat max_n) junk, t_mcap = max_n, t_n = 0\<rparr>;
           if ret < 0 \<and> ret \<noteq> - 2 then Some (raises (PcapError (geterr h)))
           else if \<not> alloc (unat (t_used b)) \<or> \<not> alloc (unat (t_n b) * 16) then Some (raises NoMemory)
           else if unat (t_used b) \<le> length (t_buf b) \<and> unat (t_n b) \<le> length (t_meta b)
           then Some (returns (take (unat (t_used b)) (t_buf b),
                  concat (map (meta_bytes e) (take (unat (t_n b)) (t_meta b)))))
           else None })"

section \<open>The contents of a batch\<close>

text \<open>The records of packets whose bytes start at offset \<open>off\<close>, and all their bytes.\<close>

fun batch_records :: "nat \<Rightarrow> packet list \<Rightarrow> BatchMeta list" where
  "batch_records off [] = []"
| "batch_records off (x # xs) =
     \<lparr>m_sec = ucast (tv_sec (fst x)), m_usec = ucast (tv_usec (fst x)), m_off = word_of_nat off,
      m_len = h_caplen (fst x)\<rparr> # batch_records (off + unat (h_caplen (fst x))) xs"

definition batch_bytes :: "packet list \<Rightarrow> u8 list" where
  "batch_bytes xs = concat (map (\<lambda>x. snd (py_args x)) xs)"

definition batch_size :: "packet list \<Rightarrow> nat" where
  "batch_size xs = (\<Sum>x\<leftarrow>xs. unat (h_caplen (fst x)))"

lemma batch_simps [simp]:
  "batch_bytes [] = []" "batch_bytes (xs @ [x]) = batch_bytes xs @ snd (py_args x)"
  "batch_size [] = 0" "batch_size (xs @ [x]) = batch_size xs + unat (h_caplen (fst x))"
  by (simp_all add: batch_bytes_def batch_size_def)

lemma batch_records_snoc:
  "batch_records off (xs @ [x]) = batch_records off xs @
     [\<lparr>m_sec = ucast (tv_sec (fst x)), m_usec = ucast (tv_usec (fst x)),
       m_off = word_of_nat (off + batch_size xs), m_len = h_caplen (fst x)\<rparr>]"
  by (induction xs arbitrary: off) (simp_all add: batch_size_def add.assoc)

lemma length_batch_records [simp]: "length (batch_records off xs) = length xs"
  by (induction xs arbitrary: off) simp_all

lemma batch_size_le: "batch_size xs \<le> length xs * (2 ^ 32 - 1)"
proof (induction xs)
  case (Cons x xs)
  have "unat (h_caplen (fst x)) < 4294967296" by (rule unat_less_u32)
  then have "unat (h_caplen (fst x)) \<le> 4294967295" by linarith
  with Cons show ?case by (simp add: batch_size_def)
qed simp

section \<open>The callback keeps its books\<close>

text \<open>While memory lasts: everything delivered is in the buffer, nothing else is.\<close>

definition batch_inv :: "nat \<Rightarrow> packet list \<Rightarrow> BatchCtx \<Rightarrow> bool" where
  "batch_inv M seen b \<longleftrightarrow> M < 2 ^ 31 \<and> length seen \<le> M \<and>
     length (t_buf b) = unat (t_cap b) \<and> unat (t_used b) = batch_size seen \<and>
     batch_size seen \<le> unat (t_cap b) \<and> unat (t_cap b) \<le> 2 * batch_size seen + 69632 \<and>
     take (batch_size seen) (t_buf b) = batch_bytes seen \<and>
     length (t_meta b) = M \<and> unat (t_mcap b) = M \<and> unat (t_n b) = length seen \<and>
     take (length seen) (t_meta b) = batch_records 0 seen"

lemma grow_buf_ok:
  assumes "unat (t_used b) + unat cl < 2 ^ 63 - 2 ^ 13" and "unat (t_used b) \<le> unat (t_cap b)"
    and "length (t_buf b) = unat (t_cap b)" and "\<forall>k. alloc k"
    and "unat (t_cap b) \<le> 2 * unat (t_used b) + 69632"
  shows "\<exists>buf c. grow_buf alloc fill cl b = Some (b\<lparr>t_buf := buf, t_cap := c\<rparr>) \<and>
    length buf = unat c \<and> unat (t_used b) + unat cl \<le> unat c \<and>
    unat c \<le> 2 * (unat (t_used b) + unat cl) + 69632 \<and>
    take (unat (t_used b)) buf = take (unat (t_used b)) (t_buf b)"
proof -
  have sum: "unat (t_used b + cl) = unat (t_used b) + unat cl"
    "unat (t_used b + cl + 4096) = unat (t_used b) + unat cl + 4096"
    using assms(1) by (simp_all add: unat_word_ariths)
  show ?thesis
  proof (cases "t_cap b < t_used b + cl")
    case False
    then show ?thesis using assms sum
      by (intro exI [of _ "t_buf b"] exI [of _ "t_cap b"]) (simp add: grow_buf_def word_less_nat_alt)
  next
    case True
    then have cap: "unat (t_cap b) < unat (t_used b) + unat cl" using sum by (simp add: word_less_nat_alt)
    then have dbl: "unat (t_cap b * 2) = unat (t_cap b) * 2" using assms(1) by (simp add: unat_word_ariths)
    define nc where "nc = (if t_cap b * 2 < t_used b + cl + 4096 then t_used b + cl + 4096 else t_cap b * 2)"
    have nc: "unat nc = max (unat (t_cap b) * 2) (unat (t_used b) + unat cl + 4096)"
      using dbl sum by (simp add: nc_def word_less_nat_alt max_def)
    have "grow_buf alloc fill cl b = Some (b\<lparr>t_buf := resize fill (unat nc) (t_buf b), t_cap := nc\<rparr>)"
      using True assms(4) by (simp add: grow_buf_def nc_def Let_def)
    moreover have "take (unat (t_used b)) (resize fill (unat nc) (t_buf b)) = take (unat (t_used b)) (t_buf b)"
      using assms(2,3) nc by (simp add: resize_def min_def)
    ultimately show ?thesis using nc cap assms(3)
      by (intro exI [of _ "resize fill (unat nc) (t_buf b)"] exI [of _ nc]) (simp add: resize_def max_def)
  qed
qed

lemma BatchCallBack_step:
  assumes inv: "batch_inv M seen b" and cap: "captured x" and room: "length seen < M" and mem: "\<forall>k. alloc k"
  shows "\<exists>b'. BatchCallBack alloc fill junk b x = Some (b', False) \<and> batch_inv M (seen @ [x]) b'"
proof -
  obtain h d where x: "x = (h, d)" by fastforce
  define dd where "dd = snd (py_args x)"
  let ?cl = "ucast (h_caplen h) :: u64"
  have cl: "unat ?cl = unat (h_caplen h)" by (rule unat_ucast_u64)
  have len: "length dd = unat (h_caplen h)" and data: "bytes_of d (h_caplen h) = Some dd"
    using cap by (simp_all add: dd_def x py_args_def captured_def bytes_of_def)
  have u: "unat (t_used b) = batch_size seen" and M: "M < 2 ^ 31" using inv by (simp_all add: batch_inv_def)
  have "batch_size (seen @ [x]) \<le> length (seen @ [x]) * (2 ^ 32 - 1)" by (rule batch_size_le)
  also have "\<dots> \<le> (2 ^ 31 - 1) * (2 ^ 32 - 1)" using room M by (intro mult_right_mono) simp_all
  finally have total: "batch_size seen + unat (h_caplen h) < 2 ^ 63 - 2 ^ 13" by (simp add: x)
  obtain buf c where g: "grow_buf alloc fill ?cl b = Some (b\<lparr>t_buf := buf, t_cap := c\<rparr>)"
    "length buf = unat c" "batch_size seen + unat (h_caplen h) \<le> unat c"
    "unat c \<le> 2 * (batch_size seen + unat (h_caplen h)) + 69632"
    "take (batch_size seen) buf = batch_bytes seen"
    using grow_buf_ok [of b ?cl alloc fill] inv mem total by (auto simp: batch_inv_def cl u)
  have m: "\<not> t_mcap b \<le> t_n b" using inv room by (simp add: batch_inv_def word_le_nat_alt)
  define b' where "b' = b\<lparr>t_buf := take (batch_size seen) buf @ dd @ drop (batch_size seen + length dd) buf, t_cap := c,
    t_meta := (t_meta b)[length seen := \<lparr>m_sec = ucast (tv_sec h), m_usec = ucast (tv_usec h),
      m_off = ucast (t_used b), m_len = h_caplen h\<rparr>],
    t_used := t_used b + ?cl, t_n := t_n b + 1\<rparr>"
  have "BatchCallBack alloc fill junk b x = Some (b', False)"
  proof -
    let ?b1 = "b\<lparr>t_buf := buf, t_cap := c\<rparr>"
    have "grow_meta alloc junk ?b1 = Some ?b1" using m by (simp add: grow_meta_def)
    moreover have "copy_in buf (batch_size seen) d (h_caplen h) =
        Some (take (batch_size seen) buf @ dd @ drop (batch_size seen + length dd) buf)"
      using g(2,3) len data by (simp add: copy_in_def)
    moreover have "wr (t_meta b) (t_n b) r = Some ((t_meta b)[length seen := r])" for r
      using inv room by (simp add: batch_inv_def wr_def)
    ultimately show ?thesis using g(1) by (simp add: BatchCallBack_def x u b'_def Let_def)
  qed
  moreover have "batch_inv M (seen @ [x]) b'"
  proof -
    have used: "unat (t_used b + ?cl) = batch_size seen + unat (h_caplen h)"
      using total by (simp add: unat_word_ariths u cl)
    have nn: "unat (t_n b + 1) = length seen + 1"
      using inv room M by (subst unat_plus_one) (simp_all add: batch_inv_def)
    have off: "(ucast (t_used b) :: u32) = word_of_nat (batch_size seen)"
      by (simp flip: u)
    have "take (Suc (length seen)) ((t_meta b)[length seen := r]) = batch_records 0 seen @ [r]" for r
      using inv room by (simp add: batch_inv_def take_Suc_conv_app_nth)
    moreover have "length (t_meta b) = M" "unat (t_mcap b) = M"
      using inv by (simp_all add: batch_inv_def)
    moreover have "snd (py_args (h, d)) = dd" by (simp add: dd_def x)
    moreover have "length (batch_bytes seen) = batch_size seen"
      using g(2,3) unfolding g(5) [symmetric] by simp
    ultimately show ?thesis
      unfolding batch_inv_def using g(2-5) room len used nn M
      by (intro conjI) (simp_all add: b'_def batch_records_snoc x off)
  qed
  ultimately show ?thesis by blast
qed

interpretation batch: bounded_callback "BatchCallBack alloc fill junk" "batch_inv M" "\<lambda>_ _. False" captured
  "\<lambda>seen. length seen < M \<and> (\<forall>k. alloc k)"
proof unfold_locales
  fix seen b x assume "batch_inv M seen b" "captured x" "length seen < M \<and> (\<forall>k. alloc k)"
  then obtain b' where "BatchCallBack alloc fill junk b x = Some (b', False)" "batch_inv M (seen @ [x]) b'"
    using BatchCallBack_step [of M seen b x alloc fill junk] by blast
  then show "\<exists>s' brk. BatchCallBack alloc fill junk b x = Some (s', brk) \<and>
      (if brk then \<lambda>_ _. False else batch_inv M) (seen @ [x]) s'"
    by (intro exI [of _ b'] exI [of _ False]) simp
qed

section \<open>The consumer\<close>

text \<open>Unpacking the record string and slicing the packets out of the byte string, as documented:
  16 bytes per record, four native words (seconds, microseconds, offset, length).\<close>

function unpack_records :: "endian \<Rightarrow> u8 list \<Rightarrow> (u32 \<times> u32 \<times> u32 \<times> u32) list" where
  "unpack_records e bs = (case packed_addrs e (take 16 bs) of
     [s, u, off, n] \<Rightarrow> (s, u, off, n) # unpack_records e (drop 16 bs)
   | _ \<Rightarrow> [])"
  by pat_completeness auto
termination
proof (relation "measure (\<lambda>(e, bs). length bs)", goal_cases)
  case (2 e bs s v u w off z n)
  then have "bs \<noteq> []" by auto
  then show ?case by simp
qed simp

declare unpack_records.simps [simp del]

definition slice :: "u8 list \<Rightarrow> u32 \<Rightarrow> u32 \<Rightarrow> u8 list" where
  "slice bs off n = take (unat n) (drop (unat off) bs)"

definition unpack_batch :: "endian \<Rightarrow> u8 list \<times> u8 list \<Rightarrow> (u32 \<times> u32 \<times> u8 list) list" where
  "unpack_batch e res =
     map (\<lambda>(s, u, off, n). (s, u, slice (fst res) off n)) (unpack_records e (snd res))"

lemma length_meta_bytes [simp]: "length (meta_bytes e m) = 16"
  by (simp add: meta_bytes_def)

lemma unpack_records_Cons:
  "unpack_records e (meta_bytes e m @ r) = (m_sec m, m_usec m, m_off m, m_len m) # unpack_records e r"
proof -
  have "packed_addrs e (meta_bytes e m @ []) = [m_sec m, m_usec m, m_off m, m_len m]"
    unfolding meta_bytes_def append_assoc by (simp only: packed_addrs_bytes) (cases e; simp)
  then show ?thesis by (subst unpack_records.simps) simp
qed

lemma unpack_records_concat:
  "unpack_records e (concat (map (meta_bytes e) ms)) = map (\<lambda>m. (m_sec m, m_usec m, m_off m, m_len m)) ms"
proof (induction ms)
  case Nil
  show ?case by (subst unpack_records.simps) simp
qed (simp add: unpack_records_Cons)

text \<open>Slicing by the records of a batch gives the packets back while offsets fit 32 bits.\<close>

lemma length_batch_bytes: "\<forall>x \<in> set xs. captured x \<Longrightarrow> length (batch_bytes xs) = batch_size xs"
  by (induction xs) (simp_all add: batch_bytes_def batch_size_def py_args_def captured_def)

lemma slices_of_records:
  assumes "\<forall>x \<in> set xs. captured x" and "length pre = off" and "off + batch_size xs < 2 ^ 32"
  shows "map (\<lambda>m. slice (pre @ batch_bytes xs) (m_off m) (m_len m)) (batch_records off xs) =
    map (\<lambda>x. snd (py_args x)) xs"
  using assms
proof (induction xs arbitrary: pre off)
  case (Cons x xs)
  have len: "length (snd (py_args x)) = unat (h_caplen (fst x))"
    using Cons.prems(1) by (simp add: py_args_def captured_def)
  have "off < 2 ^ 32" using Cons.prems(3) by simp
  then have "slice (pre @ batch_bytes (x # xs)) (word_of_nat off) (h_caplen (fst x)) = snd (py_args x)"
    using len Cons.prems(2) by (simp add: slice_def batch_bytes_def unat_of_nat)
  moreover have "map (\<lambda>m. slice ((pre @ snd (py_args x)) @ batch_bytes xs) (m_off m) (m_len m))
      (batch_records (off + unat (h_caplen (fst x))) xs) = map (\<lambda>x. snd (py_args x)) xs"
    using Cons.prems len by (intro Cons.IH) (simp_all add: batch_size_def)
  ultimately show ?case by (simp add: batch_bytes_def)
qed simp

section \<open>Properties\<close>

definition batch_count :: "cint \<Rightarrow> cint" where
  "batch_count n = (if sint n \<le> 0 then 256 else n)"

lemma batch_count_bounds: "0 < sint (batch_count n)" "int (unat (batch_count n)) = sint (batch_count n)"
proof -
  show pos: "0 < sint (batch_count n)" by (simp add: batch_count_def)
  have "int (unat (batch_count n)) = uint (batch_count n)" by simp
  also have "\<dots> = sint (batch_count n)" by (rule sint_nonneg) (rule less_imp_le [OF pos])
  finally show "int (unat (batch_count n)) = sint (batch_count n)" .
qed

lemma unat_batch_count: "unat (batch_count n) < 2 ^ 31"
proof -
  have "sint (batch_count n) < 2 ^ 31" using sint_lt [of "batch_count n"] by simp
  then have "int (unat (batch_count n)) < int (2 ^ 31)" using batch_count_bounds(2) [of n] by simp
  then show ?thesis by (simp only: of_nat_less_iff)
qed

lemma map_triple: "map (\<lambda>m. (f m, g m, k m)) ms = zip (map f ms) (zip (map g ms) (map k ms))"
  by (induction ms) simp_all

lemma next_batch_returns:
  assumes "dispatch_contract pd src 0 brk" and "\<forall>x \<in> set src. captured x" and "pcap pp = Some h"
    and "\<forall>k. alloc k"
  shows "p_next_batch e alloc fill junk pd geterr (Obj pp) (Inr n) =
    (let xs = offered (sint (batch_count n)) src in
     Some (returns (batch_bytes xs, concat (map (meta_bytes e) (batch_records 0 xs)))))"
proof -
  let ?xs = "offered (sint (batch_count n)) src" and ?M = "unat (batch_count n)"
  define b0 where "b0 = \<lparr>t_buf = replicate 65536 fill, t_cap = 65536, t_used = 0,
    t_meta = replicate ?M junk, t_mcap = batch_count n, t_n = 0\<rparr>"
  have inv0: "batch_inv ?M [] b0" using unat_batch_count [of n] by (simp add: batch_inv_def b0_def)
  have "length ?xs \<le> nat (sint (batch_count n))"
    using batch_count_bounds(1) [of n] by (simp add: offered_def)
  then have len: "length ?xs \<le> ?M" using batch_count_bounds(2) [of n] by linarith
  have room: "length (take k ?xs) < ?M \<and> (\<forall>k. alloc k)" if "k < length ?xs" for k
    using that len assms(4) by simp
  from batch.run_bounded [OF inv0 assms(2) room, of fill junk] obtain b where
    b: "deliver (BatchCallBack alloc fill junk) b0 ?xs = Some (b, False)" "batch_inv ?M ?xs b" by blast
  have pd: "pd (sint (batch_count n)) (BatchCallBack alloc fill junk) b0 = Some (b, int (length ?xs))"
    using assms(1) b(1) by (simp add: dispatch_contract_def)
  have fin: "unat (t_used b) = batch_size ?xs" "unat (t_n b) = length ?xs" "batch_size ?xs \<le> length (t_buf b)"
    "length ?xs \<le> length (t_meta b)" "take (batch_size ?xs) (t_buf b) = batch_bytes ?xs"
    "take (length ?xs) (t_meta b) = batch_records 0 ?xs"
    using b(2) by (simp_all add: batch_inv_def)
  show ?thesis
    using assms(3,4) pd fin
    by (simp add: p_next_batch_def batch_count_def [symmetric] b0_def [symmetric] Let_def)
qed

text \<open>With memory available, a batch holds exactly the packets of one dispatch, at most \<open>max_n\<close> of
  them (256 for a count that is not positive): their bytes back to back and one record each.\<close>

theorem next_batch_complete:
  assumes "dispatch_contract pd src 0 brk" and "\<forall>x \<in> set src. captured x" and "pcap pp = Some h"
    and "\<forall>k. alloc k"
  shows "p_next_batch e alloc fill junk pd geterr (Obj pp) (Inr n) =
    (let xs = offered (sint (batch_count n)) src in
     Some (returns (batch_bytes xs, concat (map (meta_bytes e) (batch_records 0 xs)))))"
  by (rule next_batch_returns [OF assms])

theorem next_batch_complete_witness:
  "p_next_batch Little (\<lambda>_. True) 0 \<lparr>m_sec = 0, m_usec = 0, m_off = 0, m_len = 0\<rparr>
      (reference_dispatch [sample_packet [0, 0], sample_packet []] 0 0) (\<lambda>_. []) (Obj sample_object) (Inr 1) =
    (let xs = offered (sint (batch_count 1)) [sample_packet [0, 0], sample_packet []] in
     Some (returns (batch_bytes xs, concat (map (meta_bytes Little) (batch_records 0 xs)))))"
  by (rule next_batch_complete [OF reference_dispatch_contract]) simp_all

lemma next_batch_unpacks:
  assumes "dispatch_contract pd src 0 brk" and "\<forall>x \<in> set src. captured x" and "pcap pp = Some h"
    and "\<forall>k. alloc k" and "batch_size (offered (sint (batch_count n)) src) < 2 ^ 32"
  shows "\<exists>res. p_next_batch e alloc fill junk pd geterr (Obj pp) (Inr n) = Some (returns res) \<and>
    unpack_batch e res = map (\<lambda>x. (ucast (tv_sec (fst x)), ucast (tv_usec (fst x)),
      take (unat (h_caplen (fst x))) (snd x))) (offered (sint (batch_count n)) src)"
proof -
  let ?xs = "offered (sint (batch_count n)) src"
  let ?res = "(batch_bytes ?xs, concat (map (meta_bytes e) (batch_records 0 ?xs)))"
  have cap: "\<forall>x \<in> set ?xs. captured x" using assms(2) set_offered by metis
  have slices: "map (\<lambda>m. slice (batch_bytes ?xs) (m_off m) (m_len m)) (batch_records 0 ?xs) =
      map (\<lambda>x. snd (py_args x)) ?xs"
    using slices_of_records [OF cap, of "[]" 0] assms(5) by simp
  have "map m_sec (batch_records off xs) = map (\<lambda>x. ucast (tv_sec (fst x))) xs"
    "map m_usec (batch_records off xs) = map (\<lambda>x. ucast (tv_usec (fst x))) xs" for off xs
    by (induction xs arbitrary: off) simp_all
  with slices have "map (\<lambda>m. (m_sec m, m_usec m, slice (batch_bytes ?xs) (m_off m) (m_len m))) (batch_records 0 ?xs) =
      map (\<lambda>x. (ucast (tv_sec (fst x)), ucast (tv_usec (fst x)), snd (py_args x))) ?xs"
    by (simp only: map_triple)
  then have "unpack_batch e ?res = map (\<lambda>x. (ucast (tv_sec (fst x)), ucast (tv_usec (fst x)),
      take (unat (h_caplen (fst x))) (snd x))) ?xs"
    by (simp add: unpack_batch_def unpack_records_concat py_args_def comp_def)
  then show ?thesis
    using next_batch_returns [OF assms(1-4), of e fill junk geterr n] by (auto simp: Let_def)
qed

text \<open>C15: the documented way to read a batch gives every packet back, with its time, as long as the
  batch is smaller than 4 GiB and memory is available.\<close>

theorem next_batch_recovers:
  assumes "dispatch_contract pd src 0 brk" and "\<forall>x \<in> set src. captured x" and "pcap pp = Some h"
    and "\<forall>k. alloc k" and "batch_size (offered (sint (batch_count n)) src) < 2 ^ 32"
  shows "\<exists>res. p_next_batch e alloc fill junk pd geterr (Obj pp) (Inr n) = Some (returns res) \<and>
    unpack_batch e res = map (\<lambda>x. (ucast (tv_sec (fst x)), ucast (tv_usec (fst x)),
      take (unat (h_caplen (fst x))) (snd x))) (offered (sint (batch_count n)) src)"
  by (rule next_batch_unpacks [OF assms])

theorem next_batch_recovers_witness:
  "\<exists>res. p_next_batch Big (\<lambda>_. True) 0 \<lparr>m_sec = 0, m_usec = 0, m_off = 0, m_len = 0\<rparr>
      (reference_dispatch [sample_packet [0, 0], sample_packet []] 0 0) (\<lambda>_. []) (Obj sample_object) (Inr 0) =
      Some (returns res) \<and>
    unpack_batch Big res = map (\<lambda>x. (ucast (tv_sec (fst x)), ucast (tv_usec (fst x)),
      take (unat (h_caplen (fst x))) (snd x)))
      (offered (sint (batch_count 0)) [sample_packet [0, 0], sample_packet []])"
  by (rule next_batch_recovers [OF reference_dispatch_contract])
    (simp_all, simp add: batch_size_def offered_def batch_count_def sample_packet_def)

text \<open>When the buffer cannot grow, the packet that does not fit disappears: a capture of one large
  packet gives the result of an empty one, which consumers read as the end of the capture.\<close>

theorem next_batch_loses_packet:
  assumes "dispatch_contract pd [x] 0 brk" and "dispatch_contract pd' [] 0 brk'" and "captured x"
    and "pcap pp = Some h" and "65536 < unat (h_caplen (fst x))"
    and "\<forall>k. alloc k \<longleftrightarrow> k \<le> 65536"
  shows "p_next_batch e alloc fill junk pd geterr (Obj pp) (Inr 256) = Some (returns ([], [])) \<and>
    p_next_batch e alloc fill junk pd' geterr (Obj pp) (Inr 256) = Some (returns ([], []))"
proof -
  obtain hdr d where x: "x = (hdr, d)" by fastforce
  define b0 where "b0 = \<lparr>t_buf = replicate 65536 fill, t_cap = 65536, t_used = 0,
    t_meta = replicate (unat (256 :: u32)) junk, t_mcap = 256, t_n = 0\<rparr>"
  have cl: "unat (ucast (h_caplen hdr) :: u64) = unat (h_caplen hdr)" by (rule unat_ucast_u64)
  have big: "(65536 :: u64) < ucast (h_caplen hdr)" using assms(5) cl by (simp add: x word_less_nat_alt)
  have more: "unat (ucast (h_caplen hdr) + 4096 :: u64) = unat (h_caplen hdr) + 4096"
  proof -
    have "unat (h_caplen hdr) < 4294967296" by (rule unat_less_u32)
    then have "unat (h_caplen hdr) + 4096 < 18446744073709551616" by linarith
    then show ?thesis by (simp add: unat_word_ariths cl)
  qed
  have "grow_buf alloc fill (ucast (h_caplen hdr)) b0 = None"
    using big more assms(5,6) by (simp add: grow_buf_def b0_def Let_def x)
  then have cb: "BatchCallBack alloc fill junk b0 x = Some (b0, False)" by (simp add: BatchCallBack_def x)
  have s256: "sint (256 :: u32) = 256" by simp
  have "pd 256 (BatchCallBack alloc fill junk) b0 = Some (b0, 1)"
    using assms(1) cb by (simp add: dispatch_contract_def offered_def)
  moreover have "pd' 256 (BatchCallBack alloc fill junk) b0 = Some (b0, 0)"
    using assms(2) by (simp add: dispatch_contract_def offered_def)
  moreover have "p_next_batch e alloc fill junk p geterr (Obj pp) (Inr 256) = Some (returns ([], []))"
    if "p 256 (BatchCallBack alloc fill junk) b0 = Some (b0, r)" "0 \<le> r" for p r
    using that assms(4,6) by (simp add: p_next_batch_def b0_def [symmetric]) (simp add: b0_def)
  ultimately show ?thesis by force
qed

theorem next_batch_loses_packet_witness:
  "p_next_batch Little (\<lambda>k. k \<le> 65536) 0 \<lparr>m_sec = 0, m_usec = 0, m_off = 0, m_len = 0\<rparr>
      (reference_dispatch [sample_packet (replicate 70000 0)] 0 0) (\<lambda>_. []) (Obj sample_object) (Inr 256) =
      Some (returns ([], [])) \<and>
    p_next_batch Little (\<lambda>k. k \<le> 65536) 0 \<lparr>m_sec = 0, m_usec = 0, m_off = 0, m_len = 0\<rparr>
      (reference_dispatch [] 0 0) (\<lambda>_. []) (Obj sample_object) (Inr 256) = Some (returns ([], []))"
  by (rule next_batch_loses_packet [OF reference_dispatch_contract reference_dispatch_contract])
    (simp_all add: sample_packet_def captured_def)

end
