(* ===== verification/Reader.thy ===== *)
theory Reader
  imports Filtered "HOL-Library.Char_ord"
begin

text \<open>
  The other methods of the capture object in \<open>src/pcapobj.cc\<close>: addresses, filter, single packets,
  statistics, dump files, settings, sending, descriptors and fan-out, and the life cycle of its
  handle. Each method is a prologue (type check, closed check), the parsed arguments, one call into
  libpcap and the translation of its result; the libpcap functions are parameters.
\<close>

section \<open>Network addresses\<close>

text \<open>\<open>htonl\<close> on the host's byte order.\<close>

definition htonl :: "endian \<Rightarrow> u32 \<Rightarrow> u32" where
  "htonl e w = (case bytes_of_word e w of [a, b, c, d] \<Rightarrow> word_of_bytes_be a b c d | _ \<Rightarrow> 0)"

text \<open>\<open>%i\<close> of a number that is not negative.\<close>

fun decimal :: "nat \<Rightarrow> string" where
  "decimal n = (if n < 10 then [] else decimal (n div 10)) @ [char_of (48 + n mod 10)]"

declare decimal.simps [simp del]

text \<open>\<open>snprintf(dst, n, "%i.%i.%i.%i", ...)\<close>: at most \<open>n - 1\<close> characters. The shifts are on a signed
  int, so they replicate the sign, which the mask removes.\<close>

definition ntos :: "endian \<Rightarrow> nat \<Rightarrow> u32 \<Rightarrow> string" where
  "ntos e n ip = (let ip = htonl e ip; byte = (\<lambda>k. unat (signed_drop_bit k ip AND 0xFF)) in
     take (n - 1) (decimal (byte 24) @ ''.'' @ decimal (byte 16) @ ''.'' @ decimal (byte 8) @ ''.'' @
       decimal (unat (ip AND 0xFF))))"

definition p_getnet :: "endian \<Rightarrow> pcapobject pyobj \<Rightarrow> string cret" where
  "p_getnet e self = check_open self raises (\<lambda>pp h. returns (ntos e 20 (net pp)))"

definition p_getmask :: "endian \<Rightarrow> pcapobject pyobj \<Rightarrow> string cret" where
  "p_getmask e self = check_open self raises (\<lambda>pp h. returns (ntos e 20 (netmask pp)))"

section \<open>Filter, packets and statistics\<close>

text \<open>\<open>compile h str optimize mask\<close> gives the status and the program, \<open>install\<close> the status of
  \<open>pcap_setfilter\<close>.\<close>

definition p_setfilter ::
  "(nat \<Rightarrow> string \<Rightarrow> int \<Rightarrow> u32 \<Rightarrow> int \<times> 'prog) \<Rightarrow> (nat \<Rightarrow> 'prog \<Rightarrow> int) \<Rightarrow> (nat \<Rightarrow> string) \<Rightarrow>
     pcapobject pyobj \<Rightarrow> exn + string \<Rightarrow> unit cret" where
  "p_setfilter compile install geterr self args =
     check_open self raises (\<lambda>pp h.
       case args of Inl ex \<Rightarrow> raises ex
       | Inr str \<Rightarrow>
         (case compile h str 1 (netmask pp) of (status, bpfprog) \<Rightarrow>
            if status \<noteq> 0 then raises (PcapError (geterr h))
            else if install h bpfprog \<noteq> 0 then raises (PcapError (geterr h))
            else returns ()))"

text \<open>\<open>next_ex h\<close> is the return code of \<open>pcap_next_ex\<close> and the packet it points to.\<close>

definition p_next ::
  "(nat \<Rightarrow> int \<times> packet) \<Rightarrow> (nat \<Rightarrow> string) \<Rightarrow> pcapobject pyobj \<Rightarrow> (pkthdr option \<times> u8 list) cret option" where
  "p_next next_ex geterr self =
     check_open self (\<lambda>ex. Some (raises ex)) (\<lambda>pp h.
       case next_ex h of (err_code, (hdr, buf)) \<Rightarrow>
         if err_code = - 1 then Some (raises (PcapError (geterr h)))
         else if err_code = 1
         then map_option (\<lambda>data. returns (Some (new_pcap_pkthdr hdr), data)) (bytes_of buf (h_caplen hdr))
         else Some (returns (None, [])))"

definition p_stats ::
  "(nat \<Rightarrow> int \<times> u32 \<times> u32 \<times> u32) \<Rightarrow> (nat \<Rightarrow> string) \<Rightarrow> pcapobject pyobj \<Rightarrow> (u32 \<times> u32 \<times> u32) cret" where
  "p_stats stats geterr self =
     check_open self raises (\<lambda>pp h.
       case stats h of (ret, counts) \<Rightarrow>
         if ret = - 1 then raises (PcapError (geterr h)) else returns counts)"

definition p_enter :: "pcapobject pyobj \<Rightarrow> pcapobject cret" where
  "p_enter self = check_open self raises (\<lambda>pp h. returns pp)"

definition p_dump_open ::
  "(nat \<Rightarrow> string \<Rightarrow> 'd option) \<Rightarrow> (nat \<Rightarrow> string) \<Rightarrow> pcapobject pyobj \<Rightarrow> exn + string \<Rightarrow> 'd cret" where
  "p_dump_open dump_open geterr self args =
     check_open self raises (\<lambda>pp h.
       case args of Inl ex \<Rightarrow> raises ex
       | Inr filename \<Rightarrow>
         (case dump_open h filename of None \<Rightarrow> raises (PcapError (geterr h)) | Some d \<Rightarrow> returns d))"

section \<open>Settings\<close>

definition p_datalink :: "(nat \<Rightarrow> int) \<Rightarrow> pcapobject pyobj \<Rightarrow> int cret" where
  "p_datalink datalink self = check_open self raises (\<lambda>pp h. returns (datalink h))"

definition p_setdirection ::
  "(nat \<Rightarrow> int \<Rightarrow> int) \<Rightarrow> pcapobject pyobj \<Rightarrow> exn + int \<Rightarrow> unit cret" where
  "p_setdirection setdirection self args =
     check_open self raises (\<lambda>pp h.
       case args of Inl ex \<Rightarrow> raises ex
       | Inr direction \<Rightarrow>
           if setdirection h direction = - 1 then raises (PcapError ''Failed setting direction'')
           else returns ())"

text \<open>\<open>setnonblock h state\<close> and \<open>getnonblock h\<close> give the return value and the error buffer.\<close>

definition p_setnonblock ::
  "(nat \<Rightarrow> int \<Rightarrow> int \<times> string) \<Rightarrow> pcapobject pyobj \<Rightarrow> exn + int \<Rightarrow> unit cret" where
  "p_setnonblock setnonblock self args =
     check_open self raises (\<lambda>pp h.
       case args of Inl ex \<Rightarrow> raises ex
       | Inr st \<Rightarrow> (case setnonblock h st of (ret, errbuf) \<Rightarrow>
           if ret = - 1 then raises (PcapError errbuf) else returns ()))"

definition p_getnonblock :: "(nat \<Rightarrow> int \<times> string) \<Rightarrow> pcapobject pyobj \<Rightarrow> int cret" where
  "p_getnonblock getnonblock self =
     check_open self raises (\<lambda>pp h. case getnonblock h of (st, errbuf) \<Rightarrow>
       if st = - 1 then raises (PcapError errbuf) else returns st)"

text \<open>The setters for a handle that is not active yet hand the status of libpcap to the caller.\<close>

definition p_set_snaplen :: "(nat \<Rightarrow> int \<Rightarrow> int) \<Rightarrow> pcapobject pyobj \<Rightarrow> exn + int \<Rightarrow> int cret" where
  "p_set_snaplen set_snaplen self args =
     check_open self raises (\<lambda>pp h. case args of Inl ex \<Rightarrow> raises ex | Inr v \<Rightarrow> returns (set_snaplen h v))"

definition p_set_promisc :: "(nat \<Rightarrow> int \<Rightarrow> int) \<Rightarrow> pcapobject pyobj \<Rightarrow> exn + int \<Rightarrow> int cret" where
  "p_set_promisc set_promisc self args =
     check_open self raises (\<lambda>pp h. case args of Inl ex \<Rightarrow> raises ex | Inr v \<Rightarrow> returns (set_promisc h v))"

definition p_set_timeout :: "(nat \<Rightarrow> int \<Rightarrow> int) \<Rightarrow> pcapobject pyobj \<Rightarrow> exn + int \<Rightarrow> int cret" where
  "p_set_timeout set_timeout self args =
     check_open self raises (\<lambda>pp h. case args of Inl ex \<Rightarrow> raises ex | Inr v \<Rightarrow> returns (set_timeout h v))"

definition p_set_buffer_size :: "(nat \<Rightarrow> int \<Rightarrow> int) \<Rightarrow> pcapobject pyobj \<Rightarrow> exn + int \<Rightarrow> int cret" where
  "p_set_buffer_size set_buffer_size self args =
     check_open self raises (\<lambda>pp h. case args of Inl ex \<Rightarrow> raises ex | Inr v \<Rightarrow> returns (set_buffer_size h v))"

definition p_set_rfmon :: "(nat \<Rightarrow> int \<Rightarrow> int) \<Rightarrow> pcapobject pyobj \<Rightarrow> exn + int \<Rightarrow> int cret" where
  "p_set_rfmon set_rfmon self args =
     check_open self raises (\<lambda>pp h. case args of Inl ex \<Rightarrow> raises ex | Inr v \<Rightarrow> returns (set_rfmon h v))"

definition p_activate :: "(nat \<Rightarrow> int) \<Rightarrow> pcapobject pyobj \<Rightarrow> int cret" where
  "p_activate activate self = check_open self raises (\<lambda>pp h. returns (activate h))"

section \<open>Sending and descriptors\<close>

text \<open>\<open>pcap_sendpacket\<close> takes the length as an int.\<close>

definition p_sendpacket ::
  "(nat \<Rightarrow> u8 list \<Rightarrow> cint \<Rightarrow> int) \<Rightarrow> (nat \<Rightarrow> string) \<Rightarrow> pcapobject pyobj \<Rightarrow> exn + u8 list \<Rightarrow> unit cret" where
  "p_sendpacket sendpacket geterr self args =
     check_open self raises (\<lambda>pp h.
       case args of Inl ex \<Rightarrow> raises ex
       | Inr str \<Rightarrow>
           if sendpacket h str (word_of_nat (length str)) \<noteq> 0 then raises (PcapError (geterr h))
           else returns ())"

definition p_getfd :: "(nat \<Rightarrow> int) \<Rightarrow> pcapobject pyobj \<Rightarrow> int cret" where
  "p_getfd get_selectable_fd self = check_open self raises (\<lambda>pp h. returns (get_selectable_fd h))"

text \<open>The word handed to \<open>setsockopt\<close>: group id in the low half, fan-out type in the high half.\<close>

definition fanout_arg :: "cint \<Rightarrow> cint \<Rightarrow> cint" where
  "fanout_arg group_id fanout_type = (group_id AND 0xffff) OR push_bit 16 fanout_type"

text \<open>\<open>setsockopt fd arg\<close> is the return value; \<open>strerror\<close> the text of \<open>PyErr_SetFromErrno\<close>. The
  Linux branch of the source.\<close>

definition p_set_fanout ::
  "(nat \<Rightarrow> int) \<Rightarrow> (int \<Rightarrow> cint \<Rightarrow> int) \<Rightarrow> string \<Rightarrow> pcapobject pyobj \<Rightarrow> exn + (cint \<times> cint) \<Rightarrow> unit cret" where
  "p_set_fanout fileno setsockopt strerror self args =
     check_open self raises (\<lambda>pp h.
       case args of Inl ex \<Rightarrow> raises ex
       | Inr (group_id, fanout_type) \<Rightarrow>
           let fd = fileno h in
           if fd < 0
           then raises (PcapError ''no socket fd for this capture (PACKET_FANOUT needs a live AF_PACKET capture, not an offline pcap)'')
           else if setsockopt fd (fanout_arg group_id fanout_type) < 0 then raises (PcapError strerror)
           else returns ())"

section \<open>Printing addresses\<close>

text \<open>Reading a dotted address: splitting at the dots and evaluating the digits.\<close>

fun split_dots :: "string \<Rightarrow> string list" where
  "split_dots [] = [[]]"
| "split_dots (c # s) = (if c = CHR ''.'' then [] # split_dots s
     else (case split_dots s of [] \<Rightarrow> [[c]] | w # ws \<Rightarrow> (c # w) # ws))"

definition decimal_value :: "string \<Rightarrow> nat" where
  "decimal_value s = foldl (\<lambda>v c. 10 * v + (of_char c - 48)) 0 s"

lemma decimal_value_snoc [simp]: "decimal_value (s @ [c]) = 10 * decimal_value s + (of_char c - 48)"
  by (simp add: decimal_value_def)

lemma decimal_value_decimal [simp]: "decimal_value (decimal n) = n"
proof (induction n rule: decimal.induct)
  case (1 n)
  have d: "of_char (char_of (48 + n mod 10)) = (48 + n mod 10 :: nat)" by simp
  show ?case
  proof (cases "n < 10")
    case True
    then show ?thesis by (subst decimal.simps) (simp add: decimal_value_def)
  next
    case False
    then show ?thesis using 1 by (subst decimal.simps) (simp del: char_of_mod_256)
  qed
qed

lemma decimal_no_dot: "CHR ''.'' \<notin> set (decimal n)"
proof (induction n rule: decimal.induct)
  case (1 n)
  have "char_of (48 + n mod 10) \<noteq> CHR ''.''"
  proof
    assume "char_of (48 + n mod 10) = CHR ''.''"
    then have "of_char (char_of (48 + n mod 10) :: char) = (of_char (CHR ''.'') :: nat)" by simp
    then show False by simp
  qed
  with 1 show ?case by (subst decimal.simps) auto
qed

lemma length_decimal_byte: "n < 256 \<Longrightarrow> length (decimal n) \<le> 3"
  by (subst decimal.simps, simp, subst decimal.simps, simp, subst decimal.simps, auto)

lemma split_dots_word: "CHR ''.'' \<notin> set s \<Longrightarrow> split_dots s = [s]"
  by (induction s) auto

lemma split_dots_append: "CHR ''.'' \<notin> set s \<Longrightarrow> split_dots (s @ CHR ''.'' # r) = s # split_dots r"
  by (induction s) auto

text \<open>The bytes of an address in memory, as the printed numbers.\<close>

lemma byte_of_signed: "unat (signed_drop_bit k w AND 0xFF :: u32) = unat (drop_bit k w) mod 256" if "k \<le> 24"
proof -
  have m: "(0xFF :: u32) = mask 8" by (simp add: mask_eq_exp_minus_1)
  have "signed_drop_bit k w AND mask 8 = drop_bit k w AND mask 8"
    using that by (intro bit_word_eqI) (auto simp: bit_simps)
  then show ?thesis unfolding m by (simp only: unat_and_mask) simp
qed

lemma htonl_bytes:
  "map (\<lambda>k. unat (drop_bit k (htonl e w)) mod 256) [24, 16, 8, 0] = map unat (bytes_of_word e w)"
proof -
  have u: "unat (ucast v :: u8) = unat v mod 256" for v :: u32
    by (simp add: unsigned_ucast_eq take_bit_eq_mod)
  have "unat (drop_bit 24 x) mod 256 = unat a \<and> unat (drop_bit 16 x) mod 256 = unat b \<and>
      unat (drop_bit 8 x) mod 256 = unat c \<and> unat x mod 256 = unat d"
    if "x = word_of_bytes_be a b c d" for x and a b c d :: u8
  proof -
    have "ucast (drop_bit 24 x) = a" "ucast (drop_bit 16 x) = b" "ucast (drop_bit 8 x) = c" "ucast x = d"
      unfolding that word_of_bytes_be_def
      by (intro bit_word_eqI; auto simp: bit_simps dest: bit_imp_le_length)+
    then show ?thesis using u by metis
  qed
  then show ?thesis by (cases e) (simp_all add: htonl_def)
qed

lemma ntos_eq:
  "ntos e 20 ip = (case map decimal (map unat (bytes_of_word e ip)) of
     [a, b, c, d] \<Rightarrow> a @ ''.'' @ b @ ''.'' @ c @ ''.'' @ d | _ \<Rightarrow> [])"
proof -
  let ?x = "htonl e ip"
  let ?b = "\<lambda>k. unat (drop_bit k ?x) mod 256"
  have m: "(0xFF :: u32) = mask 8" by (simp add: mask_eq_exp_minus_1)
  have low: "unat (?x AND 0xFF) = ?b 0" unfolding m by (simp add: unat_and_mask)
  have "length (decimal (?b k)) \<le> 3" for k by (rule length_decimal_byte) simp
  from this [of 24] this [of 16] this [of 8] this [of 0]
  have "length (decimal (?b 24) @ ''.'' @ decimal (?b 16) @ ''.'' @ decimal (?b 8) @ ''.'' @ decimal (?b 0)) \<le> 19"
    by simp
  then have "ntos e 20 ip = decimal (?b 24) @ ''.'' @ decimal (?b 16) @ ''.'' @ decimal (?b 8) @ ''.'' @ decimal (?b 0)"
    unfolding ntos_def Let_def low by (simp only: byte_of_signed) (simp add: byte_of_signed)
  moreover have "map unat (bytes_of_word e ip) = [?b 24, ?b 16, ?b 8, ?b 0]"
    using htonl_bytes [of e ip] by simp
  ultimately show ?thesis by simp
qed

section \<open>The life cycle of the handle\<close>

text \<open>The operations that touch the handle field or can change the object: a run of
  \<open>loop_filtered()\<close> (with whatever library, callback and arguments), \<open>close()\<close> or the end of a
  \<open>with\<close> block, and the destruction of the object. A state is the object, until it is destroyed, and
  the handles passed to \<open>pcap_close\<close> so far.\<close>

inductive lifetime :: "pcapobject \<Rightarrow> pcapobject option \<times> nat list \<Rightarrow> bool" for created where
  created: "lifetime created (Some created, [])"
| ran: "lifetime created (Some pp, cl) \<Longrightarrow>
    p_loop_filtered e alloc pl geterr pi0 py (Obj pp) args = Some (Obj pp', made, r) \<Longrightarrow>
    lifetime created (Some pp', cl)"
| closed: "lifetime created (Some pp, cl) \<Longrightarrow> p_close pp = (pp', handles, r) \<Longrightarrow>
    lifetime created (Some pp', cl @ handles)"
| destroyed: "lifetime created (Some pp, cl) \<Longrightarrow> lifetime created (None, cl @ pcap_dealloc pp)"

inductive_cases destroyedE: "lifetime created (None, cl)"

lemma p_loop_filtered_handle:
  assumes "p_loop_filtered e alloc pl geterr pi0 py (Obj pp) args = Some (Obj pp', made, r)"
  shows "pcap pp' = pcap pp"
proof (cases "pcap pp")
  case (Some h)
  then show ?thesis using assms
    by (auto simp: p_loop_filtered_unfold bind_eq_Some_conv Let_def split: sum.splits if_splits)
qed (use assms in \<open>simp add: p_loop_filtered_unfold\<close>)

section \<open>Properties\<close>

text \<open>On a closed capture object every method raises ValueError and never reaches libpcap: the
  result is the same whatever the library functions and the arguments are.\<close>

theorem closed_object_refuses:
  assumes "pcap pp = None"
  shows "p_getnet e (Obj pp) = err_closed \<and>
    p_getmask e (Obj pp) = err_closed \<and>
    p_setfilter compile install geterr (Obj pp) sargs = err_closed \<and>
    p_next next_ex geterr (Obj pp) = Some err_closed \<and>
    p_stats stats geterr (Obj pp) = err_closed \<and>
    p_enter (Obj pp) = err_closed \<and>
    p_dump_open dump_open geterr (Obj pp) sargs = err_closed \<and>
    p_datalink lib0 (Obj pp) = err_closed \<and>
    p_setdirection lib1 (Obj pp) args = err_closed \<and>
    p_setnonblock lib2 (Obj pp) args = err_closed \<and>
    p_getnonblock lib3 (Obj pp) = err_closed \<and>
    p_set_snaplen lib1 (Obj pp) args = err_closed \<and>
    p_set_promisc lib1 (Obj pp) args = err_closed \<and>
    p_set_timeout lib1 (Obj pp) args = err_closed \<and>
    p_set_buffer_size lib1 (Obj pp) args = err_closed \<and>
    p_set_rfmon lib1 (Obj pp) args = err_closed \<and>
    p_activate lib0 (Obj pp) = err_closed \<and>
    p_sendpacket send geterr (Obj pp) pargs = err_closed \<and>
    p_getfd lib0 (Obj pp) = err_closed \<and>
    p_set_fanout lib0 setsockopt strerror (Obj pp) fargs = err_closed \<and>
    p_loop pl geterr py (Obj pp) args = Some ([], err_closed) \<and>
    p_dispatch pd geterr py (Obj pp) args = Some ([], err_closed)"
  using assms
  by (simp add: p_getnet_def p_getmask_def p_setfilter_def p_next_def p_stats_def p_enter_def
      p_dump_open_def p_datalink_def p_setdirection_def p_setnonblock_def p_getnonblock_def
      p_set_snaplen_def p_set_promisc_def p_set_timeout_def p_set_buffer_size_def p_set_rfmon_def
      p_activate_def p_sendpacket_def p_getfd_def p_set_fanout_def p_loop_def p_dispatch_def err_closed_def)

theorem closed_object_refuses_witness:
  "pcap (sample_object\<lparr>pcap := None\<rparr>) = None \<and>
   p_getnet Little (Obj (sample_object\<lparr>pcap := None\<rparr>)) = err_closed \<and>
   p_loop (\<lambda>_ _ _. None) (\<lambda>_. []) (\<lambda>_. None) (Obj (sample_object\<lparr>pcap := None\<rparr>)) (Inr 5) = Some ([], err_closed)"
proof -
  have c: "pcap (sample_object\<lparr>pcap := None\<rparr>) = None" by simp
  show ?thesis
    using c closed_object_refuses [OF c, where e = Little]
      closed_object_refuses [OF c, where pl = "\<lambda>_ _ _. None" and geterr = "\<lambda>_. []" and py = "\<lambda>_. None"
        and args = "Inr 5"]
    by blast
qed

text \<open>Over the whole life of a capture object its handle is closed at most once, exactly once when
  it was closed or destroyed, and an object that is not closed still has its handle.\<close>

theorem handle_closed_once:
  assumes "lifetime (new_pcapobject fresh h n m) (alive, handles)"
  shows "case alive of Some pp \<Rightarrow> (pcap pp = Some h \<and> handles = []) \<or> (pcap pp = None \<and> handles = [h])
    | None \<Rightarrow> handles = [h]"
  using assms
proof (induction "(alive, handles)" arbitrary: alive handles rule: lifetime.induct)
  case created
  show ?case by (simp add: new_pcapobject_def)
next
  case (ran pp cl)
  then show ?case using p_loop_filtered_handle by fastforce
next
  case (closed pp cl pp' hs r)
  then show ?case by (auto simp: p_close_def)
next
  case (destroyed pp cl)
  then show ?case by (auto simp: pcap_dealloc_def p_close_def)
qed

theorem handle_closed_once_witness:
  "\<exists>pp. lifetime (new_pcapobject sample_object 7 0 0) (None, [7]) \<and>
     lifetime (new_pcapobject sample_object 7 0 0) (Some pp, [7]) \<and>
     (case Some pp of Some pp \<Rightarrow> (pcap pp = Some 7 \<and> [7 :: nat] = []) \<or> (pcap pp = None \<and> [7 :: nat] = [7])
      | None \<Rightarrow> [7 :: nat] = [7])"
proof -
  let ?pp = "new_pcapobject sample_object 7 0 0"
  have close: "p_close ?pp = (?pp\<lparr>pcap := None\<rparr>, [7], returns ())"
    by (simp add: p_close_def new_pcapobject_def)
  have life: "lifetime ?pp (Some (?pp\<lparr>pcap := None\<rparr>), [7])"
    using lifetime.closed [OF lifetime.created close] by simp
  moreover have "lifetime ?pp (None, [7])"
    using lifetime.destroyed [OF life] by (simp add: pcap_dealloc_def p_close_def)
  ultimately show ?thesis using handle_closed_once [OF life] by blast
qed

text \<open>\<open>getnet()\<close> and \<open>getmask()\<close> print the four bytes of the address in memory order, in decimal and
  separated by dots: the string is never truncated and reads back as those bytes.\<close>

theorem addresses_read_back:
  "map decimal_value (split_dots (ntos e 20 ip)) = map unat (bytes_of_word e ip) \<and> length (ntos e 20 ip) < 20"
proof -
  obtain a b c d where abcd: "map unat (bytes_of_word e ip) = [a, b, c, d]" and
    less: "a < 256" "b < 256" "c < 256" "d < 256"
  proof -
    have "unat (x :: u8) < 256" for x using unsigned_less [of x] by simp
    then show ?thesis by (cases e) (auto intro!: that)
  qed
  have s: "ntos e 20 ip = decimal a @ CHR ''.'' # decimal b @ CHR ''.'' # decimal c @ CHR ''.'' # decimal d"
    unfolding ntos_eq abcd by simp
  show ?thesis
    unfolding s abcd
    using less [THEN length_decimal_byte]
    by (simp add: split_dots_append split_dots_word decimal_no_dot)
qed

text \<open>The word passed to the kernel carries the low 16 bits of the group id and of the fan-out type,
  so that two calls agree on it exactly when they agree on both, whatever the signs of the ints.\<close>

theorem fanout_arg_packs:
  "unat (fanout_arg g t) mod 2 ^ 16 = unat g mod 2 ^ 16 \<and>
   unat (fanout_arg g t) div 2 ^ 16 = unat t mod 2 ^ 16 \<and>
   (fanout_arg g t = fanout_arg g' t' \<longleftrightarrow>
      unat g mod 2 ^ 16 = unat g' mod 2 ^ 16 \<and> unat t mod 2 ^ 16 = unat t' mod 2 ^ 16)"
proof -
  have m: "(0xffff :: u32) = mask 16" by (simp add: mask_eq_exp_minus_1)
  have "fanout_arg g t AND mask 16 = g AND mask 16" for g t
    unfolding fanout_arg_def m by (intro bit_word_eqI) (auto simp: bit_simps)
  then have low: "unat (fanout_arg g t) mod 2 ^ 16 = unat g mod 2 ^ 16" for g t
    by (simp only: unat_and_mask [symmetric])
  have "drop_bit 16 (fanout_arg g t) = t AND mask 16" for g t
    unfolding fanout_arg_def m by (intro bit_word_eqI) (auto simp: bit_simps dest: bit_imp_le_length)
  then have "unat (drop_bit 16 (fanout_arg g t)) = unat t mod 2 ^ 16" for g t
    by (simp only: unat_and_mask)
  then have high: "unat (fanout_arg g t) div 2 ^ 16 = unat t mod 2 ^ 16" for g t
    by (simp only: unat_drop_bit_eq) (simp only: drop_bit_eq_div)
  have "fanout_arg g t = fanout_arg g' t' \<longleftrightarrow> unat (fanout_arg g t) = unat (fanout_arg g' t')"
    by (rule word_unat_eq_iff)
  also have "\<dots> \<longleftrightarrow> unat (fanout_arg g t) mod 2 ^ 16 = unat (fanout_arg g' t') mod 2 ^ 16 \<and>
      unat (fanout_arg g t) div 2 ^ 16 = unat (fanout_arg g' t') div 2 ^ 16"
  proof -
    have "x = y \<longleftrightarrow> x mod k = y mod k \<and> x div k = y div k" for x y k :: nat
      by (metis div_mult_mod_eq)
    then show ?thesis .
  qed
  finally show ?thesis unfolding low high by blast
qed

end
