(* ===== verification/Module.thy ===== *)
theory Module
  imports Pyobj
begin

text \<open>
  The remaining objects and the module functions: dump files (\<open>src/pcapdumper.cc\<close>), BPF programs
  (\<open>src/bpfobj.cc\<close>), and the functions that open captures, list devices and compile filters
  (\<open>src/pcapy.cc\<close>). libpcap functions are parameters.
\<close>

section \<open>Dump files\<close>

record pcapdumper =
  dumper :: "nat option"

definition new_pcapdumper :: "nat \<Rightarrow> pcapdumper" where
  "new_pcapdumper d = \<lparr>dumper = Some d\<rparr>"

definition validate_pcapdumper :: "pcapdumper pyobj \<Rightarrow> exn + pcapdumper" where
  "validate_pcapdumper self =
     (case self of OtherType \<Rightarrow> Inl (PcapError ''Not a pcapdumper object'') | Obj pp \<Rightarrow> Inr pp)"

text \<open>\<open>dump()\<close>: the records handed to \<open>pcap_dump\<close> and the result. \<open>pcap_dump\<close> reads as many bytes as
  the header says; \<open>None\<close> is a read behind the end of the data.\<close>

definition p_dump ::
  "pcapdumper pyobj \<Rightarrow> exn + (pkthdr pyobj \<times> u8 list) \<Rightarrow> ((pcap_pkthdr \<times> u8 list) list \<times> unit cret) option" where
  "p_dump self args =
     (case validate_pcapdumper self of Inl ex \<Rightarrow> Some ([], raises ex)
      | Inr pp \<Rightarrow>
        (case args of Inl ex \<Rightarrow> Some ([], raises ex)
         | Inr (pyhdr, data) \<Rightarrow>
           (case pkthdr_to_native pyhdr of
              (Some hdr, err) \<Rightarrow>
                (if dumper pp = None then Some ([], raises (PcapError ''Dumper is already closed.''))
                 else do { bytes \<leftarrow> bytes_of data (h_caplen hdr); Some ([(hdr, bytes)], returns ()) })
            | (None, err) \<Rightarrow> Some ([], None, err))))"

text \<open>\<open>close()\<close> and the destructor: the object, and the dump handles passed to \<open>pcap_dump_close\<close>.\<close>

definition dumper_close :: "pcapdumper pyobj \<Rightarrow> pcapdumper pyobj \<times> nat list \<times> unit cret" where
  "dumper_close self =
     (case validate_pcapdumper self of Inl ex \<Rightarrow> (self, [], raises ex)
      | Inr pp \<Rightarrow> (Obj (pp\<lparr>dumper := None\<rparr>), (case dumper pp of None \<Rightarrow> [] | Some d \<Rightarrow> [d]), returns ()))"

definition dumper_dealloc :: "pcapdumper \<Rightarrow> nat list" where
  "dumper_dealloc pp = (case dumper pp of None \<Rightarrow> [] | Some d \<Rightarrow> [d])"

lemma dumper_closed_once:
  assumes "dumper_close (Obj pp) = (Obj pp', ds, r)"
  shows "ds @ dumper_dealloc pp' = dumper_dealloc pp \<and> dumper_close (Obj pp') = (Obj pp', [], returns ())"
  using assms by (auto simp: dumper_close_def validate_pcapdumper_def dumper_dealloc_def)

section \<open>BPF programs\<close>

record bpf_insn =
  code :: u16
  jt :: u8
  jf :: u8
  k_field :: u32

type_synonym bpfobject = "bpf_insn list"

text \<open>\<open>BPFProgram(filter, linktype = 1)\<close>; \<open>compile_nopcap snaplen linktype filter optimize mask\<close> gives
  the status and the program.\<close>

definition p_new_bpfobject ::
  "(int \<Rightarrow> int \<Rightarrow> string \<Rightarrow> int \<Rightarrow> u32 \<Rightarrow> int \<times> bpf_insn list) \<Rightarrow> exn + (string \<times> int option) \<Rightarrow> bpfobject cret" where
  "p_new_bpfobject compile_nopcap args =
     (case args of Inl ex \<Rightarrow> raises ex
      | Inr (filter_string, link) \<Rightarrow>
        let linktype = (case link of None \<Rightarrow> 1 | Some l \<Rightarrow> l) in
        (case compile_nopcap (2 ^ 16) linktype filter_string 0 0 of (status, prog) \<Rightarrow>
           if status \<noteq> 0 then raises (BPFError ''Couldn't compile BPF program'') else returns prog))"

text \<open>\<open>bpf_filter insns packet wirelen buflen\<close>: lengths are unsigned ints.\<close>

definition p_filter ::
  "(bpf_insn list \<Rightarrow> u8 list \<Rightarrow> u32 \<Rightarrow> u32 \<Rightarrow> cint) \<Rightarrow> bpfobject pyobj \<Rightarrow> exn + u8 list \<Rightarrow> int cret" where
  "p_filter bpf_filter self args =
     (case self of OtherType \<Rightarrow> raises (BPFError ''Not a bpfprogram object'')
      | Obj insns \<Rightarrow>
        (case args of Inl ex \<Rightarrow> raises ex
         | Inr packet \<Rightarrow>
           returns (sint (bpf_filter insns packet (word_of_nat (length packet)) (word_of_nat (length packet))))))"

text \<open>\<open>get_bpf()\<close>: the loop over the instructions, one tuple of four unsigned ints each.\<close>

fun insn_tuples :: "bpf_insn list \<Rightarrow> (int \<times> int \<times> int \<times> int) list" where
  "insn_tuples [] = []"
| "insn_tuples (i # is) = (uint (code i), uint (jt i), uint (jf i), uint (k_field i)) # insn_tuples is"

definition p_get_bpf :: "bpfobject pyobj \<Rightarrow> (int \<times> int \<times> int \<times> int) list cret" where
  "p_get_bpf self =
     (case self of OtherType \<Rightarrow> raises (BPFError ''Not a bpfprogram object'')
      | Obj insns \<Rightarrow> returns (insn_tuples insns))"

section \<open>Module functions\<close>

text \<open>\<open>lookup\<close> is \<open>pcap_lookupdev\<close>: the device, or the error text.\<close>

definition lookupdev :: "string + string \<Rightarrow> string cret" where
  "lookupdev dev = (case dev of Inl errbuff \<Rightarrow> raises (PcapError errbuff) | Inr d \<Rightarrow> returns d)"

text \<open>The list of device names (the branch for systems other than Windows); \<open>None\<close> is a NULL list.\<close>

definition findalldevs :: "string + string list option \<Rightarrow> string list cret" where
  "findalldevs devs =
     (case devs of Inl errbuff \<Rightarrow> raises (PcapError errbuff)
      | Inr None \<Rightarrow> raises (PcapError ''No valid interfaces to open'')
      | Inr (Some names) \<Rightarrow> returns names)"

text \<open>\<open>lookupnet device\<close> is the status of \<open>pcap_lookupnet\<close> with the net and mask it stores.\<close>

definition net_and_mask :: "int \<times> u32 \<times> u32 \<Rightarrow> u32 \<times> u32" where
  "net_and_mask res = (case res of (status, n, m) \<Rightarrow> if status \<noteq> 0 then (0, 0) else (n, m))"

definition open_live ::
  "(string \<Rightarrow> int \<times> u32 \<times> u32) \<Rightarrow> (string \<Rightarrow> int \<Rightarrow> bool \<Rightarrow> int \<Rightarrow> string + nat) \<Rightarrow> pcapobject \<Rightarrow>
     exn + (string \<times> int \<times> int \<times> int) \<Rightarrow> pcapobject cret" where
  "open_live lookupnet pcap_open_live fresh args =
     (case args of Inl ex \<Rightarrow> raises ex
      | Inr (device, snaplen, promisc, to_ms) \<Rightarrow>
        (case net_and_mask (lookupnet device) of (n, m) \<Rightarrow>
         (case pcap_open_live device snaplen (promisc \<noteq> 0) to_ms of
            Inl errbuff \<Rightarrow> raises (PcapError errbuff)
          | Inr pt \<Rightarrow> returns (new_pcapobject fresh pt n m))))"

definition pcap_create ::
  "(string \<Rightarrow> int \<times> u32 \<times> u32) \<Rightarrow> (string \<Rightarrow> string + nat) \<Rightarrow> pcapobject \<Rightarrow> exn + string \<Rightarrow> pcapobject cret" where
  "pcap_create lookupnet create fresh args =
     (case args of Inl ex \<Rightarrow> raises ex
      | Inr device \<Rightarrow>
        (case net_and_mask (lookupnet device) of (n, m) \<Rightarrow>
         (case create device of Inl errbuff \<Rightarrow> raises (PcapError errbuff)
          | Inr pt \<Rightarrow> returns (new_pcapobject fresh pt n m))))"

definition open_offline ::
  "(string \<Rightarrow> string + nat) \<Rightarrow> pcapobject \<Rightarrow> exn + string \<Rightarrow> pcapobject cret" where
  "open_offline pcap_open_offline fresh args =
     (case args of Inl ex \<Rightarrow> raises ex
      | Inr filename \<Rightarrow>
        (case pcap_open_offline filename of Inl errbuff \<Rightarrow> raises (PcapError errbuff)
         | Inr pt \<Rightarrow> returns (new_pcapobject fresh pt 0 0)))"

text \<open>\<open>compile()\<close>. On a compilation error the message is read from the handle that was just closed: a
  use after free, \<open>None\<close>.\<close>

definition bpf_compile ::
  "(int \<Rightarrow> int \<Rightarrow> nat option) \<Rightarrow> (nat \<Rightarrow> string \<Rightarrow> int \<Rightarrow> u32 \<Rightarrow> int \<times> bpf_insn list) \<Rightarrow>
     exn + (int \<times> int \<times> string \<times> int \<times> u32) \<Rightarrow> bpfobject cret option" where
  "bpf_compile open_dead compile args =
     (case args of Inl ex \<Rightarrow> Some (raises ex)
      | Inr (linktype, snaplen, flt, optimize, mask') \<Rightarrow>
        (case open_dead linktype snaplen of None \<Rightarrow> Some (None, None)
         | Some pp \<Rightarrow>
           (case compile pp flt optimize mask' of (status, bpf) \<Rightarrow>
              if status \<noteq> 0 then None else Some (returns bpf))))"

section \<open>Properties\<close>

text \<open>\<open>dump()\<close> on an open dumper writes the very header the header object was made from, with the
  captured bytes, whenever the data holds as many bytes as the header announces; it does not check
  that, and reads behind shorter data. A closed dumper refuses with an exception.\<close>

theorem p_dump_outcome:
  assumes "dumper pp = Some d"
  shows "p_dump (Obj pp) (Inr (Obj (new_pcap_pkthdr hdr), data)) =
      (if unat (h_caplen hdr) \<le> length data
       then Some ([(hdr, take (unat (h_caplen hdr)) data)], returns ()) else None) \<and>
    p_dump (fst (dumper_close (Obj pp))) (Inr (Obj (new_pcap_pkthdr hdr), data)) =
      Some ([], raises (PcapError ''Dumper is already closed.''))"
  using assms by (simp add: p_dump_def dumper_close_def validate_pcapdumper_def bytes_of_def)

theorem p_dump_outcome_witness:
  "p_dump (Obj (new_pcapdumper 3)) (Inr (Obj (new_pcap_pkthdr
       \<lparr>tv_sec = 1, tv_usec = 2, h_caplen = 4, h_len = 4\<rparr>), [1, 2])) = None \<and>
   p_dump (fst (dumper_close (Obj (new_pcapdumper 3)))) (Inr (Obj (new_pcap_pkthdr
       \<lparr>tv_sec = 1, tv_usec = 2, h_caplen = 4, h_len = 4\<rparr>), [1, 2])) =
     Some ([], raises (PcapError ''Dumper is already closed.''))"
  using p_dump_outcome [of "new_pcapdumper 3" 3 "\<lparr>tv_sec = 1, tv_usec = 2, h_caplen = 4, h_len = 4\<rparr>" "[1, 2]"]
  by (simp add: new_pcapdumper_def)

end
