(* ===== verification/Windows_Guid.thy ===== *)
theory Windows_Guid
  imports Prelude "HOL-Library.Char_ord"
begin

text \<open>
  The interface-name translation of the Windows build (\<open>src/pcapy.cc\<close>): the parser of textual GUIDs
  and \<open>get_windows_interface_friendly_name\<close> on top of it. A C string is its list of characters; the
  end of the list is the terminating NUL, which no test of the parser lets it step over.
\<close>

section \<open>The parser\<close>

definition gethexdigit :: "char \<Rightarrow> int" where
  "gethexdigit p =
     (if CHR ''0'' \<le> p \<and> p \<le> CHR ''9'' then int (of_char p) - int (of_char (CHR ''0''))
      else if CHR ''A'' \<le> p \<and> p \<le> CHR ''F'' then int (of_char p) - int (of_char (CHR ''A'')) + 10
      else if CHR ''a'' \<le> p \<and> p \<le> CHR ''f'' then int (of_char p) - int (of_char (CHR ''a'')) + 10
      else - 1)"

text \<open>The character a pointer into the string points to.\<close>

definition cur :: "string \<Rightarrow> char" where
  "cur s = (case s of [] \<Rightarrow> CHR 0x00 | c # _ \<Rightarrow> c)"

text \<open>The loop \<open>val = (val << 4) | digit\<close> of \<open>get8hexdigits\<close> and \<open>get4hexdigits\<close>.\<close>

fun hexdigits :: "nat \<Rightarrow> string \<Rightarrow> 'a::len word \<Rightarrow> 'a word option" where
  "hexdigits 0 p val = Some val"
| "hexdigits (Suc k) p val =
     (let digit = gethexdigit (cur p) in
      if digit = - 1 then None
      else hexdigits k (tl p) (push_bit 4 val OR word_of_int digit))"

definition get8hexdigits :: "string \<Rightarrow> u32 option" where
  "get8hexdigits p = hexdigits 8 p 0"

definition get4hexdigits :: "string \<Rightarrow> u16 option" where
  "get4hexdigits p = hexdigits 4 p 0"

record GUID =
  Data1 :: u32
  Data2 :: u16
  Data3 :: u16
  Data4 :: "u8 list"

text \<open>A loop over pairs of digits: the bytes and the rest of the string.\<close>

fun hexpairs :: "nat \<Rightarrow> string \<Rightarrow> (u8 list \<times> string) option" where
  "hexpairs 0 p = Some ([], p)"
| "hexpairs (Suc k) p =
     (let digit1 = gethexdigit (cur p) in
      if digit1 = - 1 then None
      else let p = tl p; digit2 = gethexdigit (cur p) in
      if digit2 = - 1 then None
      else do { (bs, r) \<leftarrow> hexpairs k (tl p);
                Some ((push_bit 4 (word_of_int digit1) OR word_of_int digit2) # bs, r) })"

text \<open>The hyphen that ends each group.\<close>

definition skip :: "char \<Rightarrow> string \<Rightarrow> string option" where
  "skip c p = (if cur p \<noteq> c then None else Some (tl p))"

definition parse_as_guid :: "string \<Rightarrow> GUID option" where
  "parse_as_guid t = do {
     t \<leftarrow> skip (CHR ''{'') t;
     d1 \<leftarrow> get8hexdigits t; t \<leftarrow> skip (CHR ''-'') (drop 8 t);
     d2 \<leftarrow> get4hexdigits t; t \<leftarrow> skip (CHR ''-'') (drop 4 t);
     d3 \<leftarrow> get4hexdigits t; t \<leftarrow> skip (CHR ''-'') (drop 4 t);
     (b1, t) \<leftarrow> hexpairs 2 t; t \<leftarrow> skip (CHR ''-'') t;
     (b2, t) \<leftarrow> hexpairs 6 t; t \<leftarrow> skip (CHR ''}'') t;
     if cur t \<noteq> CHR 0x00 then None
     else Some \<lparr>Data1 = d1, Data2 = d2, Data3 = d3, Data4 = b1 @ b2\<rparr> }"

section \<open>Friendly names\<close>

definition npf_prefix :: string where
  "npf_prefix = CHR 0x5C # ''Device'' @ CHR 0x5C # ''NPF_''"

text \<open>\<open>guid_to_luid\<close> is the lookup in the system; \<open>None\<close> is NULL. \<open>strdup\<close> succeeds.\<close>

definition get_windows_interface_friendly_name ::
  "(GUID \<Rightarrow> string option) \<Rightarrow> string \<Rightarrow> string option" where
  "get_windows_interface_friendly_name guid_to_luid name =
     (let guid_text = (if take 12 name = npf_prefix then drop 12 name else name) in
      case parse_as_guid guid_text of None \<Rightarrow> Some name | Some g \<Rightarrow> guid_to_luid g)"

section \<open>Printing GUIDs\<close>

definition hexchar :: "nat \<Rightarrow> char" where
  "hexchar d = (if d < 10 then char_of (48 + d) else char_of (87 + d))"

text \<open>The last \<open>k\<close> hex digits of a word, most significant first.\<close>

fun hex :: "nat \<Rightarrow> 'a::len word \<Rightarrow> string" where
  "hex 0 w = []"
| "hex (Suc k) w = hexchar (unat (drop_bit (4 * k) w AND mask 4)) # hex k w"

definition print_guid :: "GUID \<Rightarrow> string" where
  "print_guid g = ''{'' @ hex 8 (Data1 g) @ ''-'' @ hex 4 (Data2 g) @ ''-'' @ hex 4 (Data3 g) @ ''-'' @
     concat (map (hex 2) (take 2 (Data4 g))) @ ''-'' @ concat (map (hex 2) (drop 2 (Data4 g))) @ ''}''"

lemma gethexdigit_hexchar: "d < 16 \<Longrightarrow> gethexdigit (hexchar d) = int d"
proof -
  assume "d < 16"
  then have "d \<in> set [0..<16]" by simp
  moreover have "\<forall>d \<in> set [0..<16]. gethexdigit (hexchar d) = int d"
    by (simp add: upt_rec gethexdigit_def hexchar_def less_eq_char_def less_char_def)
  ultimately show ?thesis by blast
qed

lemma nibble_less: "unat (w AND mask 4 :: 'a::len word) < 16"
proof -
  have "unat (w AND mask 4) = take_bit 4 (unat w)" by (simp add: unsigned_take_bit_eq flip: take_bit_eq_mask)
  then show ?thesis by (simp add: take_bit_eq_mod)
qed

lemma hexdigits_hex:
  "hexdigits k (hex k w @ r) (drop_bit (4 * k) w) = Some (w :: 'a::len word)"
proof (induction k)
  case (Suc k)
  have d: "gethexdigit (hexchar (unat (drop_bit (4 * k) w AND mask 4))) = int (unat (drop_bit (4 * k) w AND mask 4))"
    by (rule gethexdigit_hexchar) (rule nibble_less)
  have "push_bit 4 (drop_bit (4 * Suc k) w) OR (drop_bit (4 * k) w AND mask 4) = drop_bit (4 * k) w"
    by (intro bit_word_eqI) (auto simp: bit_simps)
  moreover have "word_of_int (int (unat (drop_bit (4 * k) w AND mask 4))) = drop_bit (4 * k) w AND mask 4" by simp
  moreover have "int (unat (drop_bit (4 * k) w AND mask 4)) \<noteq> - 1" by linarith
  ultimately show ?case
    using Suc by (simp only: hex.simps append_Cons hexdigits.simps cur_def list.case d Let_def if_False list.sel)
qed simp

lemma length_hex [simp]: "length (hex k w) = k"
  by (induction k) simp_all

lemma hexdigits_hex_0: "LENGTH('a) \<le> 4 * k \<Longrightarrow> hexdigits k (hex k w @ r) 0 = Some (w :: 'a::len word)"
proof -
  assume "LENGTH('a) \<le> 4 * k"
  then have "drop_bit (4 * k) w = 0" by (intro bit_word_eqI) (auto simp: bit_simps dest: bit_imp_le_length)
  then show ?thesis using hexdigits_hex [of k w r] by simp
qed

lemma hexpairs_hex:
  "hexpairs (length bs) (concat (map (hex 2) bs) @ r) = Some (bs, r)"
proof (induction bs)
  case (Cons b bs)
  let ?n = "\<lambda>j. unat (drop_bit (4 * j) b AND mask 4)"
  have d: "gethexdigit (hexchar (?n j)) = int (?n j)" for j
    by (rule gethexdigit_hexchar) (rule nibble_less)
  have ne: "int (?n j) \<noteq> - 1" for j by linarith
  have "push_bit 4 (drop_bit (4 * 1) b AND mask 4) OR (drop_bit (4 * 0) b AND mask 4) = b"
    by (intro bit_word_eqI) (auto simp: bit_simps)
  then have byte: "push_bit 4 (word_of_int (int (?n 1))) OR word_of_int (int (?n 0)) = b" by simp
  have two: "hex 2 b = [hexchar (?n 1), hexchar (?n 0)]" by (simp add: numeral_2_eq_2)
  show ?case
    by (simp only: list.size add_Suc_right add_0_right Nat.add_0_right hexpairs.simps list.map concat.simps two
        append_Cons append_Nil cur_def list.case list.sel d ne Let_def if_False byte)
      (simp add: Cons.IH)
qed simp

lemma skip_hit [simp]: "skip c (c # r) = Some r"
  by (simp add: skip_def cur_def)

lemma hex_Data:
  "get8hexdigits (hex 8 w @ r) = Some w" "get4hexdigits (hex 4 v @ r) = Some v"
  by (simp_all add: get8hexdigits_def get4hexdigits_def hexdigits_hex_0)

section \<open>What the parser accepts\<close>

text \<open>The notation up to the case of its digits.\<close>

definition lower :: "char \<Rightarrow> char" where
  "lower c = (if CHR ''A'' \<le> c \<and> c \<le> CHR ''Z'' then char_of (of_char c + 32 :: nat) else c)"

lemma gethexdigit_lower:
  assumes "gethexdigit c \<noteq> - 1"
  shows "0 \<le> gethexdigit c" "gethexdigit c < 16" "lower c = hexchar (nat (gethexdigit c))"
proof -
  let ?ok = "\<lambda>n :: nat. 0 \<le> gethexdigit (char_of n) \<and>
     gethexdigit (char_of n) < 16 \<and> lower (char_of n) = hexchar (nat (gethexdigit (char_of n)))"
  have "\<forall>n \<in> set [48..<58]. ?ok n"
    by (simp add: upt_rec gethexdigit_def hexchar_def lower_def less_eq_char_def less_char_def)
  moreover have "\<forall>n \<in> set [65..<71]. ?ok n"
    by (simp add: upt_rec gethexdigit_def hexchar_def lower_def less_eq_char_def less_char_def)
  moreover have "\<forall>n \<in> set [97..<103]. ?ok n"
    by (simp add: upt_rec gethexdigit_def hexchar_def lower_def less_eq_char_def less_char_def)
  moreover have "(of_char c :: nat) \<in> set [48..<58] \<union> set [65..<71] \<union> set [97..<103]"
    unfolding set_upt using assms by (auto simp: gethexdigit_def less_eq_char_def split: if_splits)
  ultimately have "?ok (of_char c)" by blast
  then show "0 \<le> gethexdigit c" "gethexdigit c < 16" "lower c = hexchar (nat (gethexdigit c))" by simp_all
qed

lemma gethexdigit_nul [simp]: "gethexdigit (cur []) = - 1"
  by (simp add: cur_def gethexdigit_def less_eq_char_def)


lemma digit_nat: "gethexdigit c \<noteq> - 1 \<Longrightarrow> \<exists>n < 16. gethexdigit c = int n \<and> lower c = hexchar n"
  using gethexdigit_lower [of c] by (intro exI [of _ "nat (gethexdigit c)"]) auto

lemma nibble_bits: "n < 16 \<Longrightarrow> bit (n :: nat) i \<Longrightarrow> i < 4"
proof (rule ccontr)
  assume n: "n < 16" "bit n i" and "\<not> i < 4"
  then have "(2::nat) ^ 4 \<le> 2 ^ i" by (intro power_increasing) auto
  then have "n div 2 ^ i = 0" using n(1) by simp
  then show False using n(2) by (simp add: bit_iff_odd)
qed

lemma hexdigits_sound:
  assumes "hexdigits k p val = Some (w :: 'a::len word)" "4 * k \<le> LENGTH('a)"
  shows "drop_bit (4 * k) w = take_bit (LENGTH('a) - 4 * k) val \<and> k \<le> length p \<and> map lower (take k p) = hex k w"
  using assms
proof (induction k arbitrary: p val)
  case (Suc k)
  obtain c p' where p: "p = c # p'" using Suc.prems(1) by (cases p) (auto simp: Let_def)
  have ne: "gethexdigit c \<noteq> - 1" and rest: "hexdigits k p' (push_bit 4 val OR word_of_int (gethexdigit c)) = Some w"
    using Suc.prems(1) by (auto simp: p cur_def Let_def split: if_splits)
  obtain n where n: "n < 16" "gethexdigit c = int n" "lower c = hexchar n" using digit_nat [OF ne] by blast
  let ?d = "word_of_nat n :: 'a word"
  have IH: "drop_bit (4 * k) w = take_bit (LENGTH('a) - 4 * k) (push_bit 4 val OR ?d)" "k \<le> length p'"
      "map lower (take k p') = hex k w"
    using Suc.IH [OF rest] Suc.prems(2) by (simp_all add: n)
  have d: "bit ?d i \<longleftrightarrow> i < LENGTH('a) \<and> i < 4 \<and> bit n i" for i
    using nibble_bits [OF n(1)] by (auto simp: bit_of_nat_iff)
  have "drop_bit (4 * Suc k) w = drop_bit 4 (drop_bit (4 * k) w)" by (simp add: drop_bit_drop_bit add.commute)
  also have "\<dots> = take_bit (LENGTH('a) - 4 * Suc k) val"
    unfolding IH(1) by (intro bit_word_eqI) (auto simp: bit_simps dest: nibble_bits [OF n(1)])
  moreover have "drop_bit (4 * k) w AND mask 4 = ?d"
  proof (intro bit_word_eqI)
    fix i assume "i < LENGTH('a)"
    then show "bit (drop_bit (4 * k) w AND mask 4) i = bit ?d i"
      unfolding IH(1) using Suc.prems(2) nibble_bits [OF n(1), of i] by (auto simp: bit_simps)
  qed
  moreover have "unat ?d = n"
  proof -
    have "(2::nat) ^ 4 \<le> 2 ^ LENGTH('a)" using Suc.prems(2) by (intro power_increasing) auto
    then show ?thesis using n(1) by (simp add: unsigned_of_nat take_bit_nat_eq_self)
  qed
  ultimately show ?case using IH(2,3) by (simp add: p n(3))
qed auto


lemma hexpairs_sound:
  "hexpairs k p = Some (bs, r) \<Longrightarrow>
     length bs = k \<and> 2 * k \<le> length p \<and> r = drop (2 * k) p \<and> map lower (take (2 * k) p) = concat (map (hex 2) bs)"
proof (induction k arbitrary: p bs)
  case (Suc k)
  obtain b bs' where bs: "bs = b # bs'" and two: "hexdigits 2 p 0 = Some b" and rest: "hexpairs k (tl (tl p)) = Some (bs', r)"
    using Suc.prems by (auto simp: Let_def numeral_2_eq_2 split: if_splits bind_splits)
  have head: "2 \<le> length p \<and> map lower (take 2 p) = hex 2 b"
    using hexdigits_sound [OF two] by simp
  then obtain c d q where p: "p = c # d # q" by (auto simp: numeral_2_eq_2 Suc_le_length_iff)
  show ?case using Suc.IH [OF rest] head by (simp add: p bs)
qed simp

lemma skip_sound: "skip c p = Some r \<Longrightarrow> c \<noteq> CHR 0x00 \<Longrightarrow> p = c # r"
  by (cases p) (auto simp: skip_def cur_def split: if_splits)

lemma get_digits_sound:
  "get8hexdigits p = Some w \<Longrightarrow> 8 \<le> length p \<and> map lower (take 8 p) = hex 8 w"
  "get4hexdigits p = Some v \<Longrightarrow> 4 \<le> length p \<and> map lower (take 4 p) = hex 4 v"
  using hexdigits_sound [of 8 p 0 w] hexdigits_sound [of 4 p 0 v] by (auto simp: get8hexdigits_def get4hexdigits_def)

lemma lower_delims: "lower (CHR ''{'') = CHR ''{''" "lower (CHR ''-'') = CHR ''-''" "lower (CHR ''}'') = CHR ''}''"
  by (simp_all add: lower_def less_eq_char_def)

lemma split_at: "k \<le> length p \<Longrightarrow> drop k p = c # r \<Longrightarrow> p = take k p @ c # r"
  by (metis append_take_drop_id)


lemma parse_as_guid_sound:
  assumes "CHR 0x00 \<notin> set t" "parse_as_guid t = Some g"
  shows "length (Data4 g) = 8 \<and> map lower t = print_guid g"
proof -
  obtain t1 d1 t2 d2 t3 d3 t4 b1 t5 t6 b2 t7 t8 where
    1: "skip (CHR ''{'') t = Some t1" "get8hexdigits t1 = Some d1" "skip (CHR ''-'') (drop 8 t1) = Some t2" and
    2: "get4hexdigits t2 = Some d2" "skip (CHR ''-'') (drop 4 t2) = Some t3" and
    3: "get4hexdigits t3 = Some d3" "skip (CHR ''-'') (drop 4 t3) = Some t4" and
    4: "hexpairs 2 t4 = Some (b1, t5)" "skip (CHR ''-'') t5 = Some t6" and
    5: "hexpairs 6 t6 = Some (b2, t7)" "skip (CHR ''}'') t7 = Some t8" "cur t8 = CHR 0x00" and
    g: "g = \<lparr>Data1 = d1, Data2 = d2, Data3 = d3, Data4 = b1 @ b2\<rparr>"
    using assms(2) by (auto simp: parse_as_guid_def split: bind_splits if_splits)
  note parts = 1(1) [THEN skip_sound] 1(3) [THEN skip_sound, THEN split_at [rotated]] 2(2) [THEN skip_sound, THEN split_at [rotated]]
    3(2) [THEN skip_sound, THEN split_at [rotated]] 4(2) [THEN skip_sound] 5(2) [THEN skip_sound]
  have t1: "t1 = take 8 t1 @ CHR ''-'' # t2" "map lower (take 8 t1) = hex 8 d1"
    using get_digits_sound(1) [OF 1(2)] parts by auto
  have t2: "t2 = take 4 t2 @ CHR ''-'' # t3" "map lower (take 4 t2) = hex 4 d2"
    using get_digits_sound(2) [OF 2(1)] parts by auto
  have t3: "t3 = take 4 t3 @ CHR ''-'' # t4" "map lower (take 4 t3) = hex 4 d3"
    using get_digits_sound(2) [OF 3(1)] parts by auto
  have t4: "t4 = take 4 t4 @ CHR ''-'' # t6" "map lower (take 4 t4) = concat (map (hex 2) b1)" "length b1 = 2"
    using hexpairs_sound [OF 4(1)] parts(5) split_at [of 4 t4 "CHR ''-''" t6] by auto
  have t6: "t6 = take 12 t6 @ CHR ''}'' # t8" "map lower (take 12 t6) = concat (map (hex 2) b2)" "length b2 = 6"
    using hexpairs_sound [OF 5(1)] parts(6) split_at [of 12 t6 "CHR ''}''" t8] by auto
  have "t = CHR ''{'' # take 8 t1 @ CHR ''-'' # take 4 t2 @ CHR ''-'' # take 4 t3 @ CHR ''-'' # take 4 t4 @ CHR ''-'' # take 12 t6 @ CHR ''}'' # t8"
    using parts(1) t1(1) t2(1) t3(1) t4(1) t6(1) by simp
  moreover from this have "t8 = []" using assms(1) 5(3) by (cases t8) (auto simp: cur_def)
  ultimately have "map lower t = print_guid g"
    by (simp only: list.map map_append lower_delims t1(2) t2(2) t3(2) t4(2) t6(2))
      (simp add: print_guid_def g t4(3) t6(3))
  then show ?thesis by (simp add: g t4(3) t6(3))
qed


lemma lower_upper: "CHR ''A'' \<le> c \<and> c \<le> CHR ''Z'' \<Longrightarrow> \<exists>n. n < 26 \<and> c = char_of (65 + n :: nat)"
  by (rule exI [of _ "of_char c - 65"]) (auto simp: less_eq_char_def)

lemma lower_cases:
  "gethexdigit (lower c) = gethexdigit c" "lower c = CHR 0x00 \<longleftrightarrow> c = CHR 0x00" "lower c = CHR ''{'' \<longleftrightarrow> c = CHR ''{''"
  "lower c = CHR ''-'' \<longleftrightarrow> c = CHR ''-''" "lower c = CHR ''}'' \<longleftrightarrow> c = CHR ''}''"
proof -
  let ?ok = "\<lambda>c. gethexdigit (lower c) = gethexdigit c \<and> (lower c = CHR 0x00 \<longleftrightarrow> c = CHR 0x00) \<and>
    (lower c = CHR ''{'' \<longleftrightarrow> c = CHR ''{'') \<and> (lower c = CHR ''-'' \<longleftrightarrow> c = CHR ''-'') \<and> (lower c = CHR ''}'' \<longleftrightarrow> c = CHR ''}'')"
  have "\<forall>n \<in> set [0..<26 :: nat]. ?ok (char_of (65 + n))"
    by (simp add: upt_rec gethexdigit_def lower_def less_eq_char_def char_of_eq_iff)
  moreover have "\<not> (CHR ''A'' \<le> c \<and> c \<le> CHR ''Z'') \<Longrightarrow> lower c = c" by (auto simp: lower_def)
  ultimately have "?ok c" using lower_upper [of c] by (cases "CHR ''A'' \<le> c \<and> c \<le> CHR ''Z''") auto
  then show "gethexdigit (lower c) = gethexdigit c" "lower c = CHR 0x00 \<longleftrightarrow> c = CHR 0x00" "lower c = CHR ''{'' \<longleftrightarrow> c = CHR ''{''"
    "lower c = CHR ''-'' \<longleftrightarrow> c = CHR ''-''" "lower c = CHR ''}'' \<longleftrightarrow> c = CHR ''}''" by blast+
qed

lemma cur_lower [simp]: "cur (map lower p) = lower (cur p)"
  by (cases p) (simp_all add: cur_def lower_def less_eq_char_def)

lemma hexdigits_lower [simp]: "hexdigits k (map lower p) v = hexdigits k p v"
  by (induction k p v rule: hexdigits.induct) (simp_all add: lower_cases Let_def flip: map_tl)

lemma hexpairs_lower [simp]:
  "hexpairs k (map lower p) = map_option (\<lambda>(bs, r). (bs, map lower r)) (hexpairs k p)"
proof (induction k arbitrary: p)
  case (Suc k)
  then show ?case
    by (cases "hexpairs k (tl (tl p))") (auto simp: lower_cases Let_def simp flip: map_tl)
qed simp

lemma skip_lower:
  "c \<in> {CHR ''{'', CHR ''-'', CHR ''}''} \<Longrightarrow> skip c (map lower p) = map_option (map lower) (skip c p)"
  by (auto simp: skip_def lower_cases simp flip: map_tl)

lemma get_digits_lower [simp]:
  "get8hexdigits (map lower p) = get8hexdigits p" "get4hexdigits (map lower p) = get4hexdigits p"
  by (simp_all add: get8hexdigits_def get4hexdigits_def)

lemma parse_as_guid_lower: "parse_as_guid (map lower t) = parse_as_guid t"
  by (simp add: parse_as_guid_def skip_lower bind_map_option comp_def lower_cases case_prod_unfold drop_map cong: if_cong)


section \<open>Properties\<close>

lemma parse_print_guid: "length (Data4 g) = 8 \<Longrightarrow> parse_as_guid (print_guid g) = Some g"
proof -
  assume "length (Data4 g) = 8"
  then have len: "length (take 2 (Data4 g)) = 2" "length (drop 2 (Data4 g)) = 6" by simp_all
  note pairs = hexpairs_hex [of "take 2 (Data4 g)", unfolded len] hexpairs_hex [of "drop 2 (Data4 g)", unfolded len]
  show ?thesis by (simp add: parse_as_guid_def print_guid_def hex_Data pairs cur_def)
qed

lemma length_npf_prefix [simp]: "length npf_prefix = 12"
  by (simp add: npf_prefix_def)

text \<open>A GUID in the usual notation, in either case of its digits, and the part of a device name that may
  be one.\<close>

definition denotes_guid :: "string \<Rightarrow> GUID \<Rightarrow> bool" where
  "denotes_guid t g \<longleftrightarrow> length (Data4 g) = 8 \<and> map lower t = print_guid g"

definition guid_part :: "string \<Rightarrow> string \<Rightarrow> bool" where
  "guid_part name t \<longleftrightarrow> name = npf_prefix @ t \<or> t = name \<and> (\<nexists>u. name = npf_prefix @ u)"

lemma parse_as_guid_iff: "CHR 0x00 \<notin> set t \<Longrightarrow> parse_as_guid t = Some g \<longleftrightarrow> denotes_guid t g"
  using parse_as_guid_sound [of t g] parse_as_guid_lower [of t] parse_print_guid [of g]
  by (auto simp: denotes_guid_def)

lemma npf_prefix_iff: "take 12 name = npf_prefix \<longleftrightarrow> (\<exists>u. name = npf_prefix @ u)"
  by (metis append_eq_conv_conj append_take_drop_id length_npf_prefix)

lemma friendly_name_part:
  "guid_part name t \<Longrightarrow> get_windows_interface_friendly_name lookup name =
     (case parse_as_guid t of None \<Rightarrow> Some name | Some g \<Rightarrow> lookup g)"
  by (auto simp: get_windows_interface_friendly_name_def guid_part_def npf_prefix_iff)

text \<open>C35: the GUID parser accepts a name exactly when it is a GUID in the usual notation, in either case
  of its digits, and yields the value it denotes, every byte in its place. Of a device name the part
  after the prefix of the packet driver, or the whole name when it does not have the prefix, is looked up
  when it is a GUID, with or without the prefix; any other name is returned as it is.\<close>

theorem parse_as_guid_exact:
  assumes "CHR 0x00 \<notin> set name" and "guid_part name t"
  shows "(\<forall>g. parse_as_guid name = Some g \<longleftrightarrow> denotes_guid name g) \<and>
    (\<forall>g. denotes_guid t g \<longrightarrow> get_windows_interface_friendly_name lookup name = lookup g) \<and>
    ((\<forall>g. \<not> denotes_guid t g) \<longrightarrow> get_windows_interface_friendly_name lookup name = Some name)"
proof -
  have "CHR 0x00 \<notin> set t" using assms by (auto simp: guid_part_def)
  note t = parse_as_guid_iff [OF this]
  have "parse_as_guid t = None" if "\<forall>g. \<not> denotes_guid t g"
    using that t by (cases "parse_as_guid t") auto
  moreover have "parse_as_guid t = Some g" if "denotes_guid t g" for g using that t by simp
  ultimately show ?thesis
    using friendly_name_part [OF assms(2), of lookup] parse_as_guid_iff [OF assms(1)]
    by (intro conjI allI impI) simp_all
qed

text \<open>The witness: one GUID, in mixed case, without and with the prefix, and another device name.\<close>

theorem parse_as_guid_exact_witness:
  "let t = ''{8AB1c2D3-0012-fFFF-0102-03040506A7ff}'';
       g = \<lparr>Data1 = 0x8ab1c2d3, Data2 = 0x12, Data3 = 0xffff, Data4 = [1, 2, 3, 4, 5, 6, 0xa7, 255]\<rparr> in
   parse_as_guid t = Some g \<and>
   get_windows_interface_friendly_name (\<lambda>x. if x = g then Some ''Ethernet'' else None) t = Some ''Ethernet'' \<and>
   get_windows_interface_friendly_name (\<lambda>x. if x = g then Some ''Ethernet'' else None) (npf_prefix @ t) = Some ''Ethernet'' \<and>
   get_windows_interface_friendly_name Map.empty ''eth0'' = Some ''eth0''"
proof -
  let ?t = "''{8AB1c2D3-0012-fFFF-0102-03040506A7ff}''"
  let ?g = "\<lparr>Data1 = 0x8ab1c2d3, Data2 = 0x12, Data3 = 0xffff, Data4 = [1, 2, 3, 4, 5, 6, 0xa7, 255]\<rparr>"
  let ?l = "\<lambda>x. if x = ?g then Some ''Ethernet'' else None"
  have "map lower ?t = print_guid ?g" by code_simp
  then have g: "denotes_guid ?t ?g" by (simp add: denotes_guid_def)
  have no: "\<forall>h. \<not> denotes_guid ''eth0'' h"
    by (simp add: denotes_guid_def print_guid_def lower_def less_eq_char_def)
  have parts: "guid_part ?t ?t" "guid_part (npf_prefix @ ?t) ?t" "guid_part ''eth0'' ''eth0''"
    by (simp_all add: guid_part_def npf_prefix_def)
  have nul: "CHR 0x00 \<notin> set ?t" "CHR 0x00 \<notin> set (npf_prefix @ ?t)" "CHR 0x00 \<notin> set ''eth0''"
    by (simp_all add: npf_prefix_def)
  note bare = parse_as_guid_exact [OF nul(1) parts(1), of ?l] and pre = parse_as_guid_exact [OF nul(2) parts(2), of ?l]
    and other = parse_as_guid_exact [OF nul(3) parts(3), of Map.empty]
  have "parse_as_guid ?t = Some ?g" using bare g by blast
  moreover have "get_windows_interface_friendly_name ?l ?t = ?l ?g" using bare g by blast
  moreover have "get_windows_interface_friendly_name ?l (npf_prefix @ ?t) = ?l ?g" using pre g by blast
  moreover have "get_windows_interface_friendly_name Map.empty ''eth0'' = Some ''eth0''" using other no by blast
  ultimately show ?thesis unfolding Let_def by simp
qed

end
