(* ===== verification/Windows_Devices.thy ===== *)
theory Windows_Devices
  imports Windows_Guid Module
begin

text \<open>
  The Windows build of the module functions (\<open>src/pcapy.cc\<close>): devices are listed under their friendly
  names, and \<open>open_live\<close> translates a friendly name back to the device name of the packet driver. The
  API of \<open>iphlpapi.dll\<close>, the conversion to UTF-8 and \<open>pcap_findalldevs\<close> are parameters.
\<close>

section \<open>Friendly names\<close>

text \<open>\<open>guid_to_luid\<close>: \<open>api\<close> is the undocumented function of the DLL, when it is exported: its result code
  and the wide string it stores; \<open>junk_status\<close> and \<open>junk_name\<close> are what the uninitialised locals hold.
  \<open>utf8\<close> is \<open>WideCharToMultiByte\<close>, \<open>None\<close> when it converts nothing and returns 0.\<close>

definition guid_to_luid ::
  "(GUID \<Rightarrow> int \<times> u16 list) option \<Rightarrow> int \<Rightarrow> u16 list \<Rightarrow> (u16 list \<Rightarrow> string option) \<Rightarrow> (nat \<Rightarrow> bool) \<Rightarrow>
     GUID \<Rightarrow> string option" where
  "guid_to_luid api junk_status junk_name utf8 alloc guid =
     (let (status, wName) =
        (case api of None \<Rightarrow> (junk_status, junk_name)
         | Some f \<Rightarrow> (case f guid of (rc, name) \<Rightarrow> (if rc = 0 then 1 else 0, name))) in
      if status = 0 then None
      else (case utf8 wName of
              None \<Rightarrow> None
            | Some name \<Rightarrow> if alloc (length name + 1) then Some name else None))"

section \<open>Listing the devices\<close>

text \<open>\<open>Py_BuildValue("s", luid)\<close> makes None of a NULL pointer; \<open>names\<close> is a friendly-name function.\<close>

definition findalldevs_windows ::
  "(string \<Rightarrow> string option) \<Rightarrow> string + string list option \<Rightarrow> string option list cret" where
  "findalldevs_windows friendly devs =
     (case devs of Inl errbuff \<Rightarrow> raises (PcapError errbuff)
      | Inr None \<Rightarrow> raises (PcapError ''No valid interfaces to open'')
      | Inr (Some names) \<Rightarrow> returns (map friendly names))"

section \<open>Back to device names\<close>

text \<open>The loop of \<open>luid_to_guid\<close>; \<open>None\<close> is \<open>strcmp\<close> on a NULL pointer.\<close>

fun luid_search :: "(string \<Rightarrow> string option) \<Rightarrow> string \<Rightarrow> string list \<Rightarrow> string option option" where
  "luid_search friendly luid [] = Some None"
| "luid_search friendly luid (name # rest) =
     (case friendly name of None \<Rightarrow> None
      | Some cursor_luid \<Rightarrow> if cursor_luid = luid then Some (Some name) else luid_search friendly luid rest)"

definition luid_to_guid ::
  "(string \<Rightarrow> string option) \<Rightarrow> string + string list option \<Rightarrow> string \<Rightarrow> string cret option" where
  "luid_to_guid friendly devs luid =
     (case devs of Inl errbuff \<Rightarrow> Some (raises (PcapError errbuff))
      | Inr None \<Rightarrow> Some (raises (PcapError ''No valid interfaces to open''))
      | Inr (Some names) \<Rightarrow> map_option (\<lambda>r. (r, None)) (luid_search friendly luid names))"

text \<open>\<open>open_live\<close> with the translation in front: the error indicator that \<open>luid_to_guid\<close> may have set is
  still set when the capture is opened; an error of \<open>pcap_open_live\<close> replaces it.\<close>

definition open_live_windows ::
  "(string \<Rightarrow> string option) \<Rightarrow> string + string list option \<Rightarrow> (string \<Rightarrow> int \<times> u32 \<times> u32) \<Rightarrow>
     (string \<Rightarrow> int \<Rightarrow> bool \<Rightarrow> int \<Rightarrow> string + nat) \<Rightarrow> pcapobject \<Rightarrow> exn + (string \<times> int \<times> int \<times> int) \<Rightarrow>
     pcapobject cret option" where
  "open_live_windows friendly devs lookupnet pcap_open_live fresh args =
     (case args of Inl ex \<Rightarrow> Some (raises ex)
      | Inr (old_device, snaplen, promisc, to_ms) \<Rightarrow> do {
          (guid, pending) \<leftarrow> luid_to_guid friendly devs old_device;
          let device = (case guid of None \<Rightarrow> old_device | Some d \<Rightarrow> d);
          let (n, m) = net_and_mask (lookupnet device);
          Some (case pcap_open_live device snaplen (promisc \<noteq> 0) to_ms of
                  Inl errbuff \<Rightarrow> raises (PcapError errbuff)
                | Inr pt \<Rightarrow> (Some (new_pcapobject fresh pt n m), pending)) })"

section \<open>Properties\<close>

lemma luid_search_first:
  assumes "\<forall>d \<in> set names. friendly d \<noteq> None"
  shows "luid_search friendly luid names = Some (find (\<lambda>d. friendly d = Some luid) names)"
  using assms by (induction names) auto

lemma find_distinct:
  "distinct (map f xs) \<Longrightarrow> i < length xs \<Longrightarrow> find (\<lambda>x. f x = f (xs ! i)) xs = Some (xs ! i)"
  by (auto simp: find_Some_iff distinct_conv_nth intro!: exI [of _ i])

lemma open_live_windows_translated:
  assumes "luid_to_guid friendly devs device = Some (Some dev, None)"
  shows "open_live_windows friendly devs lookupnet pol fresh (Inr (device, args)) =
    Some (open_live lookupnet pol fresh (Inr (dev, args)))"
  using assms by (cases args) (auto simp: open_live_windows_def open_live_def Let_def split: prod.split sum.split)

text \<open>C36: on Windows, opening a capture under a name that \<open>findalldevs()\<close> listed opens the device it was
  listed for, when the system knows a friendly name for every device and no two are the same.\<close>

theorem listed_device_opens:
  assumes "findalldevs_windows friendly (Inr (Some devs)) = returns listed"
    and "None \<notin> set listed" "distinct listed" "i < length listed"
  shows "length listed = length devs \<and>
    open_live_windows friendly (Inr (Some devs)) lookupnet pol fresh (Inr (the (listed ! i), args)) =
      Some (open_live lookupnet pol fresh (Inr (devs ! i, args)))"
proof -
  have listed: "listed = map friendly devs" using assms(1) by (simp add: findalldevs_windows_def)
  then have known: "\<forall>d \<in> set devs. friendly d \<noteq> None" using assms(2) by force
  then obtain luid where luid: "friendly (devs ! i) = Some luid"
    using assms(4) nth_mem by (fastforce simp: listed)
  have "find (\<lambda>d. friendly d = Some luid) devs = Some (devs ! i)"
    using find_distinct [of friendly devs i] assms(3,4) by (simp add: listed luid)
  then have "luid_to_guid friendly (Inr (Some devs)) luid = Some (Some (devs ! i), None)"
    by (simp add: luid_to_guid_def luid_search_first [OF known])
  then show ?thesis using assms(4) by (simp add: listed luid open_live_windows_translated)
qed

theorem listed_device_opens_witness:
  "open_live_windows (\<lambda>d. Some (rev d)) (Inr (Some [''NPF_1'', ''NPF_2''])) (\<lambda>_. (1, 0, 0))
      (\<lambda>d _ _ _. if d = ''NPF_2'' then Inr 7 else Inl ''wrong device'')
      \<lparr>pcap = None, net = 0, netmask = 0, filt_counts = [], filt_profile = 0\<rparr> (Inr (''2_FPN'', 100, 1, 0)) =
    Some (returns \<lparr>pcap = Some 7, net = 0, netmask = 0, filt_counts = [], filt_profile = 0\<rparr>)"
  using listed_device_opens [of "\<lambda>d. Some (rev d)" "[''NPF_1'', ''NPF_2'']" "[Some ''1_FPN'', Some ''2_FPN'']" 1
      "\<lambda>_. (1, 0, 0)" "\<lambda>d _ _ _. if d = ''NPF_2'' then Inr 7 else Inl ''wrong device''"
      "\<lparr>pcap = None, net = 0, netmask = 0, filt_counts = [], filt_profile = 0\<rparr>" "(100, 1, 0)"]
  by (simp add: findalldevs_windows_def open_live_def net_and_mask_def new_pcapobject_def)

text \<open>When \<open>luid_to_guid\<close> fails to list the devices, \<open>open_live()\<close> goes on with the name as given and, if
  libpcap opens it, returns a capture object with the exception still set: it breaks the calling
  convention of the interpreter. A device without a friendly name crashes the search.\<close>

theorem open_live_windows_pending_exception:
  assumes "pol device snaplen (promisc \<noteq> 0) to_ms = Inr pt"
  shows "\<exists>obj. open_live_windows friendly (Inl err) lookupnet pol fresh (Inr (device, snaplen, promisc, to_ms)) =
        Some (Some obj, Some (PcapError err)) \<and> \<not> conventional (Some obj, Some (PcapError err)) \<and>
      (friendly d = None \<longrightarrow>
        open_live_windows friendly (Inr (Some (d # ds))) lookupnet pol fresh (Inr (device, snaplen, promisc, to_ms)) = None)"
  using assms by (auto simp: open_live_windows_def luid_to_guid_def Let_def conventional_def split: prod.split)


theorem open_live_windows_pending_exception_witness:
  "\<exists>obj. open_live_windows (\<lambda>_. None) (Inl ''no permission'') (\<lambda>_. (1, 0, 0)) (\<lambda>_ _ _ _. Inr 7)
      \<lparr>pcap = None, net = 0, netmask = 0, filt_counts = [], filt_profile = 0\<rparr> (Inr (''eth'', 100, 1, 0)) =
        Some (Some obj, Some (PcapError ''no permission''))"
  using open_live_windows_pending_exception [of "\<lambda>_ _ _ _. Inr 7" "''eth''" 100 1 0 7 "\<lambda>_. None"
      "''no permission''" "\<lambda>_. (1, 0, 0)" "\<lparr>pcap = None, net = 0, netmask = 0, filt_counts = [], filt_profile = 0\<rparr>"
      "''d''" "[]"]
  by auto

end
