(* ===== verification/Draining.thy ===== *)
theory Draining
  imports Batch
begin

text \<open>
  The batch API as a consumer uses it (\<open>next_batch\<close> of \<open>src/pcapobj.cc\<close>, read in a loop until a batch
  is empty): reading a capture file in batches ends and gives every packet exactly once.
\<close>

section \<open>The reading loop\<close>

text \<open>\<open>lib rest\<close> is \<open>pcap_dispatch\<close> when the packets \<open>rest\<close> of the file are still to be read; a call
  consumes what it offers. The loop collects the packets of all batches; \<open>None\<close> when a call fails or
  \<open>fuel\<close> calls are not enough.\<close>

fun drain ::
  "endian \<Rightarrow> (nat \<Rightarrow> bool) \<Rightarrow> u8 \<Rightarrow> BatchMeta \<Rightarrow> (packet list \<Rightarrow> BatchCtx pcap_loop) \<Rightarrow> (nat \<Rightarrow> string) \<Rightarrow>
     pcapobject \<Rightarrow> cint \<Rightarrow> nat \<Rightarrow> packet list \<Rightarrow> (u32 \<times> u32 \<times> u8 list) list option" where
  "drain e alloc fill junk lib geterr pp n 0 rest = None"
| "drain e alloc fill junk lib geterr pp n (Suc fuel) rest =
     (case p_next_batch e alloc fill junk (lib rest) geterr (Obj pp) (Inr n) of
        Some (Some res, None) \<Rightarrow>
          if snd res = [] then Some []
          else map_option ((@) (unpack_batch e res))
                 (drain e alloc fill junk lib geterr pp n fuel (drop (length (offered (sint (batch_count n)) rest)) rest))
      | _ \<Rightarrow> None)"

text \<open>How many calls that takes: one per full batch, one for the rest, and the empty one.\<close>

definition batches :: "cint \<Rightarrow> nat \<Rightarrow> nat" where
  "batches n k = (k + unat (batch_count n) - 1) div unat (batch_count n) + 1"

definition delivered :: "packet \<Rightarrow> u32 \<times> u32 \<times> u8 list" where
  "delivered x = (ucast (tv_sec (fst x)), ucast (tv_usec (fst x)), take (unat (h_caplen (fst x))) (snd x))"

lemma batch_count_pos: "0 < unat (batch_count n)"
  using batch_count_bounds [of n] by linarith

lemma offered_batch: "offered (sint (batch_count n)) xs = take (unat (batch_count n)) xs"
proof -
  have "nat (sint (batch_count n)) = unat (batch_count n)" using batch_count_bounds(2) [of n] by (metis nat_int)
  then show ?thesis using batch_count_bounds(1) [of n] by (simp only: offered_def if_True)
qed

lemma batches_step: "0 < k \<Longrightarrow> batches n k = Suc (batches n (k - unat (batch_count n)))"
proof -
  assume k: "0 < k"
  let ?M = "unat (batch_count n)"
  have M: "0 < ?M" by (rule batch_count_pos)
  show ?thesis
  proof (cases "?M \<le> k")
    case True
    then have eq: "k + ?M - 1 = (k - ?M + ?M - 1) + ?M" using k M by simp
    have "(k + ?M - 1) div ?M = (k - ?M + ?M - 1) div ?M + 1"
      unfolding eq by (rule div_add_self2) (use M in simp)
    then show ?thesis by (simp add: batches_def)
  next
    case False
    then have "(k + ?M - 1) div ?M = 1" "(0 + ?M - 1) div ?M = 0" "k - ?M = 0"
      using k M by (auto intro: div_nat_eqI)
    then show ?thesis by (simp add: batches_def)
  qed
qed

lemma batch_size_split: "batch_size (take k xs) + batch_size (drop k xs) = batch_size xs"
  by (simp only: batch_size_def flip: sum_list_append map_append) simp

lemma next_batch_meta:
  assumes "dispatch_contract pd src 0 brk" and "\<forall>x \<in> set src. captured x" and "pcap pp = Some h"
    and "\<forall>k. alloc k" and "batch_size (take (unat (batch_count n)) src) < 2 ^ 32"
  shows "\<exists>res. p_next_batch e alloc fill junk pd geterr (Obj pp) (Inr n) = Some (returns res) \<and>
    (snd res = [] \<longleftrightarrow> src = []) \<and> unpack_batch e res = map delivered (take (unat (batch_count n)) src)"
proof -
  let ?xs = "take (unat (batch_count n)) src"
  obtain res where res: "p_next_batch e alloc fill junk pd geterr (Obj pp) (Inr n) = Some (returns res)"
      "unpack_batch e res = map delivered ?xs"
    using next_batch_unpacks [OF assms(1-4), of n e fill junk geterr] assms(5)
    by (auto simp: offered_batch delivered_def)
  have "snd res = concat (map (meta_bytes e) (batch_records 0 ?xs))"
    using next_batch_returns [OF assms(1-4), of e fill junk geterr n] res(1) by (simp add: offered_batch Let_def)
  moreover have "meta_bytes e m \<noteq> []" for m using length_meta_bytes [of e m] by (metis length_0_conv zero_neq_numeral)
  moreover have "batch_records 0 ?xs = [] \<longleftrightarrow> src = []"
    using batch_count_pos [of n] by (metis length_0_conv length_batch_records take_eq_Nil not_less_zero)
  ultimately show ?thesis using res by auto
qed

text \<open>C13: reading a capture file batch by batch until a batch is empty ends, after one call per full
  batch, one for the remainder and the empty one, and gives every packet of the file exactly once, in
  order and with its time, for every batch size with which all batches stay below 4 GiB, as long as memory
  is available and the file is read without an error.\<close>

theorem draining_reads_everything:
  assumes "\<forall>rest. dispatch_contract (lib rest) rest 0 brk" and "pcap pp = Some h" and "\<forall>k. alloc k"
    and "\<forall>x \<in> set pkts. captured x"
    and "\<forall>i. batch_size (take (unat (batch_count n)) (drop i pkts)) < 2 ^ 32"
  shows "drain e alloc fill junk lib geterr pp n (batches n (length pkts) + spare) pkts = Some (map delivered pkts)"
  using assms(4,5)
proof (induction pkts rule: measure_induct_rule [of length])
  case (less xs)
  let ?M = "unat (batch_count n)"
  have small: "batch_size (take ?M xs) < 2 ^ 32" using less.prems(2) [rule_format, of 0] by simp
  obtain res where res: "p_next_batch e alloc fill junk (lib xs) geterr (Obj pp) (Inr n) = Some (returns res)"
      "snd res = [] \<longleftrightarrow> xs = []" "unpack_batch e res = map delivered (take ?M xs)"
    using next_batch_meta [OF assms(1) [rule_format] less.prems(1) assms(2,3) small] by blast
  show ?case
  proof (cases "xs = []")
    case True
    then show ?thesis using res by (simp add: batches_def)
  next
    case False
    then have shorter: "length (drop ?M xs) < length xs" using batch_count_pos [of n] by simp
    have "\<forall>x \<in> set (drop ?M xs). captured x" using less.prems(1) by (auto dest: in_set_dropD)
    moreover have "\<forall>i. batch_size (take ?M (drop i (drop ?M xs))) < 2 ^ 32" using less.prems(2) by simp
    ultimately have "drain e alloc fill junk lib geterr pp n (batches n (length xs - ?M) + spare) (drop ?M xs) =
        Some (map delivered (drop ?M xs))"
      using less.IH [OF shorter] by simp
    moreover have "drop (length (take ?M xs)) xs = drop ?M xs" by (simp add: min_def)
    ultimately show ?thesis using res False batches_step [of "length xs" n]
      by (simp del: length_take add: offered_batch flip: map_append)
  qed
qed


theorem draining_reads_everything_witness:
  "drain Little (\<lambda>_. True) 0 \<lparr>m_sec = 0, m_usec = 0, m_off = 0, m_len = 0\<rparr> (\<lambda>rest. reference_dispatch rest 0 0)
      (\<lambda>_. []) sample_object 2 (batches 2 3 + 0) [sample_packet [1], sample_packet [], sample_packet [2, 3]] =
    Some (map delivered [sample_packet [1], sample_packet [], sample_packet [2, 3]]) \<and> batches 2 3 = 3"
proof -
  let ?pkts = "[sample_packet [1], sample_packet [], sample_packet [2, 3]]"
  have "batch_size (take k (drop i ?pkts)) \<le> batch_size ?pkts" for k i
    using batch_size_split [of k "drop i ?pkts"] batch_size_split [of i ?pkts] by linarith
  moreover have "batch_size ?pkts < 2 ^ 32" by (simp add: batch_size_def sample_packet_def)
  ultimately have "\<forall>i. batch_size (take (unat (batch_count 2)) (drop i ?pkts)) < 2 ^ 32" by (meson le_less_trans)
  then have "drain Little (\<lambda>_. True) 0 \<lparr>m_sec = 0, m_usec = 0, m_off = 0, m_len = 0\<rparr> (\<lambda>rest. reference_dispatch rest 0 0)
      (\<lambda>_. []) sample_object 2 (batches 2 (length ?pkts) + 0) ?pkts = Some (map delivered ?pkts)"
    by (intro draining_reads_everything [where h = 1 and brk = 0])
      (auto simp: reference_dispatch_contract sample_packet_def captured_def)
  moreover have "length ?pkts = 3" by simp
  moreover have "batches 2 3 = 3" by (simp add: batches_def batch_count_def)
  ultimately show ?thesis by (simp only: simp_thms)
qed

end
