(* ===== verification/Copying.thy ===== *)
theory Copying
  imports Module Filtered
begin

text \<open>
  Components together: copying a capture by calling \<open>dump()\<close> of a dumper (\<open>src/pcapdumper.cc\<close>) from the
  callback of \<open>loop()\<close> or \<open>loop_filtered()\<close> (\<open>src/pcapobj.cc\<close>), through the packet-header objects that
  pass between them (\<open>src/pcap_pkthdr.cc\<close>).
\<close>

section \<open>A callback that dumps\<close>

text \<open>\<open>lambda hdr, data: dumper.dump(hdr, data)\<close>: the exception the last call raises.\<close>

definition dump_args :: "pkthdr \<times> u8 list \<Rightarrow> exn + (pkthdr pyobj \<times> u8 list)" where
  "dump_args c = Inr (Obj (fst c), snd c)"

definition dump_callback :: "pcapdumper \<Rightarrow> (pkthdr \<times> u8 list) list \<Rightarrow> exn option" where
  "dump_callback d cs =
     (case p_dump (Obj d) (dump_args (last cs)) of Some (recs, r) \<Rightarrow> snd r | None \<Rightarrow> None)"

text \<open>What the calls write; \<open>None\<close> when one of them reads outside its data.\<close>

fun dumped :: "pcapdumper \<Rightarrow> (pkthdr \<times> u8 list) list \<Rightarrow> (pcap_pkthdr \<times> u8 list) list option" where
  "dumped d [] = Some []"
| "dumped d (c # cs) = do { (recs, r) \<leftarrow> p_dump (Obj d) (dump_args c); rest \<leftarrow> dumped d cs; Some (recs @ rest) }"

text \<open>The same, when the callback of \<open>loop_filtered\<close> ignores the class.\<close>

definition without_class :: "pkthdr \<times> u8 list \<times> nat \<Rightarrow> pkthdr \<times> u8 list" where
  "without_class c = (fst c, fst (snd c))"

definition recorded_packet :: "packet \<Rightarrow> pcap_pkthdr \<times> u8 list" where
  "recorded_packet x = (fst x, take (unat (h_caplen (fst x))) (snd x))"

lemma dump_delivered:
  assumes "dumper d = Some k" and "captured x"
  shows "p_dump (Obj d) (dump_args (py_args x)) = Some ([recorded_packet x], returns ())"
  using assms
  by (simp add: p_dump_def validate_pcapdumper_def dump_args_def py_args_def bytes_of_def captured_def recorded_packet_def min_def)

lemma dump_callback_silent:
  assumes "dumper d = Some k" and "\<forall>x \<in> set xs. captured x"
  shows "never_raises (dump_callback d) (map py_args xs)"
proof -
  have "dump_callback d (take n (map py_args xs)) = None" if "0 < n" "n \<le> length xs" for n
  proof -
    have "last (take n (map py_args xs)) = py_args (xs ! (n - 1))"
      using that by (cases n) (simp_all add: take_Suc_conv_app_nth)
    moreover have "captured (xs ! (n - 1))" using assms(2) that by simp
    ultimately show ?thesis using dump_delivered [OF assms(1)] by (simp add: dump_callback_def)
  qed
  then show ?thesis by (simp add: never_raises_def)
qed

lemma dumped_delivered:
  assumes "dumper d = Some k" and "\<forall>x \<in> set xs. captured x"
  shows "dumped d (map py_args xs) = Some (map recorded_packet xs)"
  using assms(2) by (induction xs) (simp_all add: dump_delivered [OF assms(1)])

section \<open>Properties\<close>

text \<open>C24: a loop whose callback dumps what it is given copies the capture: every packet of it is written
  once, in order, with the very header libpcap delivered and exactly its captured bytes; no dump raises
  or reads outside its data, and the loop returns None.\<close>

theorem dumping_copies_capture:
  assumes "loop_contract pl src 0 brk" and "\<forall>x \<in> set src. captured x" and "pcap pp = Some h" and "dumper d = Some k"
  shows "\<exists>made. p_loop pl geterr (dump_callback d) (Obj pp) (Inr n) = Some (made, returns ()) \<and>
    dumped d made = Some (map recorded_packet (offered n src))"
proof -
  have cap: "\<forall>x \<in> set (offered n src). captured x" using assms(2) set_offered by metis
  note silent = dump_callback_silent [OF assms(4) cap]
  then have "\<not> first_raise (dump_callback d) (map py_args (offered n src)) m" for m
    by (auto simp: first_raise_def never_raises_def)
  then have "deliver (PythonCallBack (dump_callback d)) \<lparr>calls = [], pyerr = None\<rparr> (offered n src) =
      Some (\<lparr>calls = map py_args (offered n src), pyerr = None\<rparr>, False)"
    using plain_run [OF assms(2), of "dump_callback d" n] by blast
  then have "p_loop pl geterr (dump_callback d) (Obj pp) (Inr n) = Some (map py_args (offered n src), returns ())"
    using assms(1,3) by (auto simp: p_loop_def loop_contract_def)
  then show ?thesis using dumped_delivered [OF assms(4) cap] by blast
qed

theorem dumping_copies_capture_witness:
  "\<exists>made. p_loop (reference_loop [sample_packet [0, 0], sample_packet []] 0 (- 2)) (\<lambda>_. [])
      (dump_callback (new_pcapdumper 5)) (Obj sample_object) (Inr 0) = Some (made, returns ()) \<and>
    dumped (new_pcapdumper 5) made = Some (map recorded_packet (offered 0 [sample_packet [0, 0], sample_packet []]))"
  by (rule dumping_copies_capture [OF reference_loop_contract]) (simp_all add: new_pcapdumper_def)

text \<open>With a dumping callback, \<open>loop_filtered()\<close> writes the packets of the admitted classes and no
  others, in the order of the capture: filtering and dumping do not change a packet.\<close>

theorem filtered_dump_selects:
  assumes "loop_contract pl src 0 brk" and "\<forall>x \<in> set src. captured x" and "pcap pp = Some h"
    and "classcfg_of alloc filtered_msg a = Inr config" and "\<forall>k. alloc k"
    and "\<forall>s. a_addr_set a = Some s \<longrightarrow> length s < 2 ^ 32" and "dumper d = Some k"
  defines "xs \<equiv> offered (a_cnt a) src"
  shows "\<exists>self' made r. p_loop_filtered e alloc pl geterr pi0 (\<lambda>cs. dump_callback d (map without_class cs)) (Obj pp) (Inr a) =
      Some (self', made, returns r) \<and>
    dumped d (map without_class made) = Some (map recorded_packet (map fst
      (filter (\<lambda>(x, c). admits (a_admit_mask a) c) (zip xs (run_classes e alloc a config xs)))))"
proof -
  let ?py = "\<lambda>cs. dump_callback d (map without_class cs)" and ?all = "run_calls e alloc a config xs"
  let ?kept = "\<lambda>ys. map fst (filter (\<lambda>(x, c). admits (a_admit_mask a) c) (zip ys (run_classes e alloc a config ys)))"
  have cap: "\<forall>x \<in> set xs. captured x" using assms(2) set_offered unfolding xs_def by metis
  have calls: "map without_class (run_calls e alloc a config ys) = map py_args (?kept ys)" for ys
    by (auto simp: run_calls_def admitted_calls_def without_class_def comp_def intro!: map_cong split: prod.split)
  have kept: "\<forall>x \<in> set (?kept ys). captured x" if "\<forall>x \<in> set ys. captured x" for ys
    using that by (auto dest: set_zip_leftD)
  have silent: "\<not> first_raise ?py (run_calls e alloc a config ys) (length (run_calls e alloc a config ys))"
    if "\<forall>x \<in> set ys. captured x" for ys
  proof
    let ?made = "run_calls e alloc a config ys"
    assume "first_raise ?py ?made (length ?made)"
    then have "0 < length ?made" "dump_callback d (map without_class ?made) \<noteq> None" by (simp_all add: first_raise_def)
    moreover have "length (map py_args (?kept ys)) = length ?made" using calls [of ys] by (metis length_map)
    ultimately show False
      using dump_callback_silent [OF assms(7) kept [OF that]] by (simp only: calls never_raises_def) (metis order_refl take_all)
  qed
  have "\<not> first_raise ?py (run_calls e alloc a config (take n xs)) (length (run_calls e alloc a config (take n xs)))" for n
    by (rule silent) (use cap in \<open>auto dest: in_set_takeD\<close>)
  then have "\<exists>self' r. p_loop_filtered e alloc pl geterr pi0 ?py (Obj pp) (Inr a) = Some (self', ?all, returns r)"
    using filtered_run [OF assms(1-6), of ?py e geterr pi0] unfolding xs_def [symmetric] Let_def
    by (auto simp: loop_end_def)
  then show ?thesis
    using dumped_delivered [OF assms(7) kept [OF cap]] by (auto simp: calls)
qed


theorem filtered_dump_selects_witness:
  "\<exists>self' made r. p_loop_filtered Little (\<lambda>_. True) (reference_loop [sample_packet [0, 0]] 0 (- 2)) (\<lambda>_. []) no_info
      (\<lambda>cs. dump_callback (new_pcapdumper 5) (map without_class cs)) (Obj sample_object) (Inr (default_args 0)) =
      Some (self', made, returns r) \<and>
    dumped (new_pcapdumper 5) (map without_class made) = Some (map recorded_packet (map fst
      (filter (\<lambda>(x, c). admits 7 c) (zip (offered 0 [sample_packet [0, 0]])
        (run_classes Little (\<lambda>_. True) (default_args 0) (default_cfg 0) (offered 0 [sample_packet [0, 0]]))))))"
  using filtered_dump_selects [OF reference_loop_contract _ _ default_args_cfg [where n = 0], where src = "[sample_packet [0, 0]]"
      and pp = sample_object and h = 1 and alloc = "\<lambda>_. True" and d = "new_pcapdumper 5" and k = 5 and e = Little
      and brk = "- 2" and geterr = "\<lambda>_. []" and ?pi0.0 = no_info]
  by (simp add: new_pcapdumper_def)

end
