(* ===== verification/Reading.thy ===== *)
theory Reading
  imports Draining Reader Copying Ring_Buffer
begin

text \<open>
  Reading one capture file with the methods of the Reader in any mixture (\<open>next\<close>, \<open>dispatch\<close>, \<open>loop\<close>,
  \<open>loop_filtered\<close>, \<open>loop_to_buffer\<close>, \<open>next_batch\<close> of \<open>src/pcapobj.cc\<close>): what each call sees, and that together they see the
  file, in order, without losing or repeating a packet.
\<close>

section \<open>The file\<close>

text \<open>libpcap on a file, as a function of the packets that are still to be read; the loop functions come
  once for each type of context.\<close>

record savefile_api =
  lib_loop :: "packet list \<Rightarrow> pyctx pcap_loop"
  lib_dispatch :: "packet list \<Rightarrow> pyctx pcap_loop"
  lib_filtered :: "packet list \<Rightarrow> FilteredContext pcap_loop"
  lib_buffer :: "packet list \<Rightarrow> BufferCtx pcap_loop"
  lib_batch :: "packet list \<Rightarrow> BatchCtx pcap_loop"
  lib_next :: "packet list \<Rightarrow> nat \<Rightarrow> int \<times> packet"

locale savefile =
  fixes lib :: savefile_api and fin brk :: int
  assumes loop_file: "loop_contract (lib_loop lib rest) rest fin brk"
    and dispatch_file: "dispatch_contract (lib_dispatch lib rest) rest 0 brk"
    and filtered_file: "loop_contract (lib_filtered lib rest) rest fin brk"
    and buffer_file: "loop_contract (lib_buffer lib rest) rest fin brk"
    and batch_file: "dispatch_contract (lib_batch lib rest) rest 0 brk"
    and next_file: "lib_next lib (x # rest) h = (1, x)"
    and next_end: "fst (lib_next lib [] h) = - 2"

definition reference_file :: "int \<Rightarrow> int \<Rightarrow> savefile_api" where
  "reference_file fin brk = \<lparr>lib_loop = (\<lambda>rest. reference_loop rest fin brk),
     lib_dispatch = (\<lambda>rest. reference_dispatch rest 0 brk), lib_filtered = (\<lambda>rest. reference_loop rest fin brk),
     lib_buffer = (\<lambda>rest. reference_loop rest fin brk), lib_batch = (\<lambda>rest. reference_dispatch rest 0 brk),
     lib_next = (\<lambda>rest h. case rest of [] \<Rightarrow> (- 2, sample_packet []) | x # xs \<Rightarrow> (1, x))\<rparr>"

interpretation reference: savefile "reference_file fin brk" fin brk
  by unfold_locales (simp_all add: reference_file_def reference_loop_contract reference_dispatch_contract)

section \<open>Reading\<close>

text \<open>A call of a reading method, with its Python function where it has one.\<close>

datatype reading =
    ReadNext
  | ReadDispatch int "(pkthdr \<times> u8 list) list \<Rightarrow> exn option"
  | ReadLoop int "(pkthdr \<times> u8 list) list \<Rightarrow> exn option"
  | ReadFiltered loop_args "(pkthdr \<times> u8 list \<times> nat) list \<Rightarrow> exn option"
  | ReadBuffer "u8 list" loop_args
  | ReadBatch cint

text \<open>What a script sees of a packet: its bytes, and its time, save in the slots of a buffer.\<close>

type_synonym sight = "(u32 \<times> u32) option \<times> u8 list"

definition timed :: "u32 \<times> u32 \<times> u8 list \<Rightarrow> sight" where
  "timed = (\<lambda>(sec, usec, data). (Some (sec, usec), data))"

definition sight_of :: "packet \<Rightarrow> sight" where
  "sight_of x = timed (delivered x)"

definition seen_by :: "pkthdr \<times> u8 list \<Rightarrow> sight" where
  "seen_by c = (Some (ucast (fst (ts (fst c))), ucast (snd (ts (fst c)))), snd c)"

lemma seen_by_args [simp]: "seen_by (py_args x) = sight_of x"
  by (simp add: seen_by_def py_args_def sight_of_def timed_def delivered_def new_pcap_pkthdr_def)

text \<open>One call: what it saw, the object and the packets that are left. libpcap has taken from the file
  what it handed to the callback.\<close>

fun read_call ::
  "endian \<Rightarrow> (nat \<Rightarrow> bool) \<Rightarrow> u8 \<Rightarrow> BatchMeta \<Rightarrow> mt_pktinfo \<Rightarrow> (nat \<Rightarrow> string) \<Rightarrow> savefile_api \<Rightarrow>
     pcapobject \<times> packet list \<Rightarrow> reading \<Rightarrow> (sight list \<times> pcapobject \<times> packet list) option" where
  "read_call e alloc fill junk pi0 geterr lib (pp, rest) ReadNext = do {
     r \<leftarrow> p_next (lib_next lib rest) geterr (Obj pp);
     (case r of (Some (Some hdr, data), None) \<Rightarrow> Some ([seen_by (hdr, data)], (pp, drop 1 rest))
      | (Some (None, data), None) \<Rightarrow> Some ([], (pp, rest))
      | _ \<Rightarrow> None) }"
| "read_call e alloc fill junk pi0 geterr lib (pp, rest) (ReadDispatch n py) = do {
     (made, r) \<leftarrow> p_dispatch (lib_dispatch lib rest) geterr py (Obj pp) (Inr n);
     Some (map seen_by made,
       (pp, drop (consumed (PythonCallBack py) \<lparr>calls = [], pyerr = None\<rparr> (offered n rest)) rest)) }"
| "read_call e alloc fill junk pi0 geterr lib (pp, rest) (ReadLoop n py) = do {
     (made, r) \<leftarrow> p_loop (lib_loop lib rest) geterr py (Obj pp) (Inr n);
     Some (map seen_by made,
       (pp, drop (consumed (PythonCallBack py) \<lparr>calls = [], pyerr = None\<rparr> (offered n rest)) rest)) }"
| "read_call e alloc fill junk pi0 geterr lib (pp, rest) (ReadFiltered a py) = do {
     (self', made, r) \<leftarrow> p_loop_filtered e alloc (lib_filtered lib rest) geterr pi0 py (Obj pp) (Inr a);
     (case self' of OtherType \<Rightarrow> None
      | Obj pp' \<Rightarrow>
        Some (map (\<lambda>c. seen_by (without_class c)) made, (pp',
          case classcfg_of alloc filtered_msg a of Inl ex \<Rightarrow> rest
          | Inr config \<Rightarrow>
              drop (consumed (FilteredCallBack e pi0 py) (filtered_start e alloc a config) (offered (a_cnt a) rest)) rest))) }"
| "read_call e alloc fill junk pi0 geterr lib (pp, rest) (ReadBuffer view a) = do {
     (buf, releases, r) \<leftarrow> p_loop_to_buffer e alloc (lib_buffer lib rest) pi0 (Obj pp) (Inr (view, a));
     (case (buf, r) of
        (Some b, Some counts, None) \<Rightarrow> do {
          slots \<leftarrow> parse_slots (take (unat (counts ! 3)) b);
          Some (map (\<lambda>s. (None, snd s)) slots, (pp, drop (length (offered (a_cnt a) rest)) rest)) }
      | _ \<Rightarrow> Some ([], (pp, rest))) }"
| "read_call e alloc fill junk pi0 geterr lib (pp, rest) (ReadBatch n) =
     (case p_next_batch e alloc fill junk (lib_batch lib rest) geterr (Obj pp) (Inr n) of
        Some (Some res, None) \<Rightarrow>
          Some (map timed (unpack_batch e res), (pp, drop (length (offered (sint (batch_count n)) rest)) rest))
      | _ \<Rightarrow> None)"

text \<open>What a call should see of the packets it took: all of them; when it filters, those of admitted classes;
  when it writes to a buffer, those of admitted classes whose slots fit.\<close>

fun sees :: "endian \<Rightarrow> (nat \<Rightarrow> bool) \<Rightarrow> reading \<Rightarrow> packet list \<Rightarrow> sight list \<Rightarrow> bool" where
  "sees e alloc (ReadFiltered a py) taken seen =
     (case classcfg_of alloc filtered_msg a of Inl ex \<Rightarrow> taken = [] \<and> seen = []
      | Inr config \<Rightarrow> seen = map (sight_of \<circ> fst)
          (filter (\<lambda>(x, c). admits (a_admit_mask a) c) (zip taken (run_classes e alloc a config taken))))"
| "sees e alloc (ReadBuffer view a) taken seen =
     (case classcfg_of alloc buffer_msg a of Inl ex \<Rightarrow> taken = [] \<and> seen = []
      | Inr config \<Rightarrow> seen = map (\<lambda>s. (None, snd s))
          (fst (ring_run (a_admit_mask a) (length view) taken (run_classes e alloc a config taken))))"
| "sees e alloc r taken seen = (seen = map sight_of taken)"

lemma filtered_calls_seen:
  "map (\<lambda>c. seen_by (without_class c)) (run_calls e alloc a config ys) = map (sight_of \<circ> fst)
     (filter (\<lambda>(x, c). admits (a_admit_mask a) c) (zip ys (run_classes e alloc a config ys)))"
  by (auto simp: run_calls_def admitted_calls_def without_class_def seen_by_def py_args_def sight_of_def timed_def
      delivered_def new_pcap_pkthdr_def split: prod.split)

lemma PythonCallBack_counts: "PythonCallBack py c x = Some (c', brk) \<Longrightarrow> length (calls c') = Suc (length (calls c))"
  by (cases x) (auto simp: PythonCallBack_def Let_def split: Option.bind_splits)

text \<open>The calls a plain loop makes are the packets it takes.\<close>

lemma plain_taken:
  fixes py :: "(pkthdr \<times> u8 list) list \<Rightarrow> exn option" and n :: int
  assumes "\<forall>x \<in> set rest. captured x"
  defines "k \<equiv> consumed (PythonCallBack py) \<lparr>calls = [], pyerr = None\<rparr> (offered n rest)"
  shows "k \<le> length (offered n rest) \<and> (\<exists>ctx brk. deliver (PythonCallBack py) \<lparr>calls = [], pyerr = None\<rparr> (offered n rest) =
      Some (ctx, brk) \<and> calls ctx = map py_args (take k (offered n rest)))"
proof -
  let ?d = "deliver (PythonCallBack py) \<lparr>calls = [], pyerr = None\<rparr> (offered n rest)"
  have len: "length (calls ctx) = k" if "?d = Some (ctx, brk)" for ctx brk
    using consumed_counts [where g = "\<lambda>c. length (calls c)", OF PythonCallBack_counts that] by (simp add: k_def)
  from plain_run [OF assms(1), of py n] show ?thesis
  proof (elim disjE exE conjE)
    assume "?d = Some (\<lparr>calls = map py_args (offered n rest), pyerr = None\<rparr>, False)"
    with len [OF this] show ?thesis by (auto intro: exI [of _ False])
  next
    fix m assume m: "first_raise py (map py_args (offered n rest)) m"
      and d: "?d = Some (\<lparr>calls = take m (map py_args (offered n rest)), pyerr = py (take m (map py_args (offered n rest)))\<rparr>, True)"
    have "m = k" using len [OF d] m by (simp add: first_raise_def)
    with d m show ?thesis by (auto simp: first_raise_def take_map intro: exI [of _ True])
  qed
qed

lemma length_offered: "length (offered n xs) \<le> length xs"
  by (simp add: offered_def)

lemma take_offered: "k \<le> length (offered n xs) \<Longrightarrow> take k (offered n xs) = take k xs"
  by (auto simp: offered_def)

text \<open>The bounds of the other theories: batches below 4 GiB, address sets too, packets and buffers of the sizes
  that \<open>loop_to_buffer\<close> handles.\<close>

fun fits :: "packet list \<Rightarrow> reading \<Rightarrow> bool" where
  "fits rest (ReadBatch n) = (\<forall>i. batch_size (take (unat (batch_count n)) (drop i rest)) < 2 ^ 32)"
| "fits rest (ReadFiltered a py) = (\<forall>d. a_addr_set a = Some d \<longrightarrow> length d < 2 ^ 32)"
| "fits rest (ReadBuffer view a) = ((\<forall>d. a_addr_set a = Some d \<longrightarrow> length d < 2 ^ 32) \<and> length view < 2 ^ 63 \<and>
     (\<forall>x \<in> set rest. storable x))"
| "fits rest _ = True"

lemma fits_drop: "fits rest r \<Longrightarrow> fits (drop k rest) r"
  by (cases r) (auto simp: drop_drop dest: in_set_dropD)

context savefile
begin

lemma read_call_takes:
  assumes "pcap pp = Some h" and cap: "\<forall>x \<in> set rest. captured x" and "\<forall>k. alloc k" and "fits rest r"
  shows "\<exists>seen pp' k. read_call e alloc fill junk pi0 geterr lib (pp, rest) r = Some (seen, (pp', drop k rest)) \<and>
    pcap pp' = Some h \<and> k \<le> length rest \<and> sees e alloc r (take k rest) seen"
proof (cases r)
  case ReadNext
  show ?thesis
  proof (cases rest)
    case Nil
    then show ?thesis using assms(1) next_end [of h]
      by (cases "lib_next lib [] h") (auto simp: ReadNext p_next_def split: prod.split)
  next
    case (Cons x xs)
    obtain hdr d where x: "x = (hdr, d)" by fastforce
    then have "p_next (lib_next lib rest) geterr (Obj pp) =
        Some (returns (Some (new_pcap_pkthdr hdr), take (unat (h_caplen hdr)) d))"
      using assms(1) cap Cons next_file [of x xs h] by (simp add: p_next_def)
    moreover have "seen_by (new_pcap_pkthdr hdr, take (unat (h_caplen hdr)) d) = sight_of x"
      using seen_by_args [of x] by (simp add: py_args_def x)
    ultimately show ?thesis using assms(1) Cons by (intro exI [of _ "[sight_of x]"] exI [of _ pp] exI [of _ 1]) (simp add: ReadNext)
  qed
next
  case (ReadDispatch n py)
  obtain ctx b where d: "deliver (PythonCallBack py) \<lparr>calls = [], pyerr = None\<rparr> (offered n rest) = Some (ctx, b)"
    and k: "consumed (PythonCallBack py) \<lparr>calls = [], pyerr = None\<rparr> (offered n rest) \<le> length (offered n rest)"
      "calls ctx = map py_args (take (consumed (PythonCallBack py) \<lparr>calls = [], pyerr = None\<rparr> (offered n rest)) (offered n rest))"
    using plain_taken [OF cap, of py n] by blast
  have "\<exists>ret. lib_dispatch lib rest n (PythonCallBack py) \<lparr>calls = [], pyerr = None\<rparr> = Some (ctx, ret)"
    using dispatch_file [of rest] d by (simp add: dispatch_contract_def)
  then have "\<exists>r. p_dispatch (lib_dispatch lib rest) geterr py (Obj pp) (Inr n) = Some (calls ctx, r)"
    using assms(1) by (auto simp: p_dispatch_def)
  then obtain r where "p_dispatch (lib_dispatch lib rest) geterr py (Obj pp) (Inr n) = Some (calls ctx, r)" by blast
  then show ?thesis using assms(1) le_trans [OF k(1) length_offered]
    by (simp add: ReadDispatch k(2) take_offered [OF k(1)] comp_def) blast
next
  case (ReadLoop n py)
  obtain ctx b where d: "deliver (PythonCallBack py) \<lparr>calls = [], pyerr = None\<rparr> (offered n rest) = Some (ctx, b)"
    and k: "consumed (PythonCallBack py) \<lparr>calls = [], pyerr = None\<rparr> (offered n rest) \<le> length (offered n rest)"
      "calls ctx = map py_args (take (consumed (PythonCallBack py) \<lparr>calls = [], pyerr = None\<rparr> (offered n rest)) (offered n rest))"
    using plain_taken [OF cap, of py n] by blast
  have "\<exists>ret. lib_loop lib rest n (PythonCallBack py) \<lparr>calls = [], pyerr = None\<rparr> = Some (ctx, ret)"
    using loop_file [of rest] d by (simp add: loop_contract_def)
  then have "\<exists>r. p_loop (lib_loop lib rest) geterr py (Obj pp) (Inr n) = Some (calls ctx, r)"
    using assms(1) by (auto simp: p_loop_def)
  then obtain r where "p_loop (lib_loop lib rest) geterr py (Obj pp) (Inr n) = Some (calls ctx, r)" by blast
  then show ?thesis using assms(1) le_trans [OF k(1) length_offered]
    by (simp add: ReadLoop k(2) take_offered [OF k(1)] comp_def) blast
next
  case (ReadBatch n)
  let ?M = "unat (batch_count n)"
  have "batch_size (take ?M rest) < 2 ^ 32" using assms(4) by (simp add: ReadBatch) (metis drop_0)
  then obtain res where "p_next_batch e alloc fill junk (lib_batch lib rest) geterr (Obj pp) (Inr n) = Some (returns res)"
      "unpack_batch e res = map delivered (take ?M rest)"
    using next_batch_meta [OF batch_file cap assms(1,3)] by blast
  then show ?thesis using assms(1)
    by (intro exI [of _ "map sight_of (take ?M rest)"] exI [of _ pp] exI [of _ "min (length rest) ?M"])
      (simp add: ReadBatch offered_batch min_def sight_of_def)
next
  case (ReadBuffer view a)
  show ?thesis
  proof (cases "classcfg_of alloc buffer_msg a")
    case (Inl ex)
    then show ?thesis using assms(1)
      by (intro exI [of _ "[]"] exI [of _ pp] exI [of _ 0]) (simp add: ReadBuffer p_loop_to_buffer_def)
  next
    case (Inr config)
    have small: "\<forall>d. a_addr_set a = Some d \<longrightarrow> length d < 2 ^ 32" "length view < 2 ^ 63" "\<forall>x \<in> set rest. storable x"
      using assms(4) by (simp_all add: ReadBuffer)
    obtain sl drops ovf where r: "ring_run (a_admit_mask a) (length view) (offered (a_cnt a) rest)
        (run_classes e alloc a config (offered (a_cnt a) rest)) = (sl, drops, ovf)" by (metis prod_cases3)
    note parts = loop_to_buffer_run_parts [OF buffer_file small(3) assms(1) Inr assms(3) small(1,2) r]
    have used: "unat (word_of_nat (slots_size sl) :: u64) = slots_size sl"
      using parts(2) small(2) by (simp add: unat_of_nat)
    have taken: "take (length (offered (a_cnt a) rest)) rest = offered (a_cnt a) rest"
      using take_offered [of "length (offered (a_cnt a) rest)" "a_cnt a" rest] by simp
    have parsed: "parse_slots (concat (map (slot_bytes (profile_base config)) sl)) =
        Some (map (\<lambda>(c, d). (word_of_nat (profile_base config + c), d)) sl)" using parts(5) by simp
    have "read_call e alloc fill junk pi0 geterr lib (pp, rest) r =
        Some (map (\<lambda>s. (None, snd s)) sl, (pp, drop (length (offered (a_cnt a) rest)) rest))"
      by (simp only: ReadBuffer read_call.simps parts(1) bind.bind_lunit split option.case prod.case)
        (simp add: used parsed case_prod_unfold comp_def)
    moreover have "sees e alloc r (take (length (offered (a_cnt a) rest)) rest) (map (\<lambda>s. (None, snd s)) sl)"
      using r by (simp add: ReadBuffer Inr taken)
    ultimately show ?thesis using assms(1) length_offered by blast
  qed
next
  case (ReadFiltered a py)
  show ?thesis
  proof (cases "classcfg_of alloc filtered_msg a")
    case (Inl ex)
    then show ?thesis using assms(1)
      by (intro exI [of _ "[]"] exI [of _ pp] exI [of _ 0]) (simp add: ReadFiltered p_loop_filtered_unfold filtered_msg_def)
  next
    case (Inr config)
    let ?xs = "offered (a_cnt a) rest" and ?k = "consumed (FilteredCallBack e pi0 py) (filtered_start e alloc a config) (offered (a_cnt a) rest)"
    have "\<forall>d. a_addr_set a = Some d \<longrightarrow> length d < 2 ^ 32" using assms(4) by (simp add: ReadFiltered)
    from filtered_run_consumed [OF filtered_file cap assms(1) Inr assms(3) this, where py = py and e = e and geterr = geterr and ?pi0.0 = pi0]
    obtain r where "?k \<le> length ?xs"
      "p_loop_filtered e alloc (lib_filtered lib rest) geterr pi0 py (Obj pp) (Inr a) =
        Some (counted_object e alloc pp a config (take ?k ?xs), run_calls e alloc a config (take ?k ?xs), r)"
      unfolding Let_def by (metis order_refl take_all)
    then show ?thesis using assms(1) Inr filtered_calls_seen length_offered [of "a_cnt a" rest]
      by (auto simp: ReadFiltered counted_object_def take_offered)
  qed
qed

end

section \<open>Properties\<close>

text \<open>C8: A script mixes the reading methods on a file in any order - single packets, counted and uncounted
  loops, callbacks that raise, filtering runs, runs into a buffer, batches. Then, as long as every batch and
  every address list is smaller than 4 GiB, a buffer is used only with packets whose slots fit 32 bits (a
  captured length plus five below 2^32, the buffer itself below 2^63 bytes), memory is available, and libpcap
  keeps its contract on what is left of the file and meets no read error in a dispatch, the calls cut the
  file into consecutive stretches: each call sees the packets of its stretch, all of them or those of the
  admitted classes (in a buffer, those whose slots fit), in order, with their bytes and - save in a buffer -
  their times; what no call took is still to be read, and no stretch overlaps another.\<close>

theorem mixed_reading_partitions_file:
  assumes "savefile lib fin brk" and "pcap pp = Some h" and "\<forall>x \<in> set pkts. captured x" and "\<forall>k. alloc k"
    and "\<forall>r \<in> set rs. fits pkts r"
  shows "\<exists>seens stretches pp' rest. traceM (read_call e alloc fill junk pi0 geterr lib) (pp, pkts) rs = Some (seens, (pp', rest)) \<and>
    pkts = concat stretches @ rest \<and> length stretches = length rs \<and> length seens = length rs \<and>
    (\<forall>i < length rs. sees e alloc (rs ! i) (stretches ! i) (seens ! i)) \<and> pcap pp' = Some h"
  using assms(2,3,5)
proof (induction rs arbitrary: pp pkts)
  case Nil
  then show ?case by simp
next
  case (Cons r rs)
  obtain seen pp1 k where step: "read_call e alloc fill junk pi0 geterr lib (pp, pkts) r = Some (seen, (pp1, drop k pkts))"
      "pcap pp1 = Some h" "sees e alloc r (take k pkts) seen"
    using savefile.read_call_takes [OF assms(1) Cons.prems(1,2) assms(4), of r] Cons.prems(3) by (metis list.set_intros(1))
  have "\<forall>x \<in> set (drop k pkts). captured x" using Cons.prems(2) by (auto dest: in_set_dropD)
  moreover have "\<forall>r \<in> set rs. fits (drop k pkts) r" using Cons.prems(3) fits_drop by simp
  ultimately obtain seens stretches pp' rest where rec:
      "traceM (read_call e alloc fill junk pi0 geterr lib) (pp1, drop k pkts) rs = Some (seens, (pp', rest))"
      "drop k pkts = concat stretches @ rest" "length stretches = length rs" "length seens = length rs"
      "\<forall>i < length rs. sees e alloc (rs ! i) (stretches ! i) (seens ! i)" "pcap pp' = Some h"
    using Cons.IH [OF step(2)] by blast
  have "pkts = take k pkts @ concat stretches @ rest" using rec(2) by (metis append_take_drop_id)
  moreover have "\<forall>i < length (r # rs). sees e alloc ((r # rs) ! i) ((take k pkts # stretches) ! i) ((seen # seens) ! i)"
    using rec(5) step(3) by (simp add: nth_Cons split: nat.split)
  ultimately show ?case using step(1) rec(1,3,4,6)
    by (intro exI [of _ "seen # seens"] exI [of _ "take k pkts # stretches"] exI [of _ pp'] exI [of _ rest]) simp
qed


theorem mixed_reading_partitions_file_witness:
  "\<exists>seens stretches pp' rest. traceM (read_call Little (\<lambda>_. True) 0 \<lparr>m_sec = 0, m_usec = 0, m_off = 0, m_len = 0\<rparr> no_info (\<lambda>_. [])
        (reference_file 0 (- 2))) (sample_object, map sample_packet [[1], [2], [3], [4], [5]])
        [ReadNext, ReadLoop 0 raises_second, ReadBuffer (replicate 16 0) (default_args 1), ReadNext] = Some (seens, (pp', rest)) \<and>
    map sample_packet [[1], [2], [3], [4], [5]] = concat stretches @ rest \<and> length stretches = 4 \<and>
    seens ! 0 = map sight_of (stretches ! 0) \<and> seens ! 1 = map sight_of (stretches ! 1)"
proof -
  let ?rs = "[ReadNext, ReadLoop 0 raises_second, ReadBuffer (replicate 16 0) (default_args 1), ReadNext]"
  let ?pkts = "map sample_packet [[1], [2], [3], [4], [5]]"
  have "\<forall>x \<in> set ?pkts. captured x" "\<forall>r \<in> set ?rs. fits ?pkts r"
    by (simp_all add: sample_packet_def captured_def storable_def)
  with mixed_reading_partitions_file [OF reference.savefile_axioms [of 0 "- 2"], of sample_object 1 ?pkts "\<lambda>_. True" ?rs Little 0
      "\<lparr>m_sec = 0, m_usec = 0, m_off = 0, m_len = 0\<rparr>" no_info "\<lambda>_. []"]
  obtain seens stretches pp' rest where run: "traceM (read_call Little (\<lambda>_. True) 0 \<lparr>m_sec = 0, m_usec = 0, m_off = 0, m_len = 0\<rparr>
        no_info (\<lambda>_. []) (reference_file 0 (- 2))) (sample_object, ?pkts) ?rs = Some (seens, (pp', rest))"
      "?pkts = concat stretches @ rest" "length stretches = length ?rs"
      "\<forall>i < length ?rs. sees Little (\<lambda>_. True) (?rs ! i) (stretches ! i) (seens ! i)"
    by (metis (no_types, lifting) sample_simps(1))
  have "length stretches = 4" using run(3) by simp
  moreover have "seens ! 0 = map sight_of (stretches ! 0)" "seens ! 1 = map sight_of (stretches ! 1)"
    using spec [OF run(4), of 0] spec [OF run(4), of 1] by simp_all
  ultimately show ?thesis using run(1,2) by blast
qed

end
