(* ===== verification/Live_Stats.thy ===== *)
theory Live_Stats
  imports Filtered
begin

text \<open>
  Polling \<open>filtered_stats()\<close> while \<open>loop_filtered()\<close> runs (\<open>src/pcapobj.cc\<close>). The callback counts without the
  lock of the interpreter, so another thread may read the counters between any two increments, and
  read each of them at a different moment. A run is the sequence of its single increments here.
\<close>

section \<open>Single increments\<close>

text \<open>A packet of class \<open>c\<close> increments its class counter first, then the admitted or the dropped one.\<close>

definition increments :: "cint \<Rightarrow> nat list \<Rightarrow> nat list" where
  "increments am cs = concat (map (\<lambda>c. [2 + c, if admits am c then 0 else 1]) cs)"

text \<open>The counters after the first \<open>k\<close> increments of a run.\<close>

definition live_at :: "cint \<Rightarrow> nat list \<Rightarrow> nat \<Rightarrow> u64 list option" where
  "live_at am cs k = foldM bump (replicate 8 0) (take k (increments am cs))"

text \<open>The callback makes exactly these increments, in this order.\<close>

lemma FilteredCallBack_increments:
  assumes "FilteredCallBack e pi0 py c x = Some (c', brk)"
  shows "\<exists>idx. foldM bump (f_live c) (increments (f_admit_mask c) [idx]) = Some (f_live c') \<and>
    f_admit_mask c' = f_admit_mask c"
proof -
  obtain h d where x: "x = (h, d)" by fastforce
  from assms obtain idx ft where idx: "classify_dispatch e (f_cfg c) (f_ioc c) (f_flowtab c) (f_flow_cutoff c)
      d (h_caplen h) pi0 = Some (idx, ft)"
    by (auto simp: FilteredCallBack_def x split: Option.bind_splits)
  show ?thesis
    using assms by (intro exI [of _ idx]) (auto simp: FilteredCallBack_def x idx increments_def Let_def
        split: Option.bind_splits if_splits)
qed

lemma increments_snoc:
  "increments am (cs @ [c]) = increments am cs @ [2 + c, if admits am c then 0 else 1]"
  by (simp add: increments_def)

lemma length_increments: "length (increments am cs) = 2 * length cs"
  by (induction cs) (simp_all add: increments_def)

lemma increments_bound: "\<forall>c \<in> set cs. c < 6 \<Longrightarrow> \<forall>i \<in> set (increments am cs). i < 8"
  by (auto simp: increments_def split: if_splits)

lemma foldM_bump:
  assumes "\<forall>i \<in> set is. i < length xs"
  shows "foldM bump xs is = Some (map (\<lambda>i. xs ! i + word_of_nat (count_list is i)) [0..<length xs])"
  using assms
proof (induction "is" arbitrary: xs)
  case Nil
  then show ?case by (simp add: map_nth)
next
  case (Cons j js)
  then have "foldM bump xs (j # js) = foldM bump (xs[j := xs ! j + 1]) js" by (simp add: bump_def)
  also have "\<dots> = Some (map (\<lambda>i. xs[j := xs ! j + 1] ! i + word_of_nat (count_list js i)) [0..<length xs])"
    using Cons.prems Cons.IH [of "xs[j := xs ! j + 1]"] by simp
  also have "map (\<lambda>i. xs[j := xs ! j + 1] ! i + word_of_nat (count_list js i)) [0..<length xs] =
      map (\<lambda>i. xs ! i + word_of_nat (count_list (j # js) i)) [0..<length xs]"
    by (intro map_cong refl) (auto simp: nth_list_update)
  finally show ?case .
qed

lemma live_at_counts:
  assumes "\<forall>c \<in> set cs. c < 6"
  shows "live_at am cs k = Some (map (\<lambda>i. word_of_nat (count_list (take k (increments am cs)) i)) [0..<8])"
proof -
  have "\<forall>i \<in> set (take k (increments am cs)). i < length (replicate 8 (0 :: u64))"
    using increments_bound [OF assms] by (auto dest: in_set_takeD)
  from foldM_bump [OF this] show ?thesis by (simp add: live_at_def cong: map_cong)
qed

text \<open>Between the two increments of a packet the class counters are one ahead.\<close>

lemma take_increments:
  "k \<le> 2 * length cs \<Longrightarrow> take k (increments am cs) = increments am (take (k div 2) cs) @
     (if even k then [] else [2 + cs ! (k div 2)])"
proof (induction cs arbitrary: k)
  case (Cons c cs)
  show ?case
  proof (cases "k < 2")
    case True
    then have "k = 0 \<or> k = 1" by arith
    then show ?thesis by (auto simp: increments_def)
  next
    case False
    then obtain k' where k: "k = Suc (Suc k')" by (metis add_2_eq_Suc le_add_diff_inverse not_less)
    then show ?thesis using Cons by (simp add: increments_def)
  qed
qed (simp add: increments_def)

lemma count_increments:
  "count_list (increments am cs) 0 + count_list (increments am cs) (Suc 0) = length cs"
  "count_list (increments am cs) (Suc (Suc i)) = count_list cs i"
  "count_list (increments am cs) 0 = length (filter (admits am) cs)"
  "count_list (increments am cs) (Suc 0) = length (filter (\<lambda>c. \<not> admits am c) cs)"
  by (induction cs) (simp_all add: increments_def)

lemma count_list_take_mono: "j \<le> k \<Longrightarrow> count_list (take j xs) x \<le> count_list (take k xs) x"
proof -
  assume "j \<le> k"
  then have "take k xs = take j xs @ take (k - j) (drop j xs)" by (metis le_add_diff_inverse take_add)
  then show ?thesis by simp
qed

lemma count_list_le_length: "count_list xs x \<le> length xs"
  by (induction xs) auto

section \<open>Properties\<close>

text \<open>C18: whenever \<open>filtered_stats()\<close> is called while a run is at work - between any two of its increments -
  it returns a tuple in which the class counters add up to admitted plus dropped, or to one more while
  a packet is half counted; no counter is ever behind an earlier reading, so that counters read one by
  one at different moments are still between the old and the new values; and when the last packet is
  counted it returns the final tuple.\<close>

theorem polled_counters:
  fixes e :: endian
  assumes "classcfg_of alloc filtered_msg a = Inr config" and "k \<le> 2 * length xs" and "2 * length xs < 2 ^ 64"
  defines "cs \<equiv> run_classes e alloc a config xs"
  shows "\<exists>live tup. live_at (a_admit_mask a) cs k = Some live \<and>
    p_filtered_stats (Obj (pp\<lparr>filt_counts := live, filt_profile := a_profile a\<rparr>)) = Some (returns tup) \<and>
    length tup = 2 + class_count config \<and>
    sum_list (drop 2 tup) = tup ! 0 + tup ! 1 + (if even k then 0 else 1) \<and>
    (\<forall>j \<le> k. \<exists>old. live_at (a_admit_mask a) cs j = Some old \<and> (\<forall>i < 8. unat (old ! i) \<le> unat (live ! i))) \<and>
    (k = 2 * length xs \<longrightarrow> live = tally (a_admit_mask a) cs)"
proof -
  let ?am = "a_admit_mask a" and ?n = "class_count config"
  have len: "length cs = length xs" and small: "\<forall>c \<in> set cs. c < ?n" and six: "\<forall>c \<in> set cs. c < 6"
    using run_classes_ok run_classes_less6 by (simp_all add: cs_def)
  define counts where "counts j i = count_list (take j (increments ?am cs)) i" for j i
  let ?live = "\<lambda>j. map (\<lambda>i. word_of_nat (counts j i) :: u64) [0..<8]"
  have at: "live_at ?am cs j = Some (?live j)" for j using live_at_counts [OF six] by (simp add: counts_def)
  have prof: "a_profile a = 0 \<or> a_profile a = 1" "profile config = a_profile a"
    using classcfg_of_Inr [OF assms(1)] classcfg_of_ok [OF assms(1)] by simp_all
  have six8: "2 + ?n \<le> 8" by (simp add: class_count_def)
  have stats: "p_filtered_stats (Obj (pp\<lparr>filt_counts := ?live k, filt_profile := a_profile a\<rparr>)) =
      Some (returns (take (2 + ?n) (?live k)))"
    using prof by (auto simp: p_filtered_stats_def stats_tuple_def class_count_def upt_rec)
  define j where "j = k div 2"
  have kj: "j \<le> length cs" using assms(2) len by (simp add: j_def)
  have parts: "take k (increments ?am cs) = increments ?am (take j cs) @ (if even k then [] else [2 + cs ! j])"
    using take_increments [of k cs] assms(2) len by (simp add: j_def)
  have odd_j: "j < length cs" if "odd k" using that assms(2) len unfolding j_def by presburger
  have classes: "(\<Sum>i\<leftarrow>[0..<?n]. counts k (2 + i)) = j + (if even k then 0 else 1)"
  proof -
    have "counts k (2 + i) = count_list (take j cs @ (if even k then [] else [cs ! j])) i" for i
      by (auto simp: counts_def parts count_increments)
    then have "(\<Sum>i\<leftarrow>[0..<?n]. counts k (2 + i)) =
        (\<Sum>i\<leftarrow>[0..<?n]. count_list (take j cs @ (if even k then [] else [cs ! j])) i)" by simp
    also have "\<dots> = length (take j cs @ (if even k then [] else [cs ! j]))"
      by (rule sum_class_counts) (use small odd_j nth_mem in \<open>auto dest: in_set_takeD\<close>)
    finally show ?thesis using kj by simp
  qed
  have "counts k 0 + counts k 1 = j"
    using count_increments(1) [of ?am "take j cs"] kj by (simp add: counts_def parts)
  then have both: "word_of_nat (counts k 0) + word_of_nat (counts k 1) = (word_of_nat j :: u64)"
    by (simp flip: of_nat_add)
  have "drop 2 (take (2 + ?n) (?live k)) = map (\<lambda>i. word_of_nat (counts k (2 + i))) [0..<?n]"
    using six8 by (intro nth_equalityI) simp_all
  then have "sum_list (drop 2 (take (2 + ?n) (?live k))) = word_of_nat (j + (if even k then 0 else 1))"
    by (simp only: sum_word_counts classes)
  moreover have "take (2 + ?n) (?live k) ! 0 + take (2 + ?n) (?live k) ! 1 = word_of_nat j"
    using both six8 by simp
  ultimately have sums: "sum_list (drop 2 (take (2 + ?n) (?live k))) =
      take (2 + ?n) (?live k) ! 0 + take (2 + ?n) (?live k) ! 1 + (if even k then 0 else 1)" by simp
  have bound: "counts j' i < 2 ^ 64" for j' i
    using count_list_le_length [of "take j' (increments ?am cs)" i] assms(3) len
    by (simp add: counts_def length_increments)
  have mono: "unat (?live j' ! i) \<le> unat (?live k ! i)" if "j' \<le> k" "i < 8" for j' i
    using that count_list_take_mono [OF that(1), of "increments ?am cs" i] bound [of j' i] bound [of k i]
    by (simp add: counts_def unsigned_of_nat take_bit_nat_eq_self)
  have final: "?live k = tally ?am cs" if "k = 2 * length xs"
  proof -
    have "take k (increments ?am cs) = increments ?am cs" using that len by (simp add: length_increments)
    then have "?live k = map (\<lambda>i. word_of_nat (count_list (increments ?am cs) i)) [0..<8]" by (simp add: counts_def)
    also have "\<dots> = tally ?am cs"
      by (simp add: tally_def upt_rec count_increments numeral_eq_Suc)
    finally show ?thesis .
  qed
  show ?thesis
    using at stats six8 sums mono final by (intro exI [of _ "?live k"] exI [of _ "take (2 + ?n) (?live k)"]) auto
qed


theorem polled_counters_witness:
  "\<exists>live tup. live_at 7 (run_classes Little (\<lambda>_. True) (default_args 0) (default_cfg 0) [sample_packet [0, 0]]) 1 = Some live \<and>
    p_filtered_stats (Obj (sample_object\<lparr>filt_counts := live, filt_profile := 0\<rparr>)) = Some (returns tup) \<and>
    sum_list (drop 2 tup) = tup ! 0 + tup ! 1 + 1"
  using polled_counters [OF default_args_cfg [where n = 0], where k = 1 and xs = "[sample_packet [0, 0]]" and e = Little and pp = sample_object
    and alloc = "\<lambda>_. True"] by auto

end
