(* ===== verification/Shared_Counters.thy ===== *)
theory Shared_Counters
  imports Live_Stats
begin

text \<open>
  Several runs of \<open>loop_filtered()\<close> on one Reader (\<open>src/pcapobj.cc\<close>): a callback that starts a run of its
  own, or two threads. Each run has its own \<open>FilteredContext\<close>, but \<open>live\<close> points into the object, so the
  runs share the counters: every run zeroes them when it starts (\<^const>\<open>begin_filtered\<close>, the start of
  \<^const>\<open>p_loop_filtered\<close>), counts its packets into them with \<^const>\<open>FilteredCallBack\<close>, and reads its
  result from them when it ends.
\<close>

section \<open>Runs on one object\<close>









section \<open>Steps\<close>










section \<open>A run alone\<close>




section \<open>Properties\<close>



end
