(* ===== verification/Wrap_Around.thy ===== *)
theory Wrap_Around
  imports Batch Ring_Buffer
begin

text \<open>
  What the 32-bit fields do at their limits (\<open>src/pcapobj.cc\<close>): the offsets in the records of a batch of
  4 GiB and more, and the size of a slot for a packet of almost 4 GiB.
\<close>

section \<open>Offsets of a batch\<close>

lemma batch_records_nth:
  "i < length xs \<Longrightarrow> batch_records off xs ! i = \<lparr>m_sec = ucast (tv_sec (fst (xs ! i))), m_usec = ucast (tv_usec (fst (xs ! i))),
     m_off = word_of_nat (off + batch_size (take i xs)), m_len = h_caplen (fst (xs ! i))\<rparr>"
proof (induction xs arbitrary: off i)
  case (Cons x xs)
  then show ?case by (cases i) (simp_all add: batch_size_def add.assoc)
qed simp

text \<open>C28: Without any bound on its size, a batch that is read as documented gives for each packet as many bytes
  as were captured of it, from its offset in the batch taken modulo 2^32: the packets that start below
  4 GiB are right, a packet behind that is read from the bytes of earlier ones.\<close>

theorem batch_offsets_wrap:
  fixes n :: cint
  assumes "dispatch_contract pd src 0 brk" and "\<forall>x \<in> set src. captured x" and "pcap pp = Some h" and "\<forall>k. alloc k"
    and "i < length (offered (sint (batch_count n)) src)"
  defines "xs \<equiv> offered (sint (batch_count n)) src"
  shows "\<exists>res. p_next_batch e alloc fill junk pd geterr (Obj pp) (Inr n) = Some (returns res) \<and> fst res = batch_bytes xs \<and>
    unpack_batch e res ! i = (ucast (tv_sec (fst (xs ! i))), ucast (tv_usec (fst (xs ! i))),
      take (unat (h_caplen (fst (xs ! i)))) (drop (batch_size (take i xs) mod 2 ^ 32) (batch_bytes xs)))"
proof -
  let ?res = "(batch_bytes xs, concat (map (meta_bytes e) (batch_records 0 xs)))"
  have i: "i < length xs" "i < length (batch_records 0 xs)" using assms(5) by (simp_all add: xs_def)
  have "unpack_batch e ?res ! i = (ucast (tv_sec (fst (xs ! i))), ucast (tv_usec (fst (xs ! i))),
      slice (batch_bytes xs) (word_of_nat (batch_size (take i xs))) (h_caplen (fst (xs ! i))))"
    using i by (simp add: unpack_batch_def unpack_records_concat batch_records_nth)
  moreover have "unat (word_of_nat k :: u32) = k mod 2 ^ 32" for k by (simp add: unsigned_of_nat take_bit_eq_mod)
  ultimately show ?thesis
    using next_batch_returns [OF assms(1-4), of e fill junk geterr n] by (auto simp: xs_def Let_def slice_def)
qed

lemma zeros: "\<exists>d :: u8 list. length d = k \<and> set d \<subseteq> {0}"
  by (rule exI [of _ "replicate k 0"]) auto

theorem batch_offsets_wrap_witness:
  "\<exists>d res. length d = 2 ^ 31 \<and> set d \<subseteq> {0} \<and>
    p_next_batch Little (\<lambda>_. True) 0 \<lparr>m_sec = 0, m_usec = 0, m_off = 0, m_len = 0\<rparr>
      (reference_dispatch [sample_packet d, sample_packet d, sample_packet [7]] 0 0) (\<lambda>_. []) (Obj sample_object) (Inr 3) =
      Some (returns res) \<and> unpack_batch Little res ! 2 = (1, 2, [0])"
proof -
  obtain d :: "u8 list" where d: "length d = 2 ^ 31" "set d \<subseteq> {0}" using zeros by blast
  let ?src = "[sample_packet d, sample_packet d, sample_packet [7]]"
  have len: "h_caplen (fst (sample_packet d)) = 2 ^ 31" "captured (sample_packet d)"
    using d(1) by (simp_all add: sample_packet_def captured_def)
  have off: "offered (sint (batch_count 3)) ?src = ?src" by (simp add: offered_def batch_count_def)
  have "\<forall>x \<in> set ?src. captured x" using len by (simp add: sample_packet_def captured_def)
  from batch_offsets_wrap [OF reference_dispatch_contract this, of sample_object 1 "\<lambda>_. True" 2 3 Little 0
      "\<lparr>m_sec = 0, m_usec = 0, m_off = 0, m_len = 0\<rparr>" 0 "\<lambda>_. []"] off
  obtain res where res: "p_next_batch Little (\<lambda>_. True) 0 \<lparr>m_sec = 0, m_usec = 0, m_off = 0, m_len = 0\<rparr>
      (reference_dispatch ?src 0 0) (\<lambda>_. []) (Obj sample_object) (Inr 3) = Some (returns res)"
      "unpack_batch Little res ! 2 = (1, 2, take 1 (drop (batch_size [sample_packet d, sample_packet d] mod 2 ^ 32) (batch_bytes ?src)))"
    by (auto simp: sample_packet_def)
  have "batch_size [sample_packet d, sample_packet d] mod 2 ^ 32 = 0" using len by (simp add: batch_size_def)
  moreover have "take 1 (batch_bytes ?src) = [0]"
  proof -
    obtain x d' where "d = x # d'" using d(1) by (cases d) auto
    then show ?thesis using d len by (simp add: batch_bytes_def py_args_def sample_packet_def)
  qed
  ultimately show ?thesis using d res by (intro exI [of _ d] exI [of _ res]) simp
qed

section \<open>The size of a slot\<close>

lemma length_store: "store buf k d = Some buf' \<Longrightarrow> length buf' = length buf"
  by (auto simp: store_def split: if_splits)

text \<open>\<open>need = 5 + cl\<close> is a 32-bit sum. For a packet of at least 2^32 - 5 captured bytes it wraps to at most
  four, the test for room passes in a buffer that is smaller than the packet, and the callback writes
  behind the end of the buffer.\<close>

theorem slot_size_wraps:
  assumes "wf_cfg (b_cfg b)" and "wf_set (b_ioc b)" and "wf_table (b_flowtab b)" and "captured (h, pkt)"
    and "length (b_cls b) = 6" and "\<forall>idx < 6. admits (b_admit_mask b) idx"
    and "2 ^ 32 - 5 \<le> unat (h_caplen h)" and "length (b_buf b) = unat (b_cap b)" and "unat (b_cap b) < 2 ^ 32"
    and "unat (b_used b) + 4 \<le> unat (b_cap b)"
  shows "\<not> b_cap b < b_used b + ucast (5 + h_caplen h) \<and> BufferCallBack e pi0 b (h, pkt) = None"
proof -
  let ?cl = "h_caplen h"
  obtain idx ft where cls: "classify_dispatch e (b_cfg b) (b_ioc b) (b_flowtab b) (b_flow_cutoff b) pkt ?cl pi0 = Some (idx, ft)"
      and "idx < class_count (b_cfg b)"
    using classes.total [of "b_cfg b" "b_ioc b" "b_flowtab b" "(pkt, ?cl)" e "b_flow_cutoff b" pi0] assms(1-4) by (auto simp: captured_def)
  then have idx: "idx < 6" using class_count_le [of "b_cfg b"] by linarith
  have "unat (5 + ?cl) = unat ?cl + 5 - 2 ^ 32"
  proof -
    have "unat (5 + ?cl) = (5 + unat ?cl) mod 2 ^ 32" by (simp add: unat_word_ariths)
    also have "\<dots> = 5 + unat ?cl - 2 ^ 32"
    proof -
      have "5 + m - 4294967296 < 4294967296" if "m < 4294967296" for m :: nat using that by linarith
      from this [OF unat_less_u32 [of ?cl]] have "5 + unat ?cl - 2 ^ 32 < 2 ^ 32" by simp
      moreover have "2 ^ 32 \<le> 5 + unat ?cl" using assms(7) by simp
      ultimately show ?thesis by (metis le_mod_geq mod_less)
    qed
    finally show ?thesis by simp
  qed
  moreover have "m + 5 - 4294967296 \<le> 4" if "m < 4294967296" for m :: nat using that by linarith
  from this [OF unat_less_u32 [of ?cl]] have "unat ?cl + 5 - 2 ^ 32 \<le> 4" by simp
  ultimately have need: "unat (ucast (5 + ?cl) :: u64) \<le> 4" by (simp only: unat_ucast_u64)
  then have "unat (b_used b + ucast (5 + ?cl)) = unat (b_used b) + unat (ucast (5 + ?cl) :: u64)"
    using assms(9,10) by (simp add: unat_word_ariths)
  then have test: "\<not> b_cap b < b_used b + ucast (5 + ?cl)"
    using need assms(10) by (simp add: word_less_nat_alt)
  have full: "store buf1 (unat (b_used b) + 5) (take (unat ?cl) pkt) = None" if "length buf1 = length (b_buf b)" for buf1
    using that assms(4,7,8,9) by (simp add: store_def captured_def)
  have "(store (b_buf b) (unat (b_used b)) hdr \<bind> (\<lambda>buf1. store buf1 (unat (b_used b) + 5) (take (unat ?cl) pkt) \<bind> g)) = None"
    for hdr and g :: "u8 list \<Rightarrow> (BufferCtx \<times> bool) option"
  proof (cases "store (b_buf b) (unat (b_used b)) hdr")
    case (Some buf1)
    then show ?thesis using full [OF length_store [OF Some]] by simp
  qed simp
  then have "BufferCallBack e pi0 b (h, pkt) = None"
    using cls idx assms(4-6) test by (simp add: BufferCallBack_def bump_def Let_def)
  with test show ?thesis by blast
qed


theorem slot_size_wraps_witness:
  "\<exists>pkt. length pkt = 2 ^ 32 - 5 \<and>
     BufferCallBack Little no_info \<lparr>b_buf = replicate 64 0, b_cap = 64, b_used = 0, b_admit_mask = - 1, b_ioc = None,
       b_flowtab = None, b_flow_cutoff = 0, b_cfg = default_cfg 0, b_written = 0, b_dropped = 0, b_overflow = 0,
       b_cls = replicate 6 0\<rparr> (sample_packet pkt) = None"
proof -
  obtain pkt :: "u8 list" where pkt: "length pkt = 2 ^ 32 - 5" using zeros by blast
  have "admits (- 1) idx" if "idx < 6" for idx using that by (simp add: admits_bit)
  moreover have "unat (word_of_nat (length pkt) :: u32) = 2 ^ 32 - 5" unfolding pkt by simp
  ultimately show ?thesis
    using pkt slot_size_wraps [of "\<lparr>b_buf = replicate 64 0, b_cap = 64, b_used = 0, b_admit_mask = - 1, b_ioc = None,
       b_flowtab = None, b_flow_cutoff = 0, b_cfg = default_cfg 0, b_written = 0, b_dropped = 0, b_overflow = 0,
       b_cls = replicate 6 0\<rparr>" "fst (sample_packet pkt)" pkt Little no_info]
    by (intro exI [of _ pkt]) (simp add: sample_packet_def captured_def)
qed

end
