(* ===== verification/Monitored.thy ===== *)
theory Monitored
  imports Prelude
begin

text \<open>
  Runs of a system against a rule on what it emits. A system takes actions; each action emits events; a
  monitor reads the events and gets stuck on the first one that breaks its rule. The interface says which
  actions keep the rule and which break it, and the lemmas lift that to runs: a run is clean exactly when
  each of its actions was allowed where it was taken.
\<close>

section \<open>Runs and guards\<close>

text \<open>The events of a run: what \<^const>\<open>traceM\<close> collects, in one list.\<close>

definition emits :: "('s \<Rightarrow> 'a \<Rightarrow> ('e list \<times> 's) option) \<Rightarrow> 's \<Rightarrow> 'a list \<Rightarrow> ('e list \<times> 's) option" where
  "emits act s as = map_option (\<lambda>(ess, s'). (concat ess, s')) (traceM act s as)"

lemma emits_simps [simp]:
  "emits act s [] = Some ([], s)"
  "emits act s (a # as) = do { (es, s1) \<leftarrow> act s a; (es', s') \<leftarrow> emits act s1 as; Some (es @ es', s') }"
  by (auto simp: emits_def split: Option.bind_splits)

lemma emits_append:
  "emits act s (as @ bs) = do { (es, s1) \<leftarrow> emits act s as; (es', s') \<leftarrow> emits act s1 bs; Some (es @ es', s') }"
  by (induction as arbitrary: s) (auto split: Option.bind_splits)

text \<open>Whether every action of a run is allowed in the state it is taken in.\<close>

fun guarded :: "('s \<Rightarrow> 'a \<Rightarrow> bool) \<Rightarrow> ('s \<Rightarrow> 'a \<Rightarrow> ('e list \<times> 's) option) \<Rightarrow> 's \<Rightarrow> 'a list \<Rightarrow> bool" where
  "guarded fine act s [] = True"
| "guarded fine act s (a # as) =
     (fine s a \<and> (case act s a of None \<Rightarrow> True | Some (es, s') \<Rightarrow> guarded fine act s' as))"

lemma guarded_append:
  "emits act s as = Some (es, s') \<Longrightarrow>
     guarded fine act s (as @ bs) \<longleftrightarrow> guarded fine act s as \<and> guarded fine act s' bs"
  by (induction as arbitrary: s es) (auto split: Option.bind_splits)

text \<open>A run that is not guarded has a first action that is not allowed.\<close>

lemma not_guarded_split:
  assumes "emits act s as = Some (es, s')" and "\<not> guarded fine act s as"
  shows "\<exists>as1 a as2 es1 s1. as = as1 @ a # as2 \<and> emits act s as1 = Some (es1, s1) \<and>
    guarded fine act s as1 \<and> \<not> fine s1 a"
  using assms
proof (induction as arbitrary: s es)
  case (Cons a as)
  show ?case
  proof (cases "fine s a")
    case False
    then show ?thesis by (intro exI [of _ "[]"]) simp
  next
    case True
    obtain e1 s1 e2 where 1: "act s a = Some (e1, s1)" "emits act s1 as = Some (e2, s')"
      using Cons.prems(1) by (auto split: Option.bind_splits)
    then have "\<not> guarded fine act s1 as" using Cons.prems(2) True by simp
    from Cons.IH [OF 1(2) this] obtain as1 b as2 es1 s2 where
      "as = as1 @ b # as2" "emits act s1 as1 = Some (es1, s2)" "guarded fine act s1 as1" "\<not> fine s2 b" by blast
    then show ?thesis using 1(1) True
      by (intro exI [of _ "a # as1"] exI [of _ b] exI [of _ as2] exI [of _ "e1 @ es1"] exI [of _ s2]) simp
  qed
qed simp

section \<open>The interface\<close>

locale monitored =
  fixes act :: "'s \<Rightarrow> 'a \<Rightarrow> ('e list \<times> 's) option"
    and monitor :: "'m \<Rightarrow> 'e \<Rightarrow> 'm option"
    and inv :: "'s \<Rightarrow> 'm \<Rightarrow> bool"
    and fine :: "'s \<Rightarrow> 'a \<Rightarrow> bool"
  assumes keeps: "inv s m \<Longrightarrow> fine s a \<Longrightarrow> act s a = Some (es, s') \<Longrightarrow>
      \<exists>m'. foldM monitor m es = Some m' \<and> inv s' m'"
    and offends: "inv s m \<Longrightarrow> \<not> fine s a \<Longrightarrow> act s a = Some (es, s') \<Longrightarrow> foldM monitor m es = None"
begin

lemma run_keeps:
  assumes "inv s m" and "emits act s as = Some (es, s')" and "guarded fine act s as"
  shows "\<exists>m'. foldM monitor m es = Some m' \<and> inv s' m'"
  using assms
proof (induction as arbitrary: s m es)
  case (Cons a as)
  obtain e1 s1 e2 where 1: "act s a = Some (e1, s1)" "emits act s1 as = Some (e2, s')" "es = e1 @ e2"
    using Cons.prems(2) by (auto split: Option.bind_splits)
  obtain m1 where m1: "foldM monitor m e1 = Some m1" "inv s1 m1"
    using keeps [OF Cons.prems(1) _ 1(1)] Cons.prems(3) by auto
  obtain m' where "foldM monitor m1 e2 = Some m'" "inv s' m'"
    using Cons.IH [OF m1(2) 1(2)] Cons.prems(3) 1(1) by auto
  then show ?case using m1(1) 1(3) by (simp add: foldM_append)
qed simp

lemma run_offends:
  assumes "inv s m" and "emits act s as = Some (es, s')" and "\<not> guarded fine act s as"
  shows "foldM monitor m es = None"
proof -
  obtain as1 a as2 es1 s1 where split: "as = as1 @ a # as2" "emits act s as1 = Some (es1, s1)"
      "guarded fine act s as1" "\<not> fine s1 a"
    using not_guarded_split [OF assms(2,3)] by blast
  obtain e2 s2 e3 where rest: "act s1 a = Some (e2, s2)" "es = es1 @ e2 @ e3"
    using assms(2) split(1,2) by (auto simp: emits_append split: Option.bind_splits)
  obtain m1 where "foldM monitor m es1 = Some m1" "inv s1 m1"
    using run_keeps [OF assms(1) split(2,3)] by blast
  then show ?thesis using offends [OF _ split(4) rest(1)] rest(2) by (simp add: foldM_append)
qed

lemma run_clean_iff:
  assumes "inv s m" and "emits act s as = Some (es, s')"
  shows "foldM monitor m es \<noteq> None \<longleftrightarrow> guarded fine act s as"
  using run_keeps [OF assms] run_offends [OF assms] by (metis option.distinct(1))

end

text \<open>A system none of whose actions breaks the rule.\<close>

locale well_behaved =
  fixes act :: "'s \<Rightarrow> 'a \<Rightarrow> ('e list \<times> 's) option"
    and monitor :: "'m \<Rightarrow> 'e \<Rightarrow> 'm option"
    and inv :: "'s \<Rightarrow> 'm \<Rightarrow> bool"
  assumes always: "inv s m \<Longrightarrow> act s a = Some (es, s') \<Longrightarrow> \<exists>m'. foldM monitor m es = Some m' \<and> inv s' m'"

sublocale well_behaved \<subseteq> monitored act monitor inv "\<lambda>_ _. True"
  by unfold_locales (simp_all add: always)

lemma guarded_True [simp]: "guarded (\<lambda>_ _. True) act s as"
  by (induction as arbitrary: s) (auto split: option.split)

context well_behaved
begin

lemma run_always:
  assumes "inv s m" and "emits act s as = Some (es, s')"
  shows "\<exists>m'. foldM monitor m es = Some m' \<and> inv s' m'"
  by (rule run_keeps [OF assms]) simp

end

end
