(* ===== verification/Sessions.thy ===== *)
theory Sessions
  imports Monitored Loops "HOL-Library.Multiset"
begin

text \<open>
  A Reader in use by several threads and from its own callbacks (\<open>src/pcapobj.cc\<close>): who may call what while a
  capture call is in progress, and what that does to the \<open>pcap_t\<close> behind the object.

  Every method runs under the lock of the interpreter up to the point where it releases it, so the steps
  here are the stretches of C code between two such points: they are atomic, and the steps of different
  threads interleave freely. A thread that is inside a capture call has a frame for it on its stack; a
  callback may call methods of the Reader again, which stacks another frame.
\<close>

section \<open>The state\<close>

text \<open>The methods, as far as the handle is concerned: the six that release the lock around their libpcap
  call, and those that keep it, without (\<open>Plain n\<close>) or with (\<open>WithArgs n\<close>) arguments and with up to \<open>n\<close>
  libpcap calls.\<close>

datatype meth = Next | Dispatch | Loop | LoopFiltered | LoopToBuffer | NextBatch | Plain nat | WithArgs nat

text \<open>Converting arguments (format \<open>i\<close>, the port sequences) can run Python code of the caller.\<close>

fun parses :: "meth \<Rightarrow> bool" where
  "parses Next = False"
| "parses (Plain n) = False"
| "parses _ = True"

text \<open>The methods whose packets go to a Python function, and those that ask \<open>pcap_geterr\<close> for the text of
  a failed capture call.\<close>

fun calls_back :: "meth \<Rightarrow> bool" where
  "calls_back Dispatch = True"
| "calls_back Loop = True"
| "calls_back LoopFiltered = True"
| "calls_back _ = False"

fun asks_error :: "meth \<Rightarrow> bool" where
  "asks_error LoopToBuffer = False"
| "asks_error _ = True"

text \<open>The methods whose libpcap call releases the lock.\<close>

definition capture_call :: "meth \<Rightarrow> bool" where
  "capture_call m \<longleftrightarrow> (\<forall>n. m \<noteq> Plain n \<and> m \<noteq> WithArgs n)"

text \<open>A method in progress: its arguments are being converted, it is in its libpcap call, or its Python
  callback is running. \<open>ppcap_t\<close> is the pointer it passed to libpcap and keeps in the context of the
  callback; \<open>None\<close> is NULL.\<close>

datatype phase = Parsing | InLibrary | InCallback

record frame =
  kind :: meth
  phase :: phase
  ppcap_t :: "nat option"

record session =
  self :: pcapobject
  alive :: bool
  stacks :: "frame list list"

definition opened :: "pcapobject \<Rightarrow> nat \<Rightarrow> session" where
  "opened pp threads = \<lparr>self = pp, alive = True, stacks = replicate threads []\<rparr>"

text \<open>A thread can run Python code when it is outside of the methods, in a callback or in a conversion.\<close>

definition in_python :: "session \<Rightarrow> nat \<Rightarrow> bool" where
  "in_python s t \<longleftrightarrow> alive s \<and> t < length (stacks s) \<and>
     (case stacks s ! t of [] \<Rightarrow> True | f # fs \<Rightarrow> phase f \<noteq> InLibrary)"

definition entered :: "frame \<Rightarrow> bool" where
  "entered f \<longleftrightarrow> phase f \<noteq> Parsing"

text \<open>The libpcap calls in progress.\<close>

definition in_progress :: "session \<Rightarrow> nat" where
  "in_progress s = length (filter entered (concat (stacks s)))"

section \<open>The steps\<close>

text \<open>What libpcap sees: a call on a handle, the start and the end of a capture call, and \<open>pcap_close\<close>.\<close>

datatype event = Touch "nat option" | Enter "nat option" | Leave "nat option" | Free nat

text \<open>\<open>Call m\<close> is the code of a method up to the conversion of its arguments, \<open>Parsed ok\<close> what comes after
  it, up to releasing the lock; \<open>CallBack\<close> and \<open>Return raised\<close> are the begin and the end of a callback,
  \<open>Finish failed\<close> the code behind the capture call; \<open>Close\<close> is \<open>close()\<close> or the end of a \<open>with\<close> block;
  \<open>Destroy\<close> the end of the object, which the interpreter keeps alive during its methods.\<close>

datatype action = Call meth | Parsed bool | CallBack | Return bool | Finish bool | Close | Destroy

definition set_stack :: "nat \<Rightarrow> frame list \<Rightarrow> session \<Rightarrow> session" where
  "set_stack t fs s = s\<lparr>stacks := (stacks s)[t := fs]\<rparr>"

text \<open>Using \<open>pp->pcap\<close>, as it is now, in the libpcap calls of a method: a method that keeps the lock is
  then finished, a capture call is entered.\<close>

definition use_handle :: "nat \<Rightarrow> meth \<Rightarrow> frame list \<Rightarrow> session \<Rightarrow> event list \<times> session" where
  "use_handle t m fs s =
     (case m of Plain n \<Rightarrow> (replicate n (Touch (pcap (self s))), set_stack t fs s)
      | WithArgs n \<Rightarrow> (replicate n (Touch (pcap (self s))), set_stack t fs s)
      | _ \<Rightarrow> ([Enter (pcap (self s))],
               set_stack t (\<lparr>kind = m, phase = InLibrary, ppcap_t = pcap (self s)\<rparr> # fs) s))"

fun act :: "session \<Rightarrow> nat \<times> action \<Rightarrow> (event list \<times> session) option" where
  "act s (t, Call m) =
     (if in_python s t
      then Some (check_open (Obj (self s)) (\<lambda>ex. ([], s))
        (\<lambda>pp h. if parses m then ([], set_stack t (\<lparr>kind = m, phase = Parsing, ppcap_t = None\<rparr> # stacks s ! t) s)
                else use_handle t m (stacks s ! t) s)) else None)"
| "act s (t, Parsed ok) =
     (if t < length (stacks s)
      then (case stacks s ! t of [] \<Rightarrow> None
            | f # fs \<Rightarrow> if phase f = Parsing
                then Some (if ok then use_handle t (kind f) fs s else ([], set_stack t fs s)) else None) else None)"
| "act s (t, CallBack) =
     (if t < length (stacks s)
      then (case stacks s ! t of [] \<Rightarrow> None
            | f # fs \<Rightarrow> if phase f = InLibrary \<and> calls_back (kind f)
                then Some ([], set_stack t (f\<lparr>phase := InCallback\<rparr> # fs) s) else None) else None)"
| "act s (t, Return raised) =
     (if t < length (stacks s)
      then (case stacks s ! t of [] \<Rightarrow> None
            | f # fs \<Rightarrow> if phase f = InCallback
                then Some (if raised then [Touch (ppcap_t f)] else [], set_stack t (f\<lparr>phase := InLibrary\<rparr> # fs) s)
                else None) else None)"
| "act s (t, Finish failed) =
     (if t < length (stacks s)
      then (case stacks s ! t of [] \<Rightarrow> None
            | f # fs \<Rightarrow> if phase f = InLibrary
                then Some (Leave (ppcap_t f) # (if failed \<and> asks_error (kind f) then [Touch (pcap (self s))] else []),
                  set_stack t fs s) else None) else None)"
| "act s (t, Close) =
     (if in_python s t
      then (case p_close (self s) of (pp', closed, r) \<Rightarrow> Some (map Free closed, s\<lparr>self := pp'\<rparr>)) else None)"
| "act s (t, Destroy) =
     (if alive s \<and> list_all (\<lambda>fs. fs = []) (stacks s)
      then Some (map Free (pcap_dealloc (self s)), s\<lparr>self := (self s)\<lparr>pcap := None\<rparr>, alive := False\<rparr>) else None)"

section \<open>The rule of libpcap\<close>

text \<open>A handle is open or not, with the number of capture calls in progress on it: it may be used only while
  it is open, and closed only when no call on it is in progress.\<close>

fun permit :: "nat \<Rightarrow> bool \<times> nat \<Rightarrow> event \<Rightarrow> (bool \<times> nat) option" where
  "permit h (live, n) (Touch p) = (if live \<and> p = Some h then Some (live, n) else None)"
| "permit h (live, n) (Enter p) = (if live \<and> p = Some h then Some (live, Suc n) else None)"
| "permit h (live, n) (Leave p) = (if live \<and> p = Some h \<and> 0 < n then Some (live, n - 1) else None)"
| "permit h (live, n) (Free h') = (if live \<and> h' = h \<and> n = 0 then Some (False, 0) else None)"

definition obeys :: "nat \<Rightarrow> event list \<Rightarrow> bool" where
  "obeys h es \<longleftrightarrow> foldM (permit h) (True, 0) es \<noteq> None"

text \<open>Two actions need care: closing an open Reader while a libpcap call on it is in progress, and going
  on after the conversion of arguments when the Reader was closed meanwhile.\<close>

definition uses :: "meth \<Rightarrow> bool" where
  "uses m \<longleftrightarrow> m \<noteq> Plain 0 \<and> m \<noteq> WithArgs 0"

definition careful :: "session \<Rightarrow> nat \<times> action \<Rightarrow> bool" where
  "careful s = (\<lambda>(t, a). case a of
       Close \<Rightarrow> pcap (self s) = None \<or> in_progress s = 0
     | Parsed ok \<Rightarrow> ok \<longrightarrow> pcap (self s) \<noteq> None \<or>
         (case stacks s ! t of [] \<Rightarrow> True | f # fs \<Rightarrow> \<not> uses (kind f))
     | _ \<Rightarrow> True)"

text \<open>How the state of the session and the state of the handle belong together.\<close>

definition consistent :: "nat \<Rightarrow> session \<Rightarrow> bool \<times> nat \<Rightarrow> bool" where
  "consistent h s m \<longleftrightarrow> (case m of (live, n) \<Rightarrow>
     pcap (self s) = (if live then Some h else None) \<and> n = in_progress s \<and> (\<not> live \<longrightarrow> n = 0) \<and>
     (\<forall>f \<in> set (concat (stacks s)). entered f \<longrightarrow> ppcap_t f = Some h))"

lemma concat_update:
  assumes "t < length xss"
  shows "mset (concat (xss[t := ys])) + mset (xss ! t) = mset (concat xss) + mset ys"
  using assms by (induction xss arbitrary: t) (auto split: nat.split simp: union_assoc union_commute union_lcomm)

lemma set_stack_simps [simp]:
  "self (set_stack t fs s) = self s" "alive (set_stack t fs s) = alive s"
  "length (stacks (set_stack t fs s)) = length (stacks s)"
  "t < length (stacks s) \<Longrightarrow> stacks (set_stack t fs s) ! t = fs"
  by (simp_all add: set_stack_def)

lemma in_progress_set_stack:
  assumes "t < length (stacks s)"
  shows "in_progress (set_stack t fs s) + length (filter entered (stacks s ! t)) =
    in_progress s + length (filter entered fs)"
proof -
  have size: "length (filter P xs) = size (filter_mset P (mset xs))" for P and xs :: "frame list"
    by (simp flip: mset_filter)
  show ?thesis
    using arg_cong [OF concat_update [OF assms, of fs], of "\<lambda>M. size (filter_mset entered M)"]
    by (simp add: in_progress_def set_stack_def size)
qed

lemma frames_set_stack:
  "t < length (stacks s) \<Longrightarrow> f \<in> set (concat (stacks (set_stack t fs s))) \<Longrightarrow>
     f \<in> set fs \<or> f \<in> set (concat (stacks s))"
  by (auto simp: set_stack_def dest: set_update_subset_insert [THEN subsetD])

lemma in_progress_self [simp]:
  "in_progress (s\<lparr>self := pp\<rparr>) = in_progress s"
  "in_progress (s\<lparr>self := pp, alive := b\<rparr>) = in_progress s"
  "in_progress (opened pp n) = 0"
  by (simp_all add: in_progress_def opened_def)

lemma in_progress_idle: "list_all (\<lambda>fs. fs = []) (stacks s) \<Longrightarrow> in_progress s = 0"
  by (auto simp: in_progress_def list_all_iff filter_empty_conv)

lemma in_progress_pos:
  assumes "t < length (stacks s)" and "stacks s ! t = f # fs" and "entered f"
  shows "0 < in_progress s"
proof -
  have "f \<in> set (stacks s ! t)" "stacks s ! t \<in> set (stacks s)" using assms(2) nth_mem [OF assms(1)] by simp_all
  then have "f \<in> set (filter entered (concat (stacks s)))" using assms(3) by auto
  then show ?thesis unfolding in_progress_def by (metis length_pos_if_in_set)
qed

lemma consistent_set_stack:
  assumes "consistent h s (live, n)" and "t < length (stacks s)"
    and "n' + length (filter entered (stacks s ! t)) = n + length (filter entered fs)"
    and "\<forall>f \<in> set fs. entered f \<longrightarrow> ppcap_t f = Some h" and "live \<or> n' = 0"
  shows "consistent h (set_stack t fs s) (live, n')"
proof -
  have "n' = in_progress (set_stack t fs s)"
    using in_progress_set_stack [OF assms(2), of fs] assms(1,3) by (simp add: consistent_def)
  moreover have "\<forall>f \<in> set (concat (stacks (set_stack t fs s))). entered f \<longrightarrow> ppcap_t f = Some h"
    using assms(1,4) frames_set_stack [OF assms(2)] unfolding consistent_def prod.case by blast
  moreover have "pcap (self (set_stack t fs s)) = (if live then Some h else None)"
    using assms(1) by (simp add: consistent_def)
  ultimately show ?thesis using assms(5) unfolding consistent_def prod.case by (intro conjI) auto
qed

lemma consistent_frame:
  assumes "consistent h s m" and "t < length (stacks s)" and "stacks s ! t = f # fs"
  shows "entered f \<Longrightarrow> ppcap_t f = Some h" and "\<forall>g \<in> set fs. entered g \<longrightarrow> ppcap_t g = Some h"
  using assms nth_mem [OF assms(2)] by (auto simp: consistent_def split: prod.splits)

lemma foldM_touches: "foldM (permit h) (True, n) (replicate k (Touch (Some h))) = Some (True, n)"
  by (induction k) simp_all

text \<open>Going on with an open handle.\<close>

lemma use_handle_open:
  assumes "consistent h s (True, n)" and "t < length (stacks s)"
    and "length (filter entered (stacks s ! t)) = length (filter entered fs)"
    and "\<forall>f \<in> set fs. entered f \<longrightarrow> ppcap_t f = Some h"
    and "use_handle t m fs s = (es, s')"
  shows "\<exists>m'. foldM (permit h) (True, n) es = Some m' \<and> consistent h s' m'"
proof -
  have p: "pcap (self s) = Some h" using assms(1) by (simp add: consistent_def)
  have same: "consistent h (set_stack t fs s) (True, n)"
    using consistent_set_stack [OF assms(1,2), of n fs] assms(3,4) by simp
  have more: "consistent h (set_stack t (\<lparr>kind = k, phase = InLibrary, ppcap_t = Some h\<rparr> # fs) s) (True, Suc n)" for k
    using assms(3,4) by (intro consistent_set_stack [OF assms(1,2)]) (auto simp: entered_def)
  have "(\<exists>k. es = replicate k (Touch (Some h)) \<and> s' = set_stack t fs s) \<or>
      es = [Enter (Some h)] \<and> s' = set_stack t (\<lparr>kind = m, phase = InLibrary, ppcap_t = Some h\<rparr> # fs) s"
    using assms(5) p by (cases m) (auto simp: use_handle_def)
  then show ?thesis
  proof
    assume "\<exists>k. es = replicate k (Touch (Some h)) \<and> s' = set_stack t fs s"
    then show ?thesis using same foldM_touches by blast
  next
    assume "es = [Enter (Some h)] \<and> s' = set_stack t (\<lparr>kind = m, phase = InLibrary, ppcap_t = Some h\<rparr> # fs) s"
    then show ?thesis using more by (intro exI [of _ "(True, Suc n)"]) simp
  qed
qed

text \<open>Going on with NULL.\<close>

lemma use_handle_null:
  assumes "pcap (self s) = None" and "uses m" and "use_handle t m fs s = (es, s')"
  shows "foldM (permit h) st es = None"
proof -
  obtain e es' where "es = e # es'" "e = Touch None \<or> e = Enter None"
    using assms by (cases m) (auto simp: use_handle_def uses_def gr0_conv_Suc)
  then show ?thesis by (cases st) auto
qed


text \<open>Every action keeps the rule when it is careful and breaks it when it is not.\<close>

lemma act_keeps:
  assumes "consistent h s m" and "careful s a" and "act s a = Some (es, s')"
  shows "\<exists>m'. foldM (permit h) m es = Some m' \<and> consistent h s' m'"
proof -
  obtain live n where m: "m = (live, n)" by fastforce
  obtain t x where a: "a = (t, x)" by fastforce
  have con: "consistent h s (live, n)" and p: "pcap (self s) = (if live then Some h else None)"
    and n: "n = in_progress s" "\<not> live \<longrightarrow> n = 0"
    using assms(1) by (auto simp: m consistent_def)
  note frame = consistent_frame [OF con]
  show ?thesis
  proof (cases x)
    case (Call c)
    have t: "in_python s t" "t < length (stacks s)"
      using assms(3) by (auto simp: a Call in_python_def split: if_splits)
    show ?thesis
    proof (cases live)
      case False
      then show ?thesis using assms(1,3) t p by (auto simp: a Call m)
    next
      case True
      have old: "\<forall>f \<in> set (stacks s ! t). entered f \<longrightarrow> ppcap_t f = Some h"
        using con nth_mem [OF t(2)] by (auto simp: consistent_def)
      show ?thesis
      proof (cases "parses c")
        case True
        have "consistent h (set_stack t (\<lparr>kind = c, phase = Parsing, ppcap_t = None\<rparr> # stacks s ! t) s) (live, n)"
          using old \<open>live\<close> by (intro consistent_set_stack [OF con t(2)]) (auto simp: entered_def)
        then show ?thesis using assms(3) t True p \<open>live\<close> by (auto simp: a Call m)
      next
        case False
        then have "use_handle t c (stacks s ! t) s = (es, s')" using assms(3) t p True by (auto simp: a Call)
        then show ?thesis using use_handle_open [OF _ t(2) refl old] con True by (simp add: m)
      qed
    qed
  next
    case (Parsed ok)
    then obtain f fs where f: "t < length (stacks s)" "stacks s ! t = f # fs" "phase f = Parsing"
        "(es, s') = (if ok then use_handle t (kind f) fs s else ([], set_stack t fs s))"
      using assms(3) by (auto simp: a split: list.splits if_splits)
    have len: "length (filter entered (stacks s ! t)) = length (filter entered fs)"
      using f(2,3) by (simp add: entered_def)
    have same: "consistent h (set_stack t fs s) (live, n)"
      using len frame(2) [OF f(1,2)] n(2) by (intro consistent_set_stack [OF con f(1)]) auto
    show ?thesis
    proof (cases "ok \<and> live")
      case True
      then show ?thesis using use_handle_open [OF _ f(1) len frame(2) [OF f(1,2)]] con f(4) by (simp add: m)
    next
      case False
      then have "es = [] \<and> s' = set_stack t fs s"
        using assms(2) f p by (cases "kind f") (auto simp: a Parsed careful_def uses_def use_handle_def split: if_splits)
      then show ?thesis using same by (simp add: m)
    qed
  next
    case CallBack
    then obtain f fs where f: "t < length (stacks s)" "stacks s ! t = f # fs" "phase f = InLibrary"
        "es = []" "s' = set_stack t (f\<lparr>phase := InCallback\<rparr> # fs) s"
      using assms(3) by (auto simp: a split: list.splits if_splits)
    have "consistent h s' (live, n)"
      unfolding f(5) using frame [OF f(1,2)] f(2,3) n(2)
      by (intro consistent_set_stack [OF con f(1)]) (auto simp: entered_def)
    then show ?thesis using f(4) by (simp add: m)
  next
    case (Return raised)
    then obtain f fs where f: "t < length (stacks s)" "stacks s ! t = f # fs" "phase f = InCallback"
        "es = (if raised then [Touch (ppcap_t f)] else [])" "s' = set_stack t (f\<lparr>phase := InLibrary\<rparr> # fs) s"
      using assms(3) by (auto simp: a split: list.splits if_splits)
    have "consistent h s' (live, n)"
      unfolding f(5) using frame [OF f(1,2)] f(2,3) n(2)
      by (intro consistent_set_stack [OF con f(1)]) (auto simp: entered_def)
    moreover have "live" "ppcap_t f = Some h"
      using in_progress_pos [OF f(1,2)] n frame(1) [OF f(1,2)] f(3) by (auto simp: entered_def)
    ultimately show ?thesis using f(4) by (intro exI [of _ "(live, n)"]) (simp add: m)
  next
    case (Finish failed)
    then obtain f fs where f: "t < length (stacks s)" "stacks s ! t = f # fs" "phase f = InLibrary"
        "es = Leave (ppcap_t f) # (if failed \<and> asks_error (kind f) then [Touch (pcap (self s))] else [])"
        "s' = set_stack t fs s"
      using assms(3) by (auto simp: a split: list.splits if_splits)
    have pos: "0 < n" using in_progress_pos [OF f(1,2)] n f(3) by (simp add: entered_def)
    moreover have "consistent h s' (live, n - 1)"
      unfolding f(5) using frame [OF f(1,2)] f(2,3) n(2) pos
      by (intro consistent_set_stack [OF con f(1)]) (auto simp: entered_def)
    moreover have "live" "ppcap_t f = Some h"
      using pos n frame(1) [OF f(1,2)] f(3) by (auto simp: entered_def)
    ultimately show ?thesis using f(4) p by (intro exI [of _ "(live, n - 1)"]) (simp add: m)
  next
    case Close
    then have "es = map Free (case pcap (self s) of None \<Rightarrow> [] | Some h \<Rightarrow> [h])" "s' = s\<lparr>self := (self s)\<lparr>pcap := None\<rparr>\<rparr>"
      using assms(3) by (auto simp: a p_close_def Let_def split: if_splits)
    then show ?thesis using assms(2) con p n by (auto simp: a Close careful_def m consistent_def)
  next
    case Destroy
    then have "es = map Free (pcap_dealloc (self s))" "s' = s\<lparr>self := (self s)\<lparr>pcap := None\<rparr>, alive := False\<rparr>"
        "in_progress s = 0"
      using assms(3) in_progress_idle by (auto simp: a split: if_splits)
    then show ?thesis using con p n by (auto simp: pcap_dealloc_def p_close_def m consistent_def)
  qed
qed

lemma act_offends:
  assumes "consistent h s m" and "\<not> careful s a" and "act s a = Some (es, s')"
  shows "foldM (permit h) m es = None"
proof -
  obtain live n where m: "m = (live, n)" by fastforce
  obtain t x where a: "a = (t, x)" by fastforce
  consider "x = Close" "pcap (self s) \<noteq> None" "0 < in_progress s"
    | f fs where "x = Parsed True" "pcap (self s) = None" "stacks s ! t = f # fs" "uses (kind f)"
    using assms(2) by (auto simp: careful_def a split: action.splits list.splits)
  then show ?thesis
  proof cases
    case 1
    then show ?thesis using assms(1,3)
      by (auto simp: a m consistent_def p_close_def Let_def split: if_splits)
  next
    case 2
    then have "use_handle t (kind f) fs s = (es, s')" using assms(3) by (auto simp: a split: if_splits)
    then show ?thesis using use_handle_null 2 by blast
  qed
qed

interpretation pcap: monitored act "permit h" "consistent h" careful
  by unfold_locales (fact act_keeps, fact act_offends)

lemma consistent_opened: "pcap pp = Some h \<Longrightarrow> consistent h (opened pp threads) (True, 0)"
  by (auto simp: consistent_def) (auto simp: opened_def)

section \<open>Properties\<close>

definition is_free :: "event \<Rightarrow> bool" where
  "is_free e \<longleftrightarrow> (case e of Free h \<Rightarrow> True | _ \<Rightarrow> False)"

lemma permit_frees:
  "foldM (permit h) (live, n) es = Some (live', n') \<Longrightarrow>
     filter is_free es = (if live \<and> \<not> live' then [Free h] else []) \<and> (live' \<longrightarrow> live)"
proof (induction es arbitrary: live n)
  case (Cons e es)
  then show ?case
    by (cases e) (auto simp: is_free_def split: Option.bind_splits if_splits)
qed simp

lemma session_frees:
  assumes "consistent h s0 (True, 0)" and "emits act s0 as = Some (es, s)" and "obeys h es"
  shows "filter is_free es = (if pcap (self s) = None then [Free h] else [])"
proof -
  have "guarded careful act s0 as" using pcap.run_clean_iff [OF assms(1,2)] assms(3) by (simp add: obeys_def)
  then obtain live n where "foldM (permit h) (True, 0) es = Some (live, n)" "consistent h s (live, n)"
    using pcap.run_keeps [OF assms(1,2)] by (metis surj_pair)
  then show ?thesis using permit_frees [of h True 0 es live n] by (auto simp: consistent_def)
qed

text \<open>C5: Whatever threads and callbacks do with an open Reader, in any order, libpcap's rule - a handle is
  used only while it is open and closed only when no call on it is in progress - is kept exactly if two
  things never happen: a \<open>close()\<close> while a capture call is in progress, and a \<open>close()\<close> between the closed
  check of a method and its libpcap call (while its arguments are converted). In particular the end of the
  object never breaks it. When it is kept, the handle is closed once or not yet.\<close>

theorem reader_sessions:
  assumes "pcap pp = Some h" and "emits act (opened pp threads) as = Some (es, s)"
  shows "(obeys h es \<longleftrightarrow> guarded careful act (opened pp threads) as) \<and>
    (obeys h es \<longrightarrow> filter is_free es = (if pcap (self s) = None then [Free h] else []))"
  using pcap.run_clean_iff [OF consistent_opened [OF assms(1)] assms(2)]
    session_frees [OF consistent_opened [OF assms(1)] assms(2)]
  by (simp add: obeys_def)

theorem reader_sessions_witness:
  "\<exists>es s. emits act (opened sample_object 1) [(0, Call Next), (0, Finish False), (0, Close), (0, Call Loop), (0, Destroy)] =
      Some (es, s) \<and> es = [Enter (Some 1), Leave (Some 1), Free 1] \<and> obeys 1 es \<and>
    filter is_free es = (if pcap (self s) = None then [Free 1] else []) \<and> \<not> alive s"
proof -
  let ?as = "[(0, Call Next), (0, Finish False), (0, Close), (0, Call Loop), (0, Destroy)]"
  let ?s = "\<lparr>self = sample_object\<lparr>pcap := None\<rparr>, alive = False, stacks = [[]]\<rparr>"
  have run: "emits act (opened sample_object 1) ?as = Some ([Enter (Some 1), Leave (Some 1), Free 1], ?s)"
    by (simp add: opened_def in_python_def use_handle_def set_stack_def p_close_def pcap_dealloc_def)
  have "guarded careful act (opened sample_object 1) ?as"
    by (simp add: opened_def in_python_def use_handle_def set_stack_def p_close_def pcap_dealloc_def careful_def
        in_progress_def)
  then show ?thesis using reader_sessions [OF _ run, of 1] run by simp
qed

text \<open>The methods and their callbacks can be left out of the picture when \<open>close()\<close> is called only while no
  method of the Reader is at work.\<close>

definition idle :: "session \<Rightarrow> bool" where
  "idle s \<longleftrightarrow> list_all (\<lambda>fs. fs = []) (stacks s)"

definition closes_when_idle :: "session \<Rightarrow> nat \<times> action \<Rightarrow> bool" where
  "closes_when_idle s a \<longleftrightarrow> (snd a = Close \<longrightarrow> idle s)"

lemma use_handle_keeps: "self (snd (use_handle t m fs s)) = self s" "alive (snd (use_handle t m fs s)) = alive s"
  by (cases m; simp add: use_handle_def)+

lemma act_self:
  assumes "act s a = Some (es, s')"
  shows "(if snd a = Close \<or> snd a = Destroy then pcap (self s') = None else self s' = self s) \<and>
    (snd a \<noteq> Destroy \<longrightarrow> alive s' = alive s)"
proof -
  obtain t x where a: "a = (t, x)" by fastforce
  show ?thesis
  proof (cases x)
    case (Call m)
    then show ?thesis using assms use_handle_keeps [of t m "stacks s ! t" s]
      by (cases "pcap (self s)") (auto simp: a split: if_splits)
  next
    case (Parsed ok)
    then obtain f fs where "stacks s ! t = f # fs" "(es, s') = (if ok then use_handle t (kind f) fs s else ([], set_stack t fs s))"
      using assms by (auto simp: a split: list.splits if_splits)
    then show ?thesis using Parsed use_handle_keeps [of t "kind f" fs s]
      by (cases ok) (auto simp: a eq_commute [of "(es, s')"])
  qed (use assms in \<open>auto simp: a p_close_def Let_def split: list.splits if_splits\<close>)
qed

lemma destroyed_is_closed:
  assumes "\<not> alive s \<longrightarrow> pcap (self s) = None" and "emits act s as = Some (es, s')"
  shows "\<not> alive s' \<longrightarrow> pcap (self s') = None"
  using assms
proof (induction as arbitrary: s es)
  case (Cons a as)
  obtain e1 s1 e2 where 1: "act s a = Some (e1, s1)" "emits act s1 as = Some (e2, s')"
    using Cons.prems(2) by (auto split: Option.bind_splits)
  have "\<not> alive s1 \<longrightarrow> pcap (self s1) = None"
    using Cons.prems(1) act_self [OF 1(1)] by (auto split: if_splits)
  then show ?case using Cons.IH 1(2) by blast
qed simp

lemma closed_stays_idle:
  assumes "pcap (self s) = None \<longrightarrow> idle s" and "closes_when_idle s a" and "act s a = Some (es, s')"
  shows "pcap (self s') = None \<longrightarrow> idle s'" and "careful s a"
proof -
  obtain t x where a: "a = (t, x)" by fastforce
  have busy: "pcap (self s) \<noteq> None" if "t < length (stacks s)" "stacks s ! t = f # fs" for f fs
    using assms(1) that by (auto simp: idle_def list_all_length)
  show "pcap (self s') = None \<longrightarrow> idle s'"
  proof (cases "x = Close \<or> x = Destroy")
    case True
    then show ?thesis using assms(2,3)
      by (auto simp: a closes_when_idle_def idle_def p_close_def Let_def split: if_splits)
  next
    case False
    then have self: "self s' = self s" using act_self [OF assms(3)] by (simp add: a)
    have "idle s'" if "pcap (self s) = None"
      using that assms(1,3) busy False by (cases x) (auto simp: a split: list.splits if_splits)
    then show ?thesis using self by simp
  qed
  show "careful s a"
  proof (cases x)
    case (Parsed ok)
    then show ?thesis using assms(3) busy by (auto simp: a careful_def split: list.splits if_splits)
  qed (use assms(2) in_progress_idle in \<open>auto simp: a careful_def closes_when_idle_def idle_def\<close>)
qed

lemma idle_guarded:
  assumes "pcap (self s) = None \<longrightarrow> idle s" and "guarded closes_when_idle act s as"
    and "emits act s as = Some (es, s')"
  shows "guarded careful act s as"
  using assms
proof (induction as arbitrary: s es)
  case (Cons a as)
  obtain e1 s1 e2 where 1: "act s a = Some (e1, s1)" "emits act s1 as = Some (e2, s')"
    using Cons.prems(3) by (auto split: Option.bind_splits)
  with Cons.prems have "closes_when_idle s a" "guarded closes_when_idle act s1 as" by simp_all
  then show ?case using Cons.IH [OF _ _ 1(2)] closed_stays_idle [OF Cons.prems(1) _ 1(1)] 1(1) by simp
qed simp

text \<open>C14: Closing a Reader only when none of its methods is at work, in any thread, is enough: then no method
  and no callback ever touches a closed handle, capture calls are never cut off, and the end of the object
  leaves the handle closed exactly once.\<close>

theorem closing_when_idle_is_safe:
  assumes "pcap pp = Some h" and "emits act (opened pp threads) as = Some (es, s)"
    and "guarded closes_when_idle act (opened pp threads) as"
  shows "obeys h es \<and> (\<not> alive s \<longrightarrow> filter is_free es = [Free h])"
proof -
  have "guarded careful act (opened pp threads) as"
    using idle_guarded [OF _ assms(3,2)] assms(1) by (simp add: opened_def)
  then have obeys: "obeys h es"
    using pcap.run_clean_iff [OF consistent_opened [OF assms(1)] assms(2)] by (simp add: obeys_def)
  have "\<not> alive s \<longrightarrow> pcap (self s) = None" using destroyed_is_closed [OF _ assms(2)] by (simp add: opened_def)
  then show ?thesis using obeys session_frees [OF consistent_opened [OF assms(1)] assms(2) obeys] by simp
qed

theorem closing_when_idle_is_safe_witness:
  "\<exists>es s. emits act (opened sample_object 2) [(0, Call Loop), (0, Parsed True), (0, CallBack), (1, Call Next),
        (0, Call (Plain 1)), (1, Finish False), (0, Return True), (0, Finish False), (1, Close), (0, Destroy)] = Some (es, s) \<and>
    obeys 1 es \<and> filter is_free es = [Free 1]"
proof -
  let ?as = "[(0, Call Loop), (0, Parsed True), (0, CallBack), (1, Call Next), (0, Call (Plain 1)),
    (1, Finish False), (0, Return True), (0, Finish False), (1, Close), (0, Destroy)]"
  let ?s = "\<lparr>self = sample_object\<lparr>pcap := None\<rparr>, alive = False, stacks = [[], []]\<rparr>"
  let ?es = "[Enter (Some 1), Enter (Some 1), Touch (Some 1), Leave (Some 1), Touch (Some 1), Leave (Some 1), Free 1]"
  note simps = opened_def in_python_def use_handle_def set_stack_def p_close_def pcap_dealloc_def
    closes_when_idle_def idle_def numeral_2_eq_2
  have run: "emits act (opened sample_object 2) ?as = Some (?es, ?s)" by (simp add: simps)
  have "guarded closes_when_idle act (opened sample_object 2) ?as" by (simp add: simps)
  then show ?thesis using closing_when_idle_is_safe [OF _ run, of 1] run by simp
qed

text \<open>C30: The three ways to break the rule, for every method each can happen to: the callback of a method
  that has one closes the Reader it is called from, and libpcap goes on with the freed handle (and the method
  asks NULL for an error text when the call fails); another thread closes it during a capture call,
  \<open>next()\<close> included; the conversion of an argument closes it behind the closed check, and any method that
  converts arguments and then calls libpcap, a capture call or not, calls it with NULL.\<close>

theorem closes_that_break_the_rule:
  assumes "pcap pp = Some h"
  shows "(calls_back m \<longrightarrow>
      (\<exists>s. emits act (opened pp 1) [(0, Call m), (0, Parsed True), (0, CallBack), (0, Close), (0, Return False), (0, Finish True)] =
         Some ([Enter (Some h), Free h, Leave (Some h), Touch None], s)) \<and>
      \<not> obeys h [Enter (Some h), Free h, Leave (Some h), Touch None]) \<and>
    (capture_call m \<longrightarrow>
      (\<exists>s. emits act (opened pp 2) ((0, Call m) # (if parses m then [(0, Parsed True)] else []) @ [(1, Close)]) =
         Some ([Enter (Some h), Free h], s)) \<and>
      \<not> obeys h [Enter (Some h), Free h]) \<and>
    (parses m \<and> uses m \<longrightarrow>
      (\<exists>es s. emits act (opened pp 1) [(0, Call m), (0, Close), (0, Parsed True)] = Some (Free h # es, s) \<and>
         es \<noteq> [] \<and> set es \<subseteq> {Enter None, Touch None} \<and> \<not> obeys h (Free h # es)))"
proof (intro conjI impI)
  note simps = opened_def in_python_def use_handle_def set_stack_def p_close_def obeys_def numeral_2_eq_2
  show "\<exists>s. emits act (opened pp 1) [(0, Call m), (0, Parsed True), (0, CallBack), (0, Close), (0, Return False), (0, Finish True)] =
      Some ([Enter (Some h), Free h, Leave (Some h), Touch None], s)" if "calls_back m"
    using assms that by (cases m) (simp_all add: simps)
  show "\<exists>s. emits act (opened pp 2) ((0, Call m) # (if parses m then [(0, Parsed True)] else []) @ [(1, Close)]) =
      Some ([Enter (Some h), Free h], s)" if "capture_call m"
    using assms that by (cases m) (simp_all add: simps capture_call_def)
  have freed: "\<not> obeys h (Free h # es)" if "es \<noteq> []" "set es \<subseteq> {Enter None, Touch None}" for es
    using that by (cases es) (auto simp: obeys_def)
  show "\<exists>es s. emits act (opened pp 1) [(0, Call m), (0, Close), (0, Parsed True)] = Some (Free h # es, s) \<and>
      es \<noteq> [] \<and> set es \<subseteq> {Enter None, Touch None} \<and> \<not> obeys h (Free h # es)" if m: "parses m \<and> uses m"
  proof (cases "\<exists>n. m = WithArgs n")
    case True
    then obtain n where n: "m = WithArgs n" "n \<noteq> 0" using m by (auto simp: uses_def)
    then show ?thesis using assms freed [of "replicate n (Touch None)"]
      by (intro exI [of _ "replicate n (Touch None)"]) (simp add: simps)
  next
    case False
    then show ?thesis using assms m freed [of "[Enter None]"]
      by (intro exI [of _ "[Enter None]"]; cases m) (simp_all add: simps)
  qed
qed (simp_all add: obeys_def)

theorem closes_that_break_the_rule_witness:
  "(\<exists>s. emits act (opened sample_object 2) [(0, Call Next), (1, Close)] = Some ([Enter (Some 1), Free 1], s)) \<and>
   \<not> obeys 1 [Enter (Some 1), Free 1] \<and>
   (\<exists>es s. emits act (opened sample_object 1) [(0, Call (WithArgs 1)), (0, Close), (0, Parsed True)] = Some (Free 1 # es, s) \<and>
      es \<noteq> [] \<and> \<not> obeys 1 (Free 1 # es))"
proof -
  have "capture_call Next" "parses (WithArgs 1) \<and> uses (WithArgs 1)" by (simp_all add: capture_call_def uses_def)
  then show ?thesis
    using closes_that_break_the_rule [of sample_object 1 Next] closes_that_break_the_rule [of sample_object 1 "WithArgs 1"]
    by (simp del: act.simps emits_simps) blast
qed

end
