(* ===== verification/Dumper_Life.thy ===== *)
theory Dumper_Life
  imports Monitored Module
begin

text \<open>
  The life of a Dumper (\<open>src/pcapdumper.cc\<close>): any sequence of \<open>dump()\<close> and \<open>close()\<close> calls up to the end of
  the object, and what it does to the \<open>pcap_dumper_t\<close>. \<open>dump()\<close> looks for the closed state behind the
  conversion of its arguments, so that code run by a conversion changes nothing here.
\<close>

section \<open>Steps and events\<close>

datatype dump_action = Dump "exn + (pkthdr pyobj \<times> u8 list)" | CloseDumper | DestroyDumper

datatype dump_event = Written "nat option" pcap_pkthdr "u8 list" | DumpClosed nat

text \<open>The object and whether it is alive.\<close>

fun dump_act :: "pcapdumper \<times> bool \<Rightarrow> dump_action \<Rightarrow> (dump_event list \<times> (pcapdumper \<times> bool)) option" where
  "dump_act (pp, alive) (Dump args) =
     (if alive
      then map_option (\<lambda>(records, r). (map (\<lambda>(hdr, data). Written (dumper pp) hdr data) records, (pp, alive)))
             (p_dump (Obj pp) args) else None)"
| "dump_act (pp, alive) CloseDumper =
     (if alive
      then (case dumper_close (Obj pp) of
              (Obj pp', closed, r) \<Rightarrow> Some (map DumpClosed closed, (pp', alive)) | _ \<Rightarrow> None) else None)"
| "dump_act (pp, alive) DestroyDumper =
     (if alive then Some (map DumpClosed (dumper_dealloc pp), (pp\<lparr>dumper := None\<rparr>, False)) else None)"

text \<open>libpcap's rule: write to an open dumper, close it once. The monitor keeps the records written.\<close>

fun permit_dump :: "nat \<Rightarrow> bool \<times> (pcap_pkthdr \<times> u8 list) list \<Rightarrow> dump_event \<Rightarrow> (bool \<times> (pcap_pkthdr \<times> u8 list) list) option" where
  "permit_dump d (live, recs) (Written p hdr data) = (if live \<and> p = Some d then Some (live, recs @ [(hdr, data)]) else None)"
| "permit_dump d (live, recs) (DumpClosed d') = (if live \<and> d' = d then Some (False, recs) else None)"

definition dumper_state :: "nat \<Rightarrow> pcapdumper \<times> bool \<Rightarrow> bool \<times> (pcap_pkthdr \<times> u8 list) list \<Rightarrow> bool" where
  "dumper_state d s m \<longleftrightarrow> dumper (fst s) = (if fst m then Some d else None) \<and> (\<not> snd s \<longrightarrow> \<not> fst m)"

lemma p_dump_records: "p_dump (Obj pp) args = Some (records, r) \<Longrightarrow> records = [] \<or> dumper pp \<noteq> None \<and> length records = 1"
  by (auto simp: p_dump_def validate_pcapdumper_def split: sum.splits prod.splits option.splits if_splits Option.bind_splits)

interpretation dumper: well_behaved dump_act "permit_dump d" "dumper_state d"
proof unfold_locales
  fix s m a es s'
  assume con: "dumper_state d s m" and step: "dump_act s a = Some (es, s')"
  obtain pp alive live recs where s: "s = (pp, alive)" "m = (live, recs)" by fastforce
  have closing: "\<exists>m'. foldM (permit_dump d) m (map DumpClosed (dumper_dealloc pp)) = Some m' \<and>
      dumper_state d (pp\<lparr>dumper := None\<rparr>, b) m'" for b
    using con by (cases live) (simp_all add: s dumper_state_def dumper_dealloc_def)
  show "\<exists>m'. foldM (permit_dump d) m es = Some m' \<and> dumper_state d s' m'"
  proof (cases a)
    case (Dump args)
    then obtain records r where run: "p_dump (Obj pp) args = Some (records, r)"
      and es: "es = map (\<lambda>(hdr, data). Written (dumper pp) hdr data) records" "s' = s"
      using step by (auto simp: s split: if_splits)
    consider "records = []" | hdr data where "records = [(hdr, data)]" "dumper pp \<noteq> None"
      using p_dump_records [OF run] by (auto simp: length_Suc_conv)
    then show ?thesis
    proof cases
      case 1
      then show ?thesis using con es by simp
    next
      case (2 hdr data)
      then have "dumper pp = Some d \<and> live" using con by (auto simp: s dumper_state_def split: if_splits)
      then show ?thesis using 2(1) con es by (simp add: s dumper_state_def)
    qed
  next
    case CloseDumper
    have "dump_act (pp, alive) CloseDumper = (if alive then
        Some (map DumpClosed (dumper_dealloc pp), (pp\<lparr>dumper := None\<rparr>, alive)) else None)"
      by (simp add: dumper_close_def validate_pcapdumper_def dumper_dealloc_def)
    then have "es = map DumpClosed (dumper_dealloc pp)" "s' = (pp\<lparr>dumper := None\<rparr>, alive)"
      using step by (auto simp: s CloseDumper simp del: dump_act.simps split: if_splits)
    then show ?thesis using closing by simp
  next
    case DestroyDumper
    then have "es = map DumpClosed (dumper_dealloc pp)" "s' = (pp\<lparr>dumper := None\<rparr>, False)"
      using step by (auto simp: s split: if_splits)
    then show ?thesis using closing by simp
  qed
qed

section \<open>Properties\<close>

definition is_closed :: "dump_event \<Rightarrow> bool" where
  "is_closed e \<longleftrightarrow> (case e of DumpClosed d \<Rightarrow> True | _ \<Rightarrow> False)"

lemma permit_dump_closes:
  "foldM (permit_dump d) (live, recs) es = Some (live', recs') \<Longrightarrow>
     filter is_closed es = (if live \<and> \<not> live' then [DumpClosed d] else []) \<and> (live' \<longrightarrow> live)"
proof (induction es arbitrary: live recs)
  case (Cons e es)
  then show ?case by (cases e) (auto simp: is_closed_def split: if_splits)
qed simp

text \<open>C22: Whatever a script does with a Dumper, in any order and from any thread, it writes to the dump file
  only while it is open, and when the object is gone the file was closed exactly once.\<close>

theorem dumper_sessions:
  assumes "emits dump_act (new_pcapdumper d, True) as = Some (es, (pp, alive))"
  shows "\<exists>live recs. foldM (permit_dump d) (True, []) es = Some (live, recs) \<and> dumper pp = (if live then Some d else None) \<and>
    filter is_closed es = (if live then [] else [DumpClosed d]) \<and> (\<not> alive \<longrightarrow> \<not> live)"
proof -
  have "dumper_state d (new_pcapdumper d, True) (True, [])" by (simp add: dumper_state_def new_pcapdumper_def)
  from dumper.run_always [OF this assms] obtain live recs where
    run: "foldM (permit_dump d) (True, []) es = Some (live, recs)" "dumper_state d (pp, alive) (live, recs)"
    by (metis surj_pair)
  then show ?thesis using permit_dump_closes [OF run(1)] by (auto simp: dumper_state_def)
qed

theorem dumper_sessions_witness:
  "\<exists>es pp alive live recs. emits dump_act (new_pcapdumper 3, True)
      [Dump (Inr (Obj (new_pcap_pkthdr \<lparr>tv_sec = 1, tv_usec = 2, h_caplen = 2, h_len = 9\<rparr>), [7, 8])), CloseDumper,
       Dump (Inr (Obj (new_pcap_pkthdr \<lparr>tv_sec = 1, tv_usec = 2, h_caplen = 2, h_len = 9\<rparr>), [7, 8])), CloseDumper,
       DestroyDumper] = Some (es, (pp, alive)) \<and> \<not> alive \<and>
    es = [Written (Some 3) \<lparr>tv_sec = 1, tv_usec = 2, h_caplen = 2, h_len = 9\<rparr> [7, 8], DumpClosed 3] \<and>
    foldM (permit_dump 3) (True, []) es = Some (live, recs) \<and> filter is_closed es = (if live then [] else [DumpClosed 3])"
proof -
  let ?h = "\<lparr>tv_sec = 1, tv_usec = 2, h_caplen = 2, h_len = 9\<rparr> :: pcap_pkthdr"
  let ?as = "[Dump (Inr (Obj (new_pcap_pkthdr ?h), [7, 8])), CloseDumper, Dump (Inr (Obj (new_pcap_pkthdr ?h), [7, 8])),
    CloseDumper, DestroyDumper]"
  have run: "emits dump_act (new_pcapdumper 3, True) ?as =
      Some ([Written (Some 3) ?h [7, 8], DumpClosed 3], (\<lparr>dumper = None\<rparr>, False))"
    by (simp add: p_dump_def dumper_close_def validate_pcapdumper_def new_pcapdumper_def dumper_dealloc_def bytes_of_def)
  show ?thesis using run dumper_sessions [OF run] by blast
qed

end
