(* ===== verification/Effects.thy ===== *)
theory Effects
  imports Batch Ring_Buffer "HOL-Library.Multiset"
begin

text \<open>
  What the capture loops of \<open>src/pcapobj.cc\<close> do besides computing: they release and retake the lock
  of the interpreter, and they own memory blocks, references and buffer views. The functions here
  give, for the same inputs as the functions of the other theories, the sequence of these effects on
  every path through the C code. A ledger executes such a sequence; it gets stuck on a call into the
  interpreter without the lock, on releasing or retaking the lock twice, on using or freeing something
  that is not owned.
\<close>

section \<open>Effects and the ledger\<close>

datatype resource = Block string | Ref string | View | Handle | DumpFile | Program

text \<open>\<open>Save\<close> and \<open>Restore\<close> are \<open>PyEval_SaveThread\<close> and \<open>PyEval_RestoreThread\<close>; \<open>Api\<close> is any other call
  into the interpreter, \<open>Lib\<close> one into libpcap or the system.\<close>

datatype effect = Acquire resource | Release resource | Use resource | Save | Restore | Api string | Lib string

fun object_of_python :: "resource \<Rightarrow> bool" where
  "object_of_python (Ref _) = True"
| "object_of_python View = True"
| "object_of_python _ = False"

type_synonym ledger = "bool \<times> resource multiset"

fun perform :: "ledger \<Rightarrow> effect \<Rightarrow> ledger option" where
  "perform (lock, own) (Acquire r) = (if object_of_python r \<and> \<not> lock then None else Some (lock, add_mset r own))"
| "perform (lock, own) (Release r) =
     (if object_of_python r \<and> \<not> lock \<or> r \<notin># own then None else Some (lock, own - {#r#}))"
| "perform (lock, own) (Use r) = (if r \<in># own then Some (lock, own) else None)"
| "perform (lock, own) Save = (if lock then Some (False, own) else None)"
| "perform (lock, own) Restore = (if lock then None else Some (True, own))"
| "perform (lock, own) (Api f) = (if lock then Some (lock, own) else None)"
| "perform (lock, own) (Lib f) = Some (lock, own)"

abbreviation performs :: "effect list \<Rightarrow> ledger \<Rightarrow> ledger option" where
  "performs tr s \<equiv> foldM perform s tr"

text \<open>A function of the extension is entered and left with the lock; it must give back what it took.\<close>

definition disciplined :: "effect list \<Rightarrow> bool" where
  "disciplined tr \<longleftrightarrow> (\<forall>own. performs tr (True, own) = Some (True, own))"

definition unlocked :: "effect list \<Rightarrow> bool" where
  "unlocked tr \<longleftrightarrow> (\<forall>own. performs tr (False, own) = Some (False, own))"

definition crossings :: "effect list \<Rightarrow> nat" where
  "crossings tr = count_list tr Restore"

lemma crossings_simps [simp]:
  "crossings [] = 0" "crossings (Restore # tr) = Suc (crossings tr)" "crossings (xs @ ys) = crossings xs + crossings ys"
  "x \<noteq> Restore \<Longrightarrow> crossings (x # tr) = crossings tr"
  by (simp_all add: crossings_def)

lemma disciplined_Nil [simp]: "disciplined []"
  by (simp add: disciplined_def)

lemma disciplined_append: "disciplined xs \<Longrightarrow> disciplined ys \<Longrightarrow> disciplined (xs @ ys)"
  by (simp add: disciplined_def foldM_append)

lemma disciplined_Api [simp]: "disciplined (Api f # tr) = disciplined tr"
  by (simp add: disciplined_def)

lemma unlocked_append: "unlocked xs \<Longrightarrow> unlocked ys \<Longrightarrow> unlocked (xs @ ys)"
  by (simp add: unlocked_def foldM_append)

lemma unlocked_Nil [simp]: "unlocked []"
  by (simp add: unlocked_def)

text \<open>The loop of libpcap runs with the lock released.\<close>

lemma disciplined_released: "unlocked tr \<Longrightarrow> disciplined (Save # tr @ [Restore])"
  by (simp add: disciplined_def unlocked_def foldM_append)

text \<open>Taking a block around a disciplined sequence.\<close>

lemma disciplined_owning: "disciplined tr \<Longrightarrow> disciplined (Acquire r # tr @ [Release r])"
  by (simp add: disciplined_def foldM_append)

section \<open>Callbacks with their effects\<close>

text \<open>Running a callback and collecting its effects.\<close>

definition traced ::
  "('s \<Rightarrow> packet \<Rightarrow> ('s \<times> bool) option) \<Rightarrow> ('s \<Rightarrow> packet \<Rightarrow> effect list option) \<Rightarrow>
     's \<times> effect list \<Rightarrow> packet \<Rightarrow> (('s \<times> effect list) \<times> bool) option" where
  "traced cb fx = (\<lambda>(s, tr) x. do { (s', brk) \<leftarrow> cb s x; t \<leftarrow> fx s x; Some ((s', tr @ t), brk) })"

text \<open>A callback that comes without the lock, leaves without it and owns nothing afterwards; it takes the
  lock once for each of the calls it makes, as \<open>calls_of\<close> counts them.\<close>

locale effectful_callback =
  fixes cb :: "'s \<Rightarrow> packet \<Rightarrow> ('s \<times> bool) option"
    and fx :: "'s \<Rightarrow> packet \<Rightarrow> effect list option"
    and calls_of :: "'s \<Rightarrow> nat"
  assumes clean: "cb s x = Some (s', brk) \<Longrightarrow>
      \<exists>t. fx s x = Some t \<and> unlocked t \<and> calls_of s' = calls_of s + crossings t"
begin

lemma deliver_traced:
  assumes "deliver cb s xs = Some (s', brk)"
  shows "\<exists>t. deliver (traced cb fx) (s, tr) xs = Some ((s', tr @ t), brk) \<and> unlocked t \<and>
    calls_of s' = calls_of s + crossings t"
  using assms
proof (induction xs arbitrary: s tr)
  case (Cons x xs)
  obtain s1 b where s1: "cb s x = Some (s1, b)" and rest: "if b then (s', brk) = (s1, True) else deliver cb s1 xs = Some (s', brk)"
    using Cons.prems by (auto split: Option.bind_splits if_splits)
  obtain t1 where t1: "fx s x = Some t1" "unlocked t1" "calls_of s1 = calls_of s + crossings t1"
    using clean [OF s1] by blast
  have step: "traced cb fx (s, tr) x = Some ((s1, tr @ t1), b)" using s1 t1(1) by (simp add: traced_def)
  show ?case
  proof (cases b)
    case True
    then show ?thesis using rest step t1 by auto
  next
    case False
    then obtain t where "deliver (traced cb fx) (s1, tr @ t1) xs = Some ((s', (tr @ t1) @ t), brk)"
        "unlocked t" "calls_of s' = calls_of s1 + crossings t"
      using Cons.IH rest by meson
    then show ?thesis using step False t1 by (intro exI [of _ "t1 @ t"]) (simp add: unlocked_append)
  qed
qed simp

text \<open>A whole call of the library, with the lock released around it.\<close>

lemma loop_traced:
  assumes pl: "loop_contract pl src fin brk" "loop_contract pl' src fin brk"
    and run: "pl n cb s = Some (s', ret)"
  shows "\<exists>t. pl' n (traced cb fx) (s, []) = Some ((s', t), ret) \<and> disciplined (Save # t @ [Restore]) \<and>
    calls_of s' = calls_of s + crossings t"
proof -
  obtain b where d: "deliver cb s (offered n src) = Some (s', b)"
      "ret = (if b then brk else if 0 < n \<and> nat n \<le> length src then 0 else fin)"
    using pl(1) run by (auto simp: loop_contract_def split: Option.bind_splits)
  from deliver_traced [OF d(1), of "[]"] show ?thesis
    using pl(2) d(2) disciplined_released by (fastforce simp: loop_contract_def)
qed

lemma dispatch_traced:
  assumes pd: "dispatch_contract pd src fin brk" "dispatch_contract pd' src fin brk"
    and run: "pd n cb s = Some (s', ret)"
  shows "\<exists>t. pd' n (traced cb fx) (s, []) = Some ((s', t), ret) \<and> disciplined (Save # t @ [Restore]) \<and>
    calls_of s' = calls_of s + crossings t"
proof -
  obtain b where d: "deliver cb s (offered n src) = Some (s', b)"
      "ret = (if b then brk else if fin < 0 \<and> \<not> filled n src then fin else int (length (offered n src)))"
    using pd(1) run by (auto simp: dispatch_contract_def split: Option.bind_splits)
  from deliver_traced [OF d(1), of "[]"] show ?thesis
    using pd(2) d(2) disciplined_released by (fastforce simp: dispatch_contract_def)
qed

end

text \<open>Calling the Python function with a header object and its arguments: the code the two Python
  callbacks share, from \<open>PyEval_RestoreThread\<close> to \<open>PyEval_SaveThread\<close>.\<close>

definition call_fx :: "bool \<Rightarrow> effect list" where
  "call_fx raised =
     [Restore, Acquire (Ref ''hdr''), Acquire (Ref ''arglist''), Api ''PyObject_CallObject''] @
     (if raised then [] else [Acquire (Ref ''result'')]) @
     [Release (Ref ''arglist'')] @
     (if raised then [] else [Release (Ref ''result'')]) @
     [Release (Ref ''hdr'')] @
     (if raised then [Lib ''pcap_breakloop''] else []) @
     [Save]"

lemma call_fx_unlocked [simp]: "unlocked (call_fx raised)" "crossings (call_fx raised) = 1"
  by (simp_all add: call_fx_def unlocked_def)

definition PythonCallBack_fx ::
  "((pkthdr \<times> u8 list) list \<Rightarrow> exn option) \<Rightarrow> pyctx \<Rightarrow> packet \<Rightarrow> effect list option" where
  "PythonCallBack_fx py ctx = (\<lambda>(header, packetdata). do {
     data \<leftarrow> bytes_of packetdata (h_caplen header);
     Some (call_fx (py (calls ctx @ [(new_pcap_pkthdr header, data)]) \<noteq> None)) })"

definition FilteredCallBack_fx ::
  "endian \<Rightarrow> mt_pktinfo \<Rightarrow> ((pkthdr \<times> u8 list \<times> nat) list \<Rightarrow> exn option) \<Rightarrow>
     FilteredContext \<Rightarrow> packet \<Rightarrow> effect list option" where
  "FilteredCallBack_fx e pi0 py c = (\<lambda>(header, packetdata). do {
     (idx, ft) \<leftarrow> classify_dispatch e (f_cfg c) (f_ioc c) (f_flowtab c) (f_flow_cutoff c)
                    packetdata (h_caplen header) pi0;
     if \<not> admits (f_admit_mask c) idx then Some []
     else do {
       data \<leftarrow> bytes_of packetdata (h_caplen header);
       Some (call_fx (py (f_calls c @ [(new_pcap_pkthdr header, data, profile_base (f_cfg c) + idx)]) \<noteq> None)) } })"

text \<open>The two callbacks that run without the lock throughout: \<open>realloc\<close> keeps the block a block.\<close>

definition silent_fx :: "'s \<Rightarrow> packet \<Rightarrow> effect list option" where
  "silent_fx s x = Some []"

interpretation fx_plain: effectful_callback "PythonCallBack py" "PythonCallBack_fx py" "\<lambda>c. length (calls c)"
  by unfold_locales (auto simp: PythonCallBack_def PythonCallBack_fx_def Let_def split: Option.bind_splits)

interpretation fx_filt: effectful_callback "FilteredCallBack e pi0 py" "FilteredCallBack_fx e pi0 py" "\<lambda>c. length (f_calls c)"
  by unfold_locales
    (auto simp: FilteredCallBack_def FilteredCallBack_fx_def Let_def split: Option.bind_splits if_splits)

interpretation fx_ring: effectful_callback "BufferCallBack e pi0" silent_fx "\<lambda>_. 0"
  by unfold_locales (simp add: silent_fx_def)

interpretation fx_batch: effectful_callback "BatchCallBack alloc fill junk" silent_fx "\<lambda>_. 0"
  by unfold_locales (simp add: silent_fx_def)


section \<open>Memory of the classifiers\<close>

text \<open>\<open>seq_to_ports\<close>: the references and the block, which \<open>site\<close> names.\<close>

definition seq_to_ports_fx :: "(nat \<Rightarrow> bool) \<Rightarrow> string \<Rightarrow> seq_arg \<Rightarrow> effect list" where
  "seq_to_ports_fx alloc site sq =
     (case sq of
        Absent \<Rightarrow> []
      | PyNone \<Rightarrow> []
      | NotSequence \<Rightarrow> [Api ''PySequence_Fast'']
      | Items its \<Rightarrow>
          [Api ''PySequence_Fast'', Acquire (Ref ''fast'')] @
          (if its = [] then [Release (Ref ''fast'')]
           else if \<not> alloc (length its * 2) then [Release (Ref ''fast''), Api ''PyErr_NoMemory'']
           else Acquire (Block site) # Api ''PyLong_AsLong'' #
             (case long_items its of
                Inl ex \<Rightarrow> [Release (Block site), Release (Ref ''fast'')]
              | Inr ps \<Rightarrow> [Release (Ref ''fast'')])))"

text \<open>\<open>free\<close> of a pointer that may be NULL.\<close>

definition free_fx :: "string \<Rightarrow> 'a option \<Rightarrow> effect list" where
  "free_fx site p = (case p of None \<Rightarrow> [] | Some _ \<Rightarrow> [Release (Block site)])"

definition ports_of :: "u16 list option \<times> u32 \<times> exn option \<Rightarrow> u16 list option" where
  "ports_of r = fst r"

definition ipset_build_fx :: "(nat \<Rightarrow> bool) \<Rightarrow> u8 list \<Rightarrow> effect list" where
  "ipset_build_fx alloc data = (
     let n = word_of_nat (length data div 4); (cap, bits) = ipset_cap n 16 4 in
     if \<not> alloc 16 then []
     else Acquire (Block ''set'') #
       (if \<not> alloc (unat cap * 4) then [Release (Block ''set'')] else [Acquire (Block ''set->slots'')]))"

definition ipset_free_fx :: "mt_ipset option \<Rightarrow> effect list" where
  "ipset_free_fx s = (case s of None \<Rightarrow> [] | Some _ \<Rightarrow> [Release (Block ''set->slots''), Release (Block ''set'')])"

definition address_set_fx :: "(nat \<Rightarrow> bool) \<Rightarrow> loop_args \<Rightarrow> effect list" where
  "address_set_fx alloc a =
     (case a_addr_set a of None \<Rightarrow> [] | Some d \<Rightarrow> if 4 \<le> length d then ipset_build_fx alloc d else [])"

definition flowtab_build_fx :: "(nat \<Rightarrow> bool) \<Rightarrow> u32 \<Rightarrow> effect list" where
  "flowtab_build_fx alloc bits = (
     let cap = push_bit (unat bits) 1 :: u32; ks = alloc (unat cap * 8); cs = alloc (unat cap * 4) in
     if \<not> alloc 24 then []
     else Acquire (Block ''table'') #
       (if ks then [Acquire (Block ''table->keys'')] else []) @
       (if cs then [Acquire (Block ''table->cnt'')] else []) @
       (if ks \<and> cs then []
        else (if ks then [Release (Block ''table->keys'')] else []) @
          (if cs then [Release (Block ''table->cnt'')] else []) @ [Release (Block ''table'')]))"

definition flowtab_free_fx :: "mt_flowtab option \<Rightarrow> effect list" where
  "flowtab_free_fx f = (case f of None \<Rightarrow> []
     | Some _ \<Rightarrow> [Release (Block ''table->keys''), Release (Block ''table->cnt''), Release (Block ''table'')])"

definition table_fx :: "(nat \<Rightarrow> bool) \<Rightarrow> loop_args \<Rightarrow> effect list" where
  "table_fx alloc a = (if cutoff_of a \<noteq> 0 then flowtab_build_fx alloc 20 else [])"

text \<open>What a sequence of effects does to the resources owned: it turns \<open>A\<close> into \<open>B\<close>, whatever else is
  owned.\<close>

definition moves :: "effect list \<Rightarrow> resource multiset \<Rightarrow> resource multiset \<Rightarrow> bool" where
  "moves tr A B \<longleftrightarrow> (\<forall>own. performs tr (True, own + A) = Some (True, own + B))"

lemma disciplined_moves: "disciplined tr \<longleftrightarrow> moves tr {#} {#}"
  by (simp add: disciplined_def moves_def)

lemma moves_append: "moves xs A B \<Longrightarrow> moves ys B C \<Longrightarrow> moves (xs @ ys) A C"
  by (simp add: moves_def foldM_append)

lemma moves_frame: "moves xs A B \<Longrightarrow> moves xs (F + A) (F + B)"
  unfolding moves_def by (metis add.assoc)

lemma moves_disciplined: "disciplined xs \<Longrightarrow> moves xs A A"
  by (simp add: disciplined_def moves_def)

text \<open>What a builder takes, its destructor gives back, whichever allocations failed.\<close>

definition block_of :: "string \<Rightarrow> 'a option \<Rightarrow> resource multiset" where
  "block_of site p = (case p of None \<Rightarrow> {#} | Some _ \<Rightarrow> {#Block site#})"

definition set_blocks :: "mt_ipset option \<Rightarrow> resource multiset" where
  "set_blocks S = (case S of None \<Rightarrow> {#} | Some _ \<Rightarrow> {#Block ''set'', Block ''set->slots''#})"

definition table_blocks :: "mt_flowtab option \<Rightarrow> resource multiset" where
  "table_blocks f = (case f of None \<Rightarrow> {#}
     | Some _ \<Rightarrow> {#Block ''table'', Block ''table->keys'', Block ''table->cnt''#})"

lemma free_moves: "moves (free_fx site p) (block_of site p) {#}"
  by (cases p) (simp_all add: moves_def free_fx_def block_of_def)

lemma ports_moves:
  "seq_to_ports alloc sq = (p, n, None) \<Longrightarrow> moves (seq_to_ports_fx alloc site sq) {#} (block_of site p)"
  by (auto simp: moves_def block_of_def seq_to_ports_def seq_to_ports_fx_def split: seq_arg.splits if_splits sum.splits)

lemma failed_ports:
  "seq_to_ports alloc sq = (p, n, Some ex) \<Longrightarrow> p = None \<and> disciplined (seq_to_ports_fx alloc site sq)"
  by (auto simp: seq_to_ports_def seq_to_ports_fx_def disciplined_def split: seq_arg.splits if_splits sum.splits)

lemma set_moves:
  "address_set e alloc a = Some S \<Longrightarrow> moves (address_set_fx alloc a) {#} (set_blocks S)"
  "moves (ipset_free_fx S) (set_blocks S) {#}"
proof -
  show "moves (ipset_free_fx S) (set_blocks S) {#}"
    by (cases S) (simp_all add: moves_def ipset_free_fx_def set_blocks_def)
qed (auto simp: moves_def set_blocks_def address_set_def address_set_fx_def ipset_build_def ipset_build_fx_def Let_def
    split: option.splits if_splits prod.splits Option.bind_splits dest!: sym [of "Some _"])

lemma table_moves:
  "moves (table_fx alloc a) {#} (table_blocks (table_of alloc a))"
  "moves (flowtab_free_fx f) (table_blocks f) {#}"
  by (auto simp: moves_def table_blocks_def table_fx_def table_of_def flowtab_build_fx_def flowtab_build_def
      flowtab_free_fx_def Let_def split: option.split)

text \<open>The classifier's memory around a run of the loop.\<close>

lemma classified_run_moves:
  assumes "address_set e alloc a = Some S" and "disciplined run"
  shows "moves (address_set_fx alloc a @ table_fx alloc a @ run @ ipset_free_fx S @ flowtab_free_fx (table_of alloc a) @
      free_fx dsite dpi @ free_fx tsite tls) (block_of dsite dpi + block_of tsite tls) {#}"
    (is "moves _ ?P _")
proof -
  let ?S = "set_blocks S" and ?T = "table_blocks (table_of alloc a)"
  have "moves (address_set_fx alloc a) ?P (?P + ?S)"
    using moves_frame [OF set_moves(1) [OF assms(1)], where F = ?P] by simp
  moreover have "moves (table_fx alloc a) (?P + ?S) (?P + ?S + ?T)"
    using moves_frame [OF table_moves(1), where F = "?P + ?S"] by simp
  moreover have "moves (ipset_free_fx S) (?P + ?S + ?T) (?P + ?T)"
    using moves_frame [OF set_moves(2) [of S], where F = "?P + ?T"] by (simp add: ac_simps)
  moreover have "moves (flowtab_free_fx (table_of alloc a)) (?P + ?T) ?P"
    using moves_frame [OF table_moves(2) [of "table_of alloc a"], where F = ?P] by simp
  moreover have "moves (free_fx dsite dpi) ?P (block_of tsite tls)"
    using moves_frame [OF free_moves [of dsite dpi], where F = "block_of tsite tls"] by (simp add: ac_simps)
  ultimately show ?thesis
    using assms(2) by (blast intro: moves_append moves_disciplined free_moves)
qed

section \<open>The methods\<close>

text \<open>\<open>loop()\<close> and \<open>dispatch()\<close>: the callback context keeps a reference to the function; its destructor
  gives it back on every return. \<open>pl\<close> is the library function at the type of traced contexts.\<close>

definition p_loop_fx ::
  "(pyctx \<times> effect list) pcap_loop \<Rightarrow> ((pkthdr \<times> u8 list) list \<Rightarrow> exn option) \<Rightarrow>
     pcapobject pyobj \<Rightarrow> exn + int \<Rightarrow> effect list option" where
  "p_loop_fx pl py self args =
     check_open self (\<lambda>ex. Some [Api ''PyErr_SetString'']) (\<lambda>pp h.
       case args of Inl ex \<Rightarrow> Some [Api ''PyArg_ParseTuple'']
       | Inr cant \<Rightarrow> do {
           ((ctx, tr), ret) \<leftarrow> pl cant (traced (PythonCallBack py) (PythonCallBack_fx py)) (\<lparr>calls = [], pyerr = None\<rparr>, []);
           Some ([Api ''PyArg_ParseTuple'', Acquire (Ref ''pyfunc'')] @ Save # tr @ [Restore] @
             (if ret < 0 \<and> ret \<noteq> - 2 then [Lib ''pcap_geterr'', Api ''PyErr_SetString''] else []) @
             [Release (Ref ''pyfunc'')]) })"

definition p_dispatch_fx ::
  "(pyctx \<times> effect list) pcap_loop \<Rightarrow> ((pkthdr \<times> u8 list) list \<Rightarrow> exn option) \<Rightarrow>
     pcapobject pyobj \<Rightarrow> exn + int \<Rightarrow> effect list option" where
  "p_dispatch_fx pd py self args =
     check_open self (\<lambda>ex. Some [Api ''PyErr_SetString'']) (\<lambda>pp h.
       case args of Inl ex \<Rightarrow> Some [Api ''PyArg_ParseTuple'']
       | Inr cant \<Rightarrow> do {
           ((ctx, tr), ret) \<leftarrow> pd cant (traced (PythonCallBack py) (PythonCallBack_fx py)) (\<lparr>calls = [], pyerr = None\<rparr>, []);
           Some ([Api ''PyArg_ParseTuple'', Acquire (Ref ''pyfunc'')] @ Save # tr @ [Restore, Api ''PyErr_Occurred''] @
             (if pyerr ctx \<noteq> None then []
              else if ret < 0 then (if ret \<noteq> - 2 then [Lib ''pcap_geterr'', Api ''PyErr_SetString''] else [])
              else [Api ''Py_BuildValue'']) @
             [Release (Ref ''pyfunc'')]) })"

text \<open>\<open>loop_filtered()\<close> up to the point where the ports are parsed, for both methods that classify;
  \<open>body\<close> is the rest, \<open>undo\<close> what the method releases before every return of this part.\<close>

definition with_config_fx ::
  "(nat \<Rightarrow> bool) \<Rightarrow> loop_args \<Rightarrow> effect list \<Rightarrow> (u16 list option \<Rightarrow> u16 list option \<Rightarrow> effect list option) \<Rightarrow> effect list option" where
  "with_config_fx alloc a undo body =
     (if sint (a_l2_offset a) < 0 \<or> 64 < sint (a_l2_offset a) then Some (undo @ [Api ''PyErr_SetString''])
      else if a_profile a \<noteq> 0 \<and> a_profile a \<noteq> 1 then Some (undo @ [Api ''PyErr_SetString''])
      else (case seq_to_ports alloc (a_dpi_ports a) of (dpi, nd, derr) \<Rightarrow>
        (case derr of Some ex \<Rightarrow> Some (seq_to_ports_fx alloc ''dpi_ports'' (a_dpi_ports a) @ undo @ free_fx ''dpi_ports'' dpi)
         | None \<Rightarrow>
        (case seq_to_ports alloc (a_tls_ports a) of (tls, nt, terr) \<Rightarrow>
        (case terr of
           Some ex \<Rightarrow> Some (seq_to_ports_fx alloc ''dpi_ports'' (a_dpi_ports a) @
             seq_to_ports_fx alloc ''tls_ports'' (a_tls_ports a) @ undo @
             free_fx ''dpi_ports'' dpi @ free_fx ''tls_ports'' tls)
         | None \<Rightarrow> do {
             tr \<leftarrow> body dpi tls;
             Some (seq_to_ports_fx alloc ''dpi_ports'' (a_dpi_ports a) @
               seq_to_ports_fx alloc ''tls_ports'' (a_tls_ports a) @ tr) })))))"

definition p_loop_filtered_fx ::
  "endian \<Rightarrow> (nat \<Rightarrow> bool) \<Rightarrow> (FilteredContext \<times> effect list) pcap_loop \<Rightarrow> mt_pktinfo \<Rightarrow>
     ((pkthdr \<times> u8 list \<times> nat) list \<Rightarrow> exn option) \<Rightarrow> pcapobject pyobj \<Rightarrow> exn + loop_args \<Rightarrow> effect list option" where
  "p_loop_filtered_fx e alloc pl pi0 py self args =
     check_open self (\<lambda>ex. Some [Api ''PyErr_SetString'']) (\<lambda>pp h.
       case args of Inl ex \<Rightarrow> Some [Api ''PyArg_ParseTupleAndKeywords'']
       | Inr a \<Rightarrow> map_option ((#) (Api ''PyArg_ParseTupleAndKeywords'')) (with_config_fx alloc a [] (\<lambda>dpi tls.
         (case classcfg_of alloc filtered_msg a of Inl ex \<Rightarrow> None
          | Inr config \<Rightarrow> do {
            S \<leftarrow> address_set e alloc a;
            ((c, tr), ret) \<leftarrow> pl (a_cnt a) (traced (FilteredCallBack e pi0 py) (FilteredCallBack_fx e pi0 py))
              (snd (begin_filtered alloc pp a config S), []);
            Some (address_set_fx alloc a @ table_fx alloc a @ Save # tr @ [Restore] @
              ipset_free_fx S @ flowtab_free_fx (table_of alloc a) @
              free_fx ''dpi_ports'' dpi @ free_fx ''tls_ports'' tls @
              Api ''PyErr_Occurred'' #
              (if f_pyerr c \<noteq> None then []
               else if ret < 0 then (if ret \<noteq> - 2 then [Lib ''pcap_geterr'', Api ''PyErr_SetString''] else [])
               else [Api ''Py_BuildValue''])) }))))"

text \<open>\<open>loop_to_buffer()\<close>: argument parsing acquires the view of the writable buffer.\<close>

definition p_loop_to_buffer_fx ::
  "endian \<Rightarrow> (nat \<Rightarrow> bool) \<Rightarrow> (BufferCtx \<times> effect list) pcap_loop \<Rightarrow> mt_pktinfo \<Rightarrow> pcapobject pyobj \<Rightarrow>
     exn + (u8 list \<times> loop_args) \<Rightarrow> effect list option" where
  "p_loop_to_buffer_fx e alloc pl pi0 self args =
     check_open self (\<lambda>ex. Some [Api ''PyErr_SetString'']) (\<lambda>pp h.
       case args of Inl ex \<Rightarrow> Some [Api ''PyArg_ParseTupleAndKeywords'']
       | Inr (view, a) \<Rightarrow> map_option (\<lambda>tr. Api ''PyArg_ParseTupleAndKeywords'' # Acquire View # tr)
         (with_config_fx alloc a [Release View] (\<lambda>dpi tls.
         (case classcfg_of alloc buffer_msg a of Inl ex \<Rightarrow> None
          | Inr config \<Rightarrow> do {
            S \<leftarrow> address_set e alloc a;
            ((b, tr), ret) \<leftarrow> pl (a_cnt a) (traced (BufferCallBack e pi0) silent_fx)
              (\<lparr>b_buf = view, b_cap = word_of_nat (length view), b_used = 0,
                b_admit_mask = a_admit_mask a, b_ioc = S, b_flowtab = table_of alloc a,
                b_flow_cutoff = cutoff_of a, b_cfg = config, b_written = 0, b_dropped = 0,
                b_overflow = 0, b_cls = replicate 6 0\<rparr>, []);
            Some (address_set_fx alloc a @ table_fx alloc a @ Save # tr @ [Restore] @
              ipset_free_fx S @ flowtab_free_fx (table_of alloc a) @
              free_fx ''dpi_ports'' dpi @ free_fx ''tls_ports'' tls @ [Release View, Api ''Py_BuildValue'']) }))))"


text \<open>\<open>next_batch()\<close>: two blocks, freed on every path; the two bytes objects move into the result.\<close>

definition p_next_batch_fx ::
  "(nat \<Rightarrow> bool) \<Rightarrow> u8 \<Rightarrow> BatchMeta \<Rightarrow> (BatchCtx \<times> effect list) pcap_loop \<Rightarrow>
     pcapobject pyobj \<Rightarrow> exn + cint \<Rightarrow> effect list option" where
  "p_next_batch_fx alloc fill junk pd self args =
     check_open self (\<lambda>ex. Some [Api ''PyErr_SetString'']) (\<lambda>pp h.
       case args of Inl ex \<Rightarrow> Some [Api ''PyArg_ParseTuple'']
       | Inr n \<Rightarrow>
         let max_n = (if sint n \<le> 0 then 256 else n);
             buf = alloc 65536; meta = alloc (unat max_n * 16);
             get = (if buf then [Acquire (Block ''buf'')] else []) @ (if meta then [Acquire (Block ''meta'')] else []) in
         if \<not> buf \<or> \<not> meta
         then Some (Api ''PyArg_ParseTuple'' # get @ (if buf then [Release (Block ''buf'')] else []) @
           (if meta then [Release (Block ''meta'')] else []) @ [Api ''PyErr_NoMemory''])
         else do {
           ((b, tr), ret) \<leftarrow> pd (sint max_n) (traced (BatchCallBack alloc fill junk) silent_fx)
             (\<lparr>t_buf = replicate 65536 fill, t_cap = 65536, t_used = 0,
               t_meta = replicate (unat max_n) junk, t_mcap = max_n, t_n = 0\<rparr>, []);
           let pybuf = alloc (unat (t_used b)); let pymeta = alloc (unat (t_n b) * 16);
           let drop_blocks = [Release (Block ''buf''), Release (Block ''meta'')];
           let drop_refs = (if pybuf then [Release (Ref ''pybuf'')] else []) @ (if pymeta then [Release (Ref ''pymeta'')] else []);
           Some (Api ''PyArg_ParseTuple'' # get @ Save # tr @ [Restore] @
             (if ret < 0 \<and> ret \<noteq> - 2
              then drop_blocks @ [Lib ''pcap_geterr'', Api ''PyErr_SetString'']
              else (if pybuf then [Acquire (Ref ''pybuf'')] else []) @ (if pymeta then [Acquire (Ref ''pymeta'')] else []) @
                drop_blocks @ (if \<not> pybuf \<or> \<not> pymeta then drop_refs @ [Api ''PyErr_NoMemory''] else Api ''Py_BuildValue'' # drop_refs))) })"

section \<open>Every path is disciplined\<close>

lemma with_config_disciplined:
  assumes "with_config_fx alloc a undo body = Some tr" and undo: "moves undo U {#}"
    and body: "\<And>dpi tls t n n'. seq_to_ports alloc (a_dpi_ports a) = (dpi, n, None) \<Longrightarrow>
      seq_to_ports alloc (a_tls_ports a) = (tls, n', None) \<Longrightarrow> body dpi tls = Some t \<Longrightarrow>
      moves t (U + (block_of ''dpi_ports'' dpi + block_of ''tls_ports'' tls)) {#}"
  shows "moves tr U {#}"
proof -
  obtain dpi nd derr where dpi: "seq_to_ports alloc (a_dpi_ports a) = (dpi, nd, derr)" by (metis prod_cases3)
  obtain tls nt terr where tls: "seq_to_ports alloc (a_tls_ports a) = (tls, nt, terr)" by (metis prod_cases3)
  let ?D = "seq_to_ports_fx alloc ''dpi_ports'' (a_dpi_ports a)" and ?T = "seq_to_ports_fx alloc ''tls_ports'' (a_tls_ports a)"
  have err: "moves (undo @ [Api f]) U {#}" for f
    using undo by (rule moves_append) (simp add: moves_def)
  show ?thesis
  proof (cases "sint (a_l2_offset a) < 0 \<or> 64 < sint (a_l2_offset a) \<or> (a_profile a \<noteq> 0 \<and> a_profile a \<noteq> 1)")
    case True
    then show ?thesis using assms(1) err by (auto simp: with_config_fx_def split: if_splits)
  next
    case ok: False
    show ?thesis
    proof (cases derr)
      case (Some ex)
      with ok dpi have "tr = ?D @ undo @ free_fx ''dpi_ports'' dpi" using assms(1) by (auto simp: with_config_fx_def)
      then show ?thesis
        using failed_ports [OF dpi [unfolded Some], of "''dpi_ports''"] undo
        by (auto simp: free_fx_def intro: moves_append moves_disciplined)
    next
      case None
      have D: "moves ?D U (U + block_of ''dpi_ports'' dpi)"
        using moves_frame [OF ports_moves [OF dpi [unfolded None]], where F = U] by simp
      show ?thesis
      proof (cases terr)
        case (Some ex)
        with ok dpi tls None have tr: "tr = ?D @ ?T @ undo @ free_fx ''dpi_ports'' dpi @ free_fx ''tls_ports'' tls"
          using assms(1) by (auto simp: with_config_fx_def)
        have "moves ?T (U + block_of ''dpi_ports'' dpi) (U + block_of ''dpi_ports'' dpi)"
          using failed_ports [OF tls [unfolded Some]] by (blast intro: moves_disciplined)
        moreover have "moves undo (U + block_of ''dpi_ports'' dpi) (block_of ''dpi_ports'' dpi)"
          using moves_frame [OF undo, where F = "block_of ''dpi_ports'' dpi"] by (simp add: ac_simps)
        moreover have "moves (free_fx ''tls_ports'' tls) {#} {#}"
          using failed_ports [OF tls [unfolded Some], of "''tls_ports''"] by (simp add: free_fx_def moves_def)
        ultimately show ?thesis unfolding tr using D free_moves by (blast intro: moves_append)
      next
        case terr: None
        with ok dpi tls None obtain t where t: "body dpi tls = Some t" "tr = ?D @ ?T @ t"
          using assms(1) by (auto simp: with_config_fx_def split: Option.bind_splits)
        have "moves ?T (U + block_of ''dpi_ports'' dpi) (U + (block_of ''dpi_ports'' dpi + block_of ''tls_ports'' tls))"
          using moves_frame [OF ports_moves [OF tls [unfolded terr], of "''tls_ports''"],
              where F = "U + block_of ''dpi_ports'' dpi"]
          by (simp add: ac_simps)
        moreover have "moves t (U + (block_of ''dpi_ports'' dpi + block_of ''tls_ports'' tls)) {#}"
          using body [OF dpi [unfolded None] tls [unfolded terr] t(1)] .
        ultimately show ?thesis unfolding t(2) using D by (blast intro: moves_append)
      qed
    qed
  qed
qed


lemma crossings_free [simp]:
  "crossings (free_fx site p) = 0" "crossings (ipset_free_fx S) = 0" "crossings (flowtab_free_fx f) = 0"
  "crossings (address_set_fx alloc a) = 0" "crossings (table_fx alloc a) = 0" "crossings (seq_to_ports_fx alloc site sq) = 0"
  by (auto simp: free_fx_def ipset_free_fx_def flowtab_free_fx_def address_set_fx_def ipset_build_fx_def table_fx_def
      flowtab_build_fx_def seq_to_ports_fx_def Let_def split: option.split seq_arg.split sum.split prod.split)

text \<open>The two ways through the checks, and the message plays no part.\<close>

lemma with_config_fx_cases:
  obtains (ok) config dpi nd tls nt where "classcfg_of alloc m a = Inr config"
      "seq_to_ports alloc (a_dpi_ports a) = (dpi, nd, None)" "seq_to_ports alloc (a_tls_ports a) = (tls, nt, None)"
      "\<And>undo body. with_config_fx alloc a undo body = map_option (\<lambda>tr. seq_to_ports_fx alloc ''dpi_ports'' (a_dpi_ports a) @
         seq_to_ports_fx alloc ''tls_ports'' (a_tls_ports a) @ tr) (body dpi tls)"
  | (bad) ex where "classcfg_of alloc m a = Inl ex"
      "\<And>undo. \<exists>tr. (\<forall>body. with_config_fx alloc a undo body = Some tr) \<and> (Save \<in> set tr \<longleftrightarrow> Save \<in> set undo) \<and>
         crossings tr = crossings undo"
proof -
  obtain dpi nd derr where dpi: "seq_to_ports alloc (a_dpi_ports a) = (dpi, nd, derr)" by (metis prod_cases3)
  obtain tls nt terr where tls: "seq_to_ports alloc (a_tls_ports a) = (tls, nt, terr)" by (metis prod_cases3)
  let ?off = "sint (a_l2_offset a) < 0 \<or> 64 < sint (a_l2_offset a)"
  let ?prof = "a_profile a \<noteq> 0 \<and> a_profile a \<noteq> 1"
  have nosave: "Save \<notin> set (seq_to_ports_fx alloc site sq)" "Save \<notin> set (free_fx site p)" for site sq and p :: "u16 list option"
    by (auto simp: seq_to_ports_fx_def free_fx_def split: seq_arg.split sum.split option.split)
  consider "?off \<or> ?prof" | ex where "\<not> ?off" "\<not> ?prof" "derr = Some ex" | ex where "\<not> ?off" "\<not> ?prof" "derr = None" "terr = Some ex"
    | "\<not> ?off" "\<not> ?prof" "derr = None" "terr = None" by (cases derr; cases terr) blast+
  then show ?thesis
  proof cases
    case 1
    then show ?thesis using bad by (cases ?off) (simp_all add: classcfg_of_def with_config_fx_def)
  next
    case 2
    show ?thesis by (rule bad [of ex]) (simp_all only: classcfg_of_def with_config_fx_def dpi 2 if_False prod.case option.case,
        simp add: nosave)
  next
    case 3
    show ?thesis by (rule bad [of ex]) (simp_all only: classcfg_of_def with_config_fx_def dpi tls 3 if_False prod.case option.case,
        simp add: nosave)
  next
    case 4
    show ?thesis
      by (rule ok [OF _ dpi [unfolded 4] tls [unfolded 4]])
        (simp_all only: classcfg_of_def with_config_fx_def dpi tls 4 if_False prod.case option.case Let_def map_conv_bind_option, simp_all add: comp_def)
  qed
qed

text \<open>A method that classifies, once its configuration is accepted.\<close>

definition classified_fx ::
  "(nat \<Rightarrow> bool) \<Rightarrow> loop_args \<Rightarrow> mt_ipset option \<Rightarrow> effect list \<Rightarrow> effect list \<Rightarrow>
     u16 list option \<Rightarrow> u16 list option \<Rightarrow> effect list option" where
  "classified_fx alloc a S t ending dpi tls =
     Some (address_set_fx alloc a @ table_fx alloc a @ Save # t @ [Restore] @
       ipset_free_fx S @ flowtab_free_fx (table_of alloc a) @
       free_fx ''dpi_ports'' dpi @ free_fx ''tls_ports'' tls @ ending)"

lemma classified_method:
  assumes "classcfg_of alloc m a = Inr config" and "address_set e alloc a = Some S"
    and "disciplined (Save # t @ [Restore])" and "moves undo U {#}" and "moves ending U {#}" and "crossings ending = 0"
  shows "\<exists>tr. with_config_fx alloc a undo (classified_fx alloc a S t ending) = Some tr \<and> moves tr U {#} \<and>
    Save \<in> set tr \<and> crossings tr = Suc (crossings t)"
proof (cases rule: with_config_fx_cases [where alloc = alloc and a = a and m = m])
  case (ok config dpi nd tls nt)
  have body: "moves t' (U + (block_of ''dpi_ports'' dpi + block_of ''tls_ports'' tls)) {#}"
    if "classified_fx alloc a S t ending dpi tls = Some t'" for dpi tls t'
    using moves_append [OF moves_frame [OF classified_run_moves [OF assms(2,3), of "''dpi_ports''" dpi "''tls_ports''" tls],
        where F = U, unfolded add_0_right] assms(5)] that
    by (simp add: classified_fx_def)
  obtain tr where tr: "with_config_fx alloc a undo (classified_fx alloc a S t ending) = Some tr"
    using ok(4) by (simp add: classified_fx_def)
  have "moves tr U {#}" by (rule with_config_disciplined [OF tr assms(4)]) (rule body)
  moreover have "Save \<in> set tr" "crossings tr = Suc (crossings t)"
    using tr ok(4) assms(6) by (auto simp: classified_fx_def)
  ultimately show ?thesis using tr by blast
qed (use assms(1) in simp)

lemma rejected_method:
  assumes "classcfg_of alloc m a = Inl ex" and "moves undo U {#}" and "Save \<notin> set undo" "crossings undo = 0"
  shows "\<exists>tr. (\<forall>body. with_config_fx alloc a undo body = Some tr) \<and> moves tr U {#} \<and> Save \<notin> set tr \<and> crossings tr = 0"
proof (cases rule: with_config_fx_cases [where alloc = alloc and a = a and m = m])
  case (bad ex)
  from bad(2) [of undo] obtain tr where tr: "\<And>body. with_config_fx alloc a undo body = Some tr" "Save \<notin> set tr" "crossings tr = 0"
    using assms(3,4) by auto
  moreover have "moves tr U {#}"
    by (rule with_config_disciplined [OF tr(1) [of "\<lambda>dpi tls. None"] assms(2)]) simp
  ultimately show ?thesis by blast
qed (use assms(1) in simp)

lemma moves_Api [simp]: "moves (Api f # tr) A B = moves tr A B" and moves_Nil: "moves [] A A"
  by (simp_all add: moves_def)

lemma disciplined_Lib [simp]: "disciplined (Lib f # tr) = disciplined tr"
  by (simp add: disciplined_def)

text \<open>\<open>loop_filtered()\<close> behind its checks: what the library call returned determines the trace.\<close>

lemma filtered_body:
  assumes "loop_contract pl src fin brk" and "loop_contract pl' src fin brk" and "pcap pp = Some h"
    and cfg: "classcfg_of alloc filtered_msg a = Inr config"
    and run: "p_loop_filtered e alloc pl geterr pi0 py (Obj pp) (Inr a) = Some (self', made, r)"
  shows "\<exists>S t ending. address_set e alloc a = Some S \<and> disciplined (Save # t @ [Restore]) \<and> crossings t = length made \<and>
    disciplined ending \<and> crossings ending = 0 \<and>
    p_loop_filtered_fx e alloc pl' pi0 py (Obj pp) (Inr a) =
      map_option ((#) (Api ''PyArg_ParseTupleAndKeywords'')) (with_config_fx alloc a [] (classified_fx alloc a S t ending))"
proof -
  obtain S where S: "address_set e alloc a = Some S"
    using assms by (auto simp: p_loop_filtered_unfold filtered_msg_def split: Option.bind_splits)
  define c0 where "c0 = \<lparr>f_admit_mask = a_admit_mask a, f_ioc = S, f_flowtab = table_of alloc a,
     f_flow_cutoff = cutoff_of a, f_cfg = config, f_live = replicate 8 0, f_calls = [], f_pyerr = None\<rparr>"
  have "\<exists>c ret. pl (a_cnt a) (FilteredCallBack e pi0 py) c0 = Some (c, ret) \<and> made = f_calls c"
    using run assms(3) cfg S
    by (auto simp: p_loop_filtered_unfold filtered_msg_def c0_def Let_def split: Option.bind_splits if_splits)
  then obtain c ret where c: "pl (a_cnt a) (FilteredCallBack e pi0 py) c0 = Some (c, ret)" "made = f_calls c" by blast
  from fx_filt.loop_traced [OF assms(1,2) c(1)] obtain t where
    t: "pl' (a_cnt a) (traced (FilteredCallBack e pi0 py) (FilteredCallBack_fx e pi0 py)) (c0, []) = Some ((c, t), ret)"
      "disciplined (Save # t @ [Restore])" "length (f_calls c) = length (f_calls c0) + crossings t" by blast
  define ending where "ending = Api ''PyErr_Occurred'' # (if f_pyerr c \<noteq> None then []
    else if ret < 0 then (if ret \<noteq> - 2 then [Lib ''pcap_geterr'', Api ''PyErr_SetString''] else [])
    else [Api ''Py_BuildValue''])"
  have "p_loop_filtered_fx e alloc pl' pi0 py (Obj pp) (Inr a) =
      map_option ((#) (Api ''PyArg_ParseTupleAndKeywords'')) (with_config_fx alloc a [] (classified_fx alloc a S t ending))"
    using assms(3) t(1) by (simp add: p_loop_filtered_fx_def cfg S c0_def [symmetric] ending_def classified_fx_def [abs_def])
  moreover have "disciplined ending" "crossings ending = 0" by (simp_all add: ending_def)
  moreover have "crossings t = length made" using t(3) c(2) by (simp add: c0_def)
  ultimately show ?thesis using S t(2) by (intro exI [of _ S] exI [of _ t] exI [of _ ending]) blast
qed

section \<open>Properties\<close>

text \<open>C10: whenever \<open>loop_filtered()\<close> comes back, it has kept the rules of the interpreter on its path: every
  call into Python is made with the lock, the lock is released once and retaken once around the
  capture loop and once for every callback invocation - packets dropped by the mask never touch it -
  and every block, reference and buffer it took is freed exactly once, error paths included.\<close>

theorem loop_filtered_disciplined:
  assumes "loop_contract pl src fin brk" and "loop_contract pl' src fin brk"
    and "p_loop_filtered e alloc pl geterr pi0 py self args = Some (self', made, r)"
  shows "\<exists>tr. p_loop_filtered_fx e alloc pl' pi0 py self args = Some tr \<and> disciplined tr \<and>
    crossings tr = length made + (if Save \<in> set tr then 1 else 0)"
proof (cases "(\<exists>pp. self = Obj pp \<and> pcap pp \<noteq> None) \<and> (\<exists>a. args = Inr a)")
  case False
  then consider "self = OtherType" | pp where "self = Obj pp" "pcap pp = None"
    | pp h ex where "self = Obj pp" "pcap pp = Some h" "args = Inl ex" by (cases self; cases args) auto
  then show ?thesis using assms(3) by cases (auto simp: p_loop_filtered_fx_def p_loop_filtered_unfold)
next
  case True
  then obtain pp h a where self: "self = Obj pp" "pcap pp = Some h" "args = Inr a" by auto
  show ?thesis
  proof (cases rule: with_config_fx_cases [where alloc = alloc and a = a and m = filtered_msg])
    case (bad ex)
    from rejected_method [OF bad(1), of "[]" "{#}"] obtain tr where
      tr: "\<And>body. with_config_fx alloc a [] body = Some tr" "disciplined tr" "Save \<notin> set tr" "crossings tr = 0"
      by (auto simp: moves_Nil disciplined_moves)
    moreover have "made = []" using assms(3) self bad(1) by (simp add: p_loop_filtered_unfold filtered_msg_def)
    ultimately show ?thesis using self by (simp add: p_loop_filtered_fx_def)
  next
    case (ok config dpi nd tls nt)
    from filtered_body [OF assms(1,2) self(2) ok(1) assms(3) [unfolded self]] obtain S t ending where
      S: "address_set e alloc a = Some S" "disciplined (Save # t @ [Restore])" and t: "crossings t = length made" and
      ending: "disciplined ending" "crossings ending = 0" and
      fx: "p_loop_filtered_fx e alloc pl' pi0 py (Obj pp) (Inr a) =
        map_option ((#) (Api ''PyArg_ParseTupleAndKeywords'')) (with_config_fx alloc a [] (classified_fx alloc a S t ending))"
      by blast
    from classified_method [OF ok(1) S, of "[]" "{#}" ending] ending obtain tr where
      "with_config_fx alloc a [] (classified_fx alloc a S t ending) = Some tr" "disciplined tr" "Save \<in> set tr"
      "crossings tr = Suc (crossings t)"
      by (auto simp: moves_Nil disciplined_moves)
    then show ?thesis using self fx t by simp
  qed
qed


theorem loop_filtered_disciplined_witness:
  "\<exists>tr. p_loop_filtered_fx Little (\<lambda>_. True) (reference_loop [sample_packet [0, 0]] 0 (- 2)) no_info (\<lambda>_. None)
      (Obj sample_object) (Inr (default_args (- 1))) = Some tr \<and> disciplined tr"
proof -
  have "p_loop_filtered Little (\<lambda>_. True) (reference_loop [sample_packet [0, 0]] 0 (- 2)) (\<lambda>_. []) no_info
      (\<lambda>_. None) (Obj sample_object) (Inr (default_args (- 1))) \<noteq> None"
    using filtered_run [OF reference_loop_contract _ _ default_args_cfg, of "[sample_packet [0, 0]]" sample_object 1
        "\<lambda>_. True" "- 1" "\<lambda>_. None" Little 0 "- 2" "\<lambda>_. []" no_info] by (auto simp: Let_def)
  then obtain r where "p_loop_filtered Little (\<lambda>_. True) (reference_loop [sample_packet [0, 0]] 0 (- 2)) (\<lambda>_. []) no_info
      (\<lambda>_. None) (Obj sample_object) (Inr (default_args (- 1))) = Some r" by blast
  then show ?thesis
    using loop_filtered_disciplined [OF reference_loop_contract reference_loop_contract] by (metis prod_cases3)
qed

text \<open>\<open>loop_to_buffer()\<close> takes the lock back once, after the loop, however many packets it wrote; it
  releases the view of the caller's buffer exactly once on every path, and frees all its memory.\<close>

theorem loop_to_buffer_disciplined:
  assumes "loop_contract pl src fin brk" and "loop_contract pl' src fin brk"
    and "p_loop_to_buffer e alloc pl pi0 self args = Some res"
  shows "\<exists>tr. p_loop_to_buffer_fx e alloc pl' pi0 self args = Some tr \<and> disciplined tr \<and>
    crossings tr = (if Save \<in> set tr then 1 else 0)"
proof (cases "(\<exists>pp. self = Obj pp \<and> pcap pp \<noteq> None) \<and> (\<exists>x. args = Inr x)")
  case False
  then consider "self = OtherType" | pp where "self = Obj pp" "pcap pp = None"
    | pp h ex where "self = Obj pp" "pcap pp = Some h" "args = Inl ex" by (cases self; cases args) auto
  then show ?thesis by cases (auto simp: p_loop_to_buffer_fx_def)
next
  case True
  then obtain pp h view a where self: "self = Obj pp" "pcap pp = Some h" "args = Inr (view, a)" by auto
  have undo: "moves [Release View] {#View#} {#}" by (simp add: moves_def)
  have view: "disciplined (Api f # Acquire View # tr)" if "moves tr {#View#} {#}" for f tr
    using that by (simp add: disciplined_def moves_def)
  show ?thesis
  proof (cases "classcfg_of alloc buffer_msg a")
    case (Inl ex)
    from rejected_method [OF this undo] obtain tr where
      "\<And>body. with_config_fx alloc a [Release View] body = Some tr" "moves tr {#View#} {#}" "Save \<notin> set tr" "crossings tr = 0"
      by auto
    then show ?thesis using self view by (simp add: p_loop_to_buffer_fx_def)
  next
    case (Inr config)
    obtain S where S: "address_set e alloc a = Some S"
      using assms(3) self Inr by (auto simp: p_loop_to_buffer_def split: Option.bind_splits)
    define b0 where "b0 = \<lparr>b_buf = view, b_cap = word_of_nat (length view), b_used = 0,
      b_admit_mask = a_admit_mask a, b_ioc = S, b_flowtab = table_of alloc a, b_flow_cutoff = cutoff_of a,
      b_cfg = config, b_written = 0, b_dropped = 0, b_overflow = 0, b_cls = replicate 6 0\<rparr>"
    have "\<exists>b ret. pl (a_cnt a) (BufferCallBack e pi0) b0 = Some (b, ret)"
      using assms(3) self Inr S by (auto simp: p_loop_to_buffer_def b0_def Let_def split: Option.bind_splits)
    then obtain b ret where b: "pl (a_cnt a) (BufferCallBack e pi0) b0 = Some (b, ret)" by blast
    from fx_ring.loop_traced [OF assms(1,2) b] obtain t where
      t: "pl' (a_cnt a) (traced (BufferCallBack e pi0) silent_fx) (b0, []) = Some ((b, t), ret)"
        "disciplined (Save # t @ [Restore])" "crossings t = 0" by auto
    have "p_loop_to_buffer_fx e alloc pl' pi0 self args =
        map_option (\<lambda>tr. Api ''PyArg_ParseTupleAndKeywords'' # Acquire View # tr)
          (with_config_fx alloc a [Release View] (classified_fx alloc a S t [Release View, Api ''Py_BuildValue'']))"
      using self t(1) by (simp add: p_loop_to_buffer_fx_def Inr S b0_def [symmetric] classified_fx_def [abs_def])
    moreover have "moves [Release View, Api ''Py_BuildValue''] {#View#} {#}" by (simp add: moves_def)
    ultimately show ?thesis
      using classified_method [OF Inr S t(2) undo, of "[Release View, Api ''Py_BuildValue'']"] view t(3) by fastforce
  qed
qed

theorem loop_to_buffer_disciplined_witness:
  "\<exists>tr. p_loop_to_buffer_fx Little (\<lambda>_. True) (reference_loop [sample_packet [0, 0]] 0 0) no_info
      (Obj sample_object) (Inr (replicate 16 0, default_args 0)) = Some tr \<and> disciplined tr \<and>
    crossings tr = (if Save \<in> set tr then 1 else 0)"
  using buffer_run [OF reference_loop_contract _ _ default_args_cfg, of "[sample_packet [0, 0]]" sample_object 1
      "\<lambda>_. True" 0 "replicate 16 0" Little 0 0 no_info]
  by (intro loop_to_buffer_disciplined [OF reference_loop_contract reference_loop_contract]) (auto simp: Let_def)

text \<open>\<open>next_batch()\<close> likewise runs its dispatch without the lock and frees its buffers exactly once on
  every path, whichever allocation fails.\<close>

theorem next_batch_disciplined:
  assumes "dispatch_contract pd src fin brk" and "dispatch_contract pd' src fin brk"
    and "p_next_batch e alloc fill junk pd geterr self args = Some res"
  shows "\<exists>tr. p_next_batch_fx alloc fill junk pd' self args = Some tr \<and> disciplined tr \<and>
    crossings tr = (if Save \<in> set tr then 1 else 0)"
proof (cases "(\<exists>pp. self = Obj pp \<and> pcap pp \<noteq> None) \<and> (\<exists>x. args = Inr x)")
  case False
  then consider "self = OtherType" | pp where "self = Obj pp" "pcap pp = None"
    | pp h ex where "self = Obj pp" "pcap pp = Some h" "args = Inl ex" by (cases self; cases args) auto
  then show ?thesis by cases (auto simp: p_next_batch_fx_def)
next
  case True
  then obtain pp h n where self: "self = Obj pp" "pcap pp = Some h" "args = Inr n" by auto
  define max_n where "max_n = (if sint n \<le> 0 then 256 else n)"
  show ?thesis
  proof (cases "alloc 65536 \<and> alloc (unat max_n * 16)")
    case False
    then show ?thesis using self
      by (auto simp: p_next_batch_fx_def Let_def max_n_def [symmetric] disciplined_def crossings_def)
  next
    case mem: True
    define b0 where "b0 = \<lparr>t_buf = replicate 65536 fill, t_cap = 65536, t_used = 0,
      t_meta = replicate (unat max_n) junk, t_mcap = max_n, t_n = 0\<rparr>"
    obtain b ret where b: "pd (sint max_n) (BatchCallBack alloc fill junk) b0 = Some (b, ret)"
      using assms(3) self mem
      by (auto simp: p_next_batch_def max_n_def [symmetric] b0_def [symmetric] Let_def split: Option.bind_splits)
    from fx_batch.dispatch_traced [OF assms(1,2) b] obtain t where
      t: "pd' (sint max_n) (traced (BatchCallBack alloc fill junk) silent_fx) (b0, []) = Some ((b, t), ret)"
        "disciplined (Save # t @ [Restore])" "crossings t = 0" by auto
    have loop: "performs (t @ Restore # tr) (False, own) = performs tr (True, own)" for own tr
      using foldM_append [of perform "(True, own)" "Save # t @ [Restore]" tr] t(2) by (simp add: disciplined_def)
    show ?thesis using self mem t(1,3)
      by (simp add: p_next_batch_fx_def Let_def max_n_def [symmetric] b0_def [symmetric])
        (auto simp: disciplined_def loop)
  qed
qed

theorem next_batch_disciplined_witness:
  "\<exists>tr. p_next_batch_fx (\<lambda>n. n < 4) 0 \<lparr>m_sec = 0, m_usec = 0, m_off = 0, m_len = 0\<rparr>
      (reference_dispatch [sample_packet [0, 0]] 0 0) (Obj sample_object) (Inr 1) = Some tr \<and> disciplined tr \<and>
    crossings tr = (if Save \<in> set tr then 1 else 0)"
proof (rule next_batch_disciplined [OF reference_dispatch_contract reference_dispatch_contract])
  show "p_next_batch Little (\<lambda>n. n < 4) 0 \<lparr>m_sec = 0, m_usec = 0, m_off = 0, m_len = 0\<rparr>
      (reference_dispatch [sample_packet [0, 0]] 0 0) (\<lambda>_. []) (Obj sample_object) (Inr 1) = Some (raises NoMemory)"
    by (simp add: p_next_batch_def)
qed

text \<open>A resource is taken once before the first change of the lock and the first call of Python, and given
  back once after the last.\<close>

definition held_throughout :: "resource \<Rightarrow> effect list \<Rightarrow> bool" where
  "held_throughout r tr \<longleftrightarrow> (\<exists>a b c. tr = a @ Acquire r # b @ Release r # c \<and>
     set (a @ b @ c) \<inter> {Acquire r, Release r} = {} \<and>
     set (a @ c) \<inter> {Save, Restore, Api ''PyObject_CallObject''} = {})"

text \<open>The effects of a run are those of its callbacks; the plain callback does not touch the reference to
  its own function.\<close>

lemma deliver_effects:
  assumes "deliver (traced cb fx) (s, tr) xs = Some ((s', t), brk)" and "\<And>s x t. fx s x = Some t \<Longrightarrow> set t \<subseteq> A"
  shows "set t \<subseteq> set tr \<union> A"
  using assms(1)
proof (induction xs arbitrary: s tr)
  case (Cons x xs)
  obtain s1 b t1 where step: "traced cb fx (s, tr) x = Some ((s1, tr @ t1), b)" "fx s x = Some t1"
    using Cons.prems by (auto simp: traced_def split: Option.bind_splits)
  then show ?case using Cons.prems Cons.IH [of s1 "tr @ t1"] assms(2) [OF step(2)]
    by (cases b) auto
qed simp

lemma call_fx_effects: "set (call_fx raised) \<subseteq> - {Acquire (Ref ''pyfunc''), Release (Ref ''pyfunc'')}"
  by (simp add: call_fx_def)

lemma plain_effects:
  assumes "deliver (traced (PythonCallBack py) (PythonCallBack_fx py)) (s, []) xs = Some ((s', t), brk)"
  shows "set t \<inter> {Acquire (Ref ''pyfunc''), Release (Ref ''pyfunc'')} = {}"
proof -
  let ?A = "- {Acquire (Ref ''pyfunc''), Release (Ref ''pyfunc'')}"
  have fx: "set u \<subseteq> ?A" if "PythonCallBack_fx py c x = Some u" for c x u
    using that call_fx_effects by (cases x) (fastforce simp: PythonCallBack_fx_def split: Option.bind_splits)
  have "set t \<subseteq> set [] \<union> ?A" by (rule deliver_effects [OF assms]) (rule fx)
  then show ?thesis by auto
qed

lemma plain_loop_effects:
  assumes "loop_contract pl src fin brk"
    and "pl n (traced (PythonCallBack py) (PythonCallBack_fx py)) (s, []) = Some ((s', t), ret)"
  shows "set t \<inter> {Acquire (Ref ''pyfunc''), Release (Ref ''pyfunc'')} = {}"
proof -
  obtain b where "deliver (traced (PythonCallBack py) (PythonCallBack_fx py)) (s, []) (offered n src) = Some ((s', t), b)"
    using assms by (auto simp: loop_contract_def split: Option.bind_splits)
  then show ?thesis by (rule plain_effects)
qed

lemma plain_dispatch_effects:
  assumes "dispatch_contract pd src fin brk"
    and "pd n (traced (PythonCallBack py) (PythonCallBack_fx py)) (s, []) = Some ((s', t), ret)"
  shows "set t \<inter> {Acquire (Ref ''pyfunc''), Release (Ref ''pyfunc'')} = {}"
proof -
  obtain b where "deliver (traced (PythonCallBack py) (PythonCallBack_fx py)) (s, []) (offered n src) = Some ((s', t), b)"
    using assms by (auto simp: dispatch_contract_def split: Option.bind_splits)
  then show ?thesis by (rule plain_effects)
qed

lemma held_throughoutI:
  assumes "tr = Api ''PyArg_ParseTuple'' # Acquire r # Save # t @ Restore # ending @ [Release r]"
    and "set t \<inter> {Acquire r, Release r} = {}" and "set ending \<inter> {Acquire r, Release r} = {}"
  shows "held_throughout r tr"
  unfolding held_throughout_def assms(1)
  by (intro exI [of _ "[Api ''PyArg_ParseTuple'']"] exI [of _ "Save # t @ Restore # ending"] exI [of _ "[]"])
    (use assms(2,3) in auto)

text \<open>C34: Whenever \<open>loop()\<close> and \<open>dispatch()\<close> come back they have called the function with the lock only,
  retaking it once for every call and once at the end of the run, and have dropped every reference they
  took; once their arguments are accepted they take their own reference to the function before the lock is
  released for the first time and drop it after it was retaken for the last time, so that the function stays
  alive for the whole run, whatever the callbacks do.\<close>

theorem plain_loops_disciplined:
  assumes "loop_contract pl src fin brk" and "loop_contract pl' src fin brk"
    and "dispatch_contract pd src' fin' brk'" and "dispatch_contract pd' src' fin' brk'"
    and "p_loop pl geterr py self args = Some (made, r)"
    and "p_dispatch pd geterr py self args = Some (made', r')"
  shows "\<exists>tr tr'. p_loop_fx pl' py self args = Some tr \<and> disciplined tr \<and>
      crossings tr = length made + (if Save \<in> set tr then 1 else 0) \<and>
      (Save \<in> set tr \<longrightarrow> held_throughout (Ref ''pyfunc'') tr) \<and>
    p_dispatch_fx pd' py self args = Some tr' \<and> disciplined tr' \<and>
      crossings tr' = length made' + (if Save \<in> set tr' then 1 else 0) \<and>
      (Save \<in> set tr' \<longrightarrow> held_throughout (Ref ''pyfunc'') tr') \<and>
    ((\<exists>pp h n. self = Obj pp \<and> pcap pp = Some h \<and> args = Inr n) \<longrightarrow> Save \<in> set tr \<and> Save \<in> set tr')"
proof (cases "(\<exists>pp. self = Obj pp \<and> pcap pp \<noteq> None) \<and> (\<exists>x. args = Inr x)")
  case False
  then consider "self = OtherType" | pp where "self = Obj pp" "pcap pp = None"
    | pp h ex where "self = Obj pp" "pcap pp = Some h" "args = Inl ex" by (cases self; cases args) auto
  then show ?thesis using assms(5,6)
    by cases (auto simp: p_loop_fx_def p_dispatch_fx_def p_loop_def p_dispatch_def)
next
  case True
  then obtain pp h n where self: "self = Obj pp" "pcap pp = Some h" "args = Inr n" by auto
  let ?c0 = "\<lparr>calls = [], pyerr = None\<rparr>" and ?get = "[Api ''PyArg_ParseTuple'', Acquire (Ref ''pyfunc'')]"
  have run: "disciplined (?get @ Save # t @ Restore # ending @ [Release (Ref ''pyfunc'')])"
    if "disciplined (Save # t @ [Restore])" "disciplined ending" for t ending
    using disciplined_owning [OF disciplined_append [OF that], of "Ref ''pyfunc''"] by simp
  obtain c ret where c: "pl n (PythonCallBack py) ?c0 = Some (c, ret)" "made = calls c"
    using assms(5) self by (auto simp: p_loop_def split: Option.bind_splits if_splits)
  obtain c' ret' where c': "pd n (PythonCallBack py) ?c0 = Some (c', ret')" "made' = calls c'"
    using assms(6) self by (auto simp: p_dispatch_def split: Option.bind_splits if_splits)
  from fx_plain.loop_traced [OF assms(1,2) c(1)] obtain t where
    t: "pl' n (traced (PythonCallBack py) (PythonCallBack_fx py)) (?c0, []) = Some ((c, t), ret)"
      "disciplined (Save # t @ [Restore])" "crossings t = length (calls c)" by auto
  from fx_plain.dispatch_traced [OF assms(3,4) c'(1)] obtain t' where
    t': "pd' n (traced (PythonCallBack py) (PythonCallBack_fx py)) (?c0, []) = Some ((c', t'), ret')"
      "disciplined (Save # t' @ [Restore])" "crossings t' = length (calls c')" by auto
  define ending where "ending = (if ret < 0 \<and> ret \<noteq> - 2 then [Lib ''pcap_geterr'', Api ''PyErr_SetString''] else [])"
  define ending' where "ending' = Api ''PyErr_Occurred'' # (if pyerr c' \<noteq> None then []
     else if ret' < 0 then (if ret' \<noteq> - 2 then [Lib ''pcap_geterr'', Api ''PyErr_SetString''] else [])
     else [Api ''Py_BuildValue''])"
  have tr: "p_loop_fx pl' py self args = Some (?get @ Save # t @ Restore # ending @ [Release (Ref ''pyfunc'')])"
    "p_dispatch_fx pd' py self args = Some (?get @ Save # t' @ Restore # ending' @ [Release (Ref ''pyfunc'')])"
    using self t(1) t'(1) by (simp_all add: p_loop_fx_def p_dispatch_fx_def ending_def ending'_def)
  have ends: "disciplined ending" "disciplined ending'" "crossings ending = 0" "crossings ending' = 0"
    "set ending \<inter> {Acquire (Ref ''pyfunc''), Release (Ref ''pyfunc'')} = {}"
    "set ending' \<inter> {Acquire (Ref ''pyfunc''), Release (Ref ''pyfunc'')} = {}"
    by (simp_all add: ending_def ending'_def disciplined_def)
  have "held_throughout (Ref ''pyfunc'') (?get @ Save # t @ Restore # ending @ [Release (Ref ''pyfunc'')])"
    "held_throughout (Ref ''pyfunc'') (?get @ Save # t' @ Restore # ending' @ [Release (Ref ''pyfunc'')])"
    using held_throughoutI [OF _ plain_loop_effects [OF assms(2) t(1)] ends(5)]
      held_throughoutI [OF _ plain_dispatch_effects [OF assms(4) t'(1)] ends(6)] by simp_all
  then show ?thesis
    using tr run [OF t(2) ends(1)] run [OF t'(2) ends(2)] t(3) t'(3) ends(3,4) by (simp add: c(2) c'(2))
qed


theorem plain_loops_disciplined_witness:
  "\<exists>tr tr'. p_loop_fx (reference_loop [sample_packet [0, 0]] 0 (- 2)) raises_second (Obj sample_object) (Inr 1) = Some tr \<and>
      disciplined tr \<and> crossings tr = 2 \<and> held_throughout (Ref ''pyfunc'') tr \<and>
    p_dispatch_fx (reference_dispatch [sample_packet [0, 0]] 0 0) raises_second (Obj sample_object) (Inr 1) = Some tr' \<and>
      disciplined tr' \<and> crossings tr' = 2 \<and> held_throughout (Ref ''pyfunc'') tr'"
proof -
  let ?call = "[(new_pcap_pkthdr (fst (sample_packet [0, 0])), [0, 0 :: u8])]"
  have "p_loop (reference_loop [sample_packet [0, 0]] 0 (- 2)) (\<lambda>_. []) raises_second (Obj sample_object) (Inr 1) =
      Some (?call, returns ())"
    "p_dispatch (reference_dispatch [sample_packet [0, 0]] 0 0) (\<lambda>_. []) raises_second (Obj sample_object) (Inr 1) =
      Some (?call, returns 1)"
    by (simp_all add: p_loop_def p_dispatch_def reference_loop_def reference_dispatch_def offered_def PythonCallBack_def
        bytes_of_def sample_packet_def raises_second_def)
  from plain_loops_disciplined [OF reference_loop_contract reference_loop_contract reference_dispatch_contract
      reference_dispatch_contract this] show ?thesis
    using sample_simps(1) by fastforce
qed

end
