(* ===== verification/Effects_Module.thy ===== *)
theory Effects_Module
  imports Effects Reader Windows_Devices
begin

text \<open>
  Ownership in the functions around one library call: \<open>next\<close> and \<open>setfilter\<close> of \<open>src/pcapobj.cc\<close>,
  compiled filters (\<open>src/bpfobj.cc\<close>) and the device functions of \<open>src/pcapy.cc\<close>, as effect traces.
\<close>

section \<open>next() and setfilter()\<close>

definition p_next_fx :: "(nat \<Rightarrow> int \<times> packet) \<Rightarrow> pcapobject pyobj \<Rightarrow> effect list" where
  "p_next_fx next_ex self =
     check_open self (\<lambda>ex. [Api ''PyErr_SetString'']) (\<lambda>pp h.
       [Save, Lib ''pcap_next_ex'', Restore] @
       (if fst (next_ex h) = - 1 then [Lib ''pcap_geterr'', Api ''PyErr_SetString'']
        else [Acquire (Ref ''pkthdr''), Api ''Py_BuildValue'', Release (Ref ''pkthdr'')]))"

text \<open>\<open>pcap_compile\<close> allocates the instructions of the program it stores when it succeeds;
  \<open>pcap_setfilter\<close> copies them.\<close>

definition p_setfilter_fx ::
  "(nat \<Rightarrow> string \<Rightarrow> int \<Rightarrow> u32 \<Rightarrow> int \<times> 'prog) \<Rightarrow> (nat \<Rightarrow> 'prog \<Rightarrow> int) \<Rightarrow> pcapobject pyobj \<Rightarrow>
     exn + string \<Rightarrow> effect list" where
  "p_setfilter_fx compile install self args =
     check_open self (\<lambda>ex. [Api ''PyErr_SetString'']) (\<lambda>pp h.
       Api ''PyArg_ParseTuple'' #
       (case args of Inl ex \<Rightarrow> []
        | Inr str \<Rightarrow>
          (case compile h str 1 (netmask pp) of (status, bpfprog) \<Rightarrow>
             if status \<noteq> 0 then [Lib ''pcap_compile'', Lib ''pcap_geterr'', Api ''PyErr_SetString'']
             else [Lib ''pcap_compile'', Acquire Program, Lib ''pcap_setfilter''] @
               (if install h bpfprog \<noteq> 0 then [Lib ''pcap_geterr'', Api ''PyErr_SetString''] else []))))"

section \<open>Compiled filters\<close>

text \<open>\<open>compile()\<close>: a throw-away handle, closed before its error text is read.\<close>

definition bpf_compile_fx ::
  "(int \<Rightarrow> int \<Rightarrow> nat option) \<Rightarrow> (nat \<Rightarrow> string \<Rightarrow> int \<Rightarrow> u32 \<Rightarrow> int \<times> bpf_insn list) \<Rightarrow>
     exn + (int \<times> int \<times> string \<times> int \<times> u32) \<Rightarrow> effect list" where
  "bpf_compile_fx open_dead compile args =
     Api ''PyArg_ParseTuple'' #
     (case args of Inl ex \<Rightarrow> []
      | Inr (linktype, snaplen, flt, optimize, mask') \<Rightarrow>
        (case open_dead linktype snaplen of None \<Rightarrow> [Lib ''pcap_open_dead'']
         | Some pp \<Rightarrow>
           (case compile pp flt optimize mask' of (status, bpf) \<Rightarrow>
              [Acquire Handle, Use Handle] @ (if status = 0 then [Acquire Program] else []) @ [Release Handle] @
              (if status \<noteq> 0 then [Use Handle, Api ''PyErr_SetString''] else [Api ''PyObject_New'']))))"

text \<open>The program moves into the object, whose destructor frees it.\<close>

definition bpfprog_dealloc_fx :: "effect list" where
  "bpfprog_dealloc_fx = [Release Program, Api ''PyObject_Del'']"

section \<open>Devices\<close>

definition findalldevs_fx :: "string + string list option \<Rightarrow> effect list" where
  "findalldevs_fx devs = Lib ''pcap_findalldevs'' #
     (case devs of Inl errbuff \<Rightarrow> [Api ''PyErr_SetString'']
      | Inr None \<Rightarrow> [Api ''PyErr_SetString'']
      | Inr (Some names) \<Rightarrow>
          [Acquire (Block ''devs''), Acquire (Ref ''list'')] @
          concat (map (\<lambda>name. [Acquire (Ref ''tmp_name''), Api ''PyList_Append'', Release (Ref ''tmp_name'')]) names) @
          [Release (Block ''devs''), Release (Ref ''list'')])"

text \<open>The search of \<open>luid_to_guid\<close>: a copy of the friendly name per device; a match leaves the loop with
  \<open>goto done\<close>, in front of the \<open>free\<close>.\<close>

fun luid_search_fx :: "(string \<Rightarrow> string option) \<Rightarrow> string \<Rightarrow> string list \<Rightarrow> effect list" where
  "luid_search_fx friendly luid [] = []"
| "luid_search_fx friendly luid (name # rest) =
     (case friendly name of None \<Rightarrow> []
      | Some cursor_luid \<Rightarrow>
          Acquire (Block ''cursor_luid'') #
          (if cursor_luid = luid then [Acquire (Block ''ret_guid'')]
           else Release (Block ''cursor_luid'') # luid_search_fx friendly luid rest))"

definition luid_to_guid_fx ::
  "(string \<Rightarrow> string option) \<Rightarrow> string + string list option \<Rightarrow> string \<Rightarrow> effect list" where
  "luid_to_guid_fx friendly devs luid = Lib ''pcap_findalldevs'' #
     (case devs of Inl errbuff \<Rightarrow> [Api ''PyErr_SetString'']
      | Inr None \<Rightarrow> [Api ''PyErr_SetString'']
      | Inr (Some names) \<Rightarrow>
          Acquire (Block ''devs'') # luid_search_fx friendly luid names @ [Release (Block ''devs'')])"

section \<open>Properties\<close>

lemma luid_search_fx_moves:
  "luid_search friendly luid names = Some r \<Longrightarrow>
     moves (luid_search_fx friendly luid names) {#} (if r = None then {#} else {#Block ''cursor_luid'', Block ''ret_guid''#})"
  by (induction names) (auto simp: moves_def split: option.splits if_splits)

text \<open>\<open>setfilter()\<close> never frees the program it compiles: every call whose filter compiles leaves one
  behind, whether or not the filter could be installed; \<open>next()\<close> leaves nothing.\<close>

theorem setfilter_leaks:
  assumes "pcap pp = Some h" and "compile h str 1 (netmask pp) = (0, prog)"
  shows "performs (concat (replicate k (p_setfilter_fx compile install (Obj pp) (Inr str)))) (True, own) =
      Some (True, own + replicate_mset k Program) \<and>
    disciplined (p_next_fx next_ex self)"
proof -
  have "performs (p_setfilter_fx compile install (Obj pp) (Inr str)) (True, own) = Some (True, add_mset Program own)" for own
    using assms by (simp add: p_setfilter_fx_def)
  then have "performs (concat (replicate k (p_setfilter_fx compile install (Obj pp) (Inr str)))) (True, own) =
      Some (True, own + replicate_mset k Program)"
    by (induction k arbitrary: own) (simp_all add: foldM_append)
  moreover have "disciplined (p_next_fx next_ex self)"
    by (auto simp: p_next_fx_def check_open_def disciplined_def split: pyobj.split option.split)
  ultimately show ?thesis ..
qed

theorem setfilter_leaks_witness:
  "performs (concat (replicate 3 (p_setfilter_fx (\<lambda>_ _ _ _. (0, ())) (\<lambda>_ _. 0) (Obj sample_object) (Inr ''tcp'')))) (True, {#}) =
    Some (True, {#Program, Program, Program#})"
  using setfilter_leaks [of sample_object 1 "\<lambda>_ _ _ _. (0, ())" "''tcp''" "()", where k = 3 and install = "\<lambda>_ _. 0"
      and own = "{#}"]
  by (simp add: numeral_3_eq_3)

text \<open>\<open>compile()\<close> owns nothing but the program of the object it returns, which the destructor frees; on
  a filter that does not compile it uses the handle it has just closed, and when no handle can be opened it
  returns NULL without an exception.\<close>

theorem compile_paths:
  fixes open_dead :: "int \<Rightarrow> int \<Rightarrow> nat option" and link snap :: int
  assumes "compile pp flt opt m = (status, prog)"
  defines "args \<equiv> Inr (link, snap, flt, opt, m)"
  shows "(open_dead link snap = Some pp \<longrightarrow>
      (if status = 0
       then bpf_compile open_dead compile args = Some (returns prog) \<and>
         disciplined (bpf_compile_fx open_dead compile args @ bpfprog_dealloc_fx)
       else bpf_compile open_dead compile args = None \<and>
         (Handle \<notin># own \<longrightarrow> performs (bpf_compile_fx open_dead compile args) (True, own) = None))) \<and>
    (open_dead link snap = None \<longrightarrow> (\<exists>r. bpf_compile open_dead compile args = Some r \<and> \<not> conventional r))"
  using assms(1) by (auto simp: args_def bpf_compile_def bpf_compile_fx_def bpfprog_dealloc_fx_def disciplined_def)

theorem compile_paths_witness:
  "bpf_compile (\<lambda>_ _. Some 1) (\<lambda>_ _ _ _. (- 1, [])) (Inr (1, 100, ''bad filter'', 0, 0)) = None \<and>
    performs (bpf_compile_fx (\<lambda>_ _. Some 1) (\<lambda>_ _ _ _. (- 1, [])) (Inr (1, 100, ''bad filter'', 0, 0))) (True, {#}) = None"
  using compile_paths [of "\<lambda>_ _ _ _. (- 1, [])" 1 "''bad filter''" 0 0 "- 1" "[]" "\<lambda>_ _. Some 1" 1 100 "{#}"] by simp

text \<open>\<open>findalldevs()\<close> frees the device list and keeps no reference to a name; \<open>luid_to_guid\<close> leaks the
  friendly name of the device it finds, whose driver name its caller frees.\<close>

theorem device_search_leaks:
  assumes "luid_to_guid friendly devs luid = Some (guid, err)"
  shows "performs (luid_to_guid_fx friendly devs luid @ free_fx ''ret_guid'' guid) (True, own) =
      Some (True, own + (if guid = None then {#} else {#Block ''cursor_luid''#})) \<and>
    disciplined (findalldevs_fx devs)"
proof -
  have step: "performs (concat (map (\<lambda>name. [Acquire (Ref ''tmp_name''), Api ''PyList_Append'', Release (Ref ''tmp_name'')]) names))
      (True, own) = Some (True, own)" for own and names :: "string list"
    by (induction names) simp_all
  have "disciplined (findalldevs_fx devs)"
    by (auto simp: findalldevs_fx_def disciplined_def foldM_append step split: sum.split option.split)
  moreover have "performs (luid_to_guid_fx friendly devs luid @ free_fx ''ret_guid'' guid) (True, own) =
      Some (True, own + (if guid = None then {#} else {#Block ''cursor_luid''#}))"
  proof (cases "\<exists>names. devs = Inr (Some names)")
    case True
    then obtain names where devs: "devs = Inr (Some names)" by blast
    then have "luid_search friendly luid names = Some guid" using assms by (auto simp: luid_to_guid_def)
    from luid_search_fx_moves [OF this, unfolded moves_def, rule_format, of "add_mset (Block ''devs'') own"] show ?thesis
      by (cases guid) (simp_all add: devs luid_to_guid_fx_def foldM_append free_fx_def)
  next
    case False
    then show ?thesis using assms
      by (auto simp: luid_to_guid_def luid_to_guid_fx_def free_fx_def split: sum.splits option.splits)
  qed
  ultimately show ?thesis by blast
qed


theorem device_search_leaks_witness:
  "performs (luid_to_guid_fx Some (Inr (Some [''a'', ''b''])) ''b'' @ free_fx ''ret_guid'' (Some ''b'')) (True, {#}) =
    Some (True, {#Block ''cursor_luid''#})"
  using device_search_leaks [of Some "Inr (Some [''a'', ''b''])" "''b''" "Some ''b''" None "{#}"]
  by (simp add: luid_to_guid_def)

end
