(* ===== verification/Effects_Handles.thy ===== *)
theory Effects_Handles
  imports Effects_Module
begin

text \<open>
  Who owns a library handle: from the functions that open captures (\<open>src/pcapy.cc\<close>) and dump files
  (\<open>p_dump_open\<close> of \<open>src/pcapobj.cc\<close>) through the constructors of the objects around them
  (\<open>new_pcapobject\<close>, \<open>new_pcapdumper\<close> of \<open>src/pcapdumper.cc\<close>) to \<open>close()\<close> and the destructors, as
  effect traces. Here a constructor can fail: \<open>ready\<close> is the outcome of \<open>PyType_Ready\<close>, \<open>made\<close> that of
  \<open>PyObject_New\<close>.
\<close>

section \<open>Opening\<close>

definition new_object_fx :: "bool \<Rightarrow> bool \<Rightarrow> effect list" where
  "new_object_fx ready made = Api ''PyType_Ready'' # (if ready then [Api ''PyObject_New''] else [])"

text \<open>\<open>open_live\<close> and \<open>create\<close> (on Linux) look up the network first; \<open>opened\<close> is the handle, or the error
  text.\<close>

definition open_capture_fx :: "bool \<Rightarrow> bool \<Rightarrow> effect list \<Rightarrow> string + nat \<Rightarrow> effect list" where
  "open_capture_fx ready made lookup opened = lookup @
     (case opened of Inl errbuff \<Rightarrow> [Api ''PyErr_SetString'']
      | Inr pt \<Rightarrow> Acquire Handle # new_object_fx ready made)"

definition open_live_fx ::
  "bool \<Rightarrow> bool \<Rightarrow> (string \<Rightarrow> int \<Rightarrow> bool \<Rightarrow> int \<Rightarrow> string + nat) \<Rightarrow> exn + (string \<times> int \<times> int \<times> int) \<Rightarrow> effect list" where
  "open_live_fx ready made pcap_open_live args = Api ''PyArg_ParseTuple'' #
     (case args of Inl ex \<Rightarrow> []
      | Inr (device, snaplen, promisc, to_ms) \<Rightarrow>
          open_capture_fx ready made [Lib ''pcap_lookupnet''] (pcap_open_live device snaplen (promisc \<noteq> 0) to_ms))"

definition pcap_create_fx :: "bool \<Rightarrow> bool \<Rightarrow> (string \<Rightarrow> string + nat) \<Rightarrow> exn + string \<Rightarrow> effect list" where
  "pcap_create_fx ready made create args = Api ''PyArg_ParseTuple'' #
     (case args of Inl ex \<Rightarrow> []
      | Inr device \<Rightarrow> open_capture_fx ready made [Lib ''pcap_lookupnet''] (create device))"

definition open_offline_fx :: "bool \<Rightarrow> bool \<Rightarrow> (string \<Rightarrow> string + nat) \<Rightarrow> exn + string \<Rightarrow> effect list" where
  "open_offline_fx ready made pcap_open_offline args = Api ''PyArg_ParseTuple'' #
     (case args of Inl ex \<Rightarrow> [] | Inr filename \<Rightarrow> open_capture_fx ready made [] (pcap_open_offline filename))"

definition p_dump_open_fx ::
  "bool \<Rightarrow> bool \<Rightarrow> (nat \<Rightarrow> string \<Rightarrow> nat option) \<Rightarrow> pcapobject pyobj \<Rightarrow> exn + string \<Rightarrow> effect list" where
  "p_dump_open_fx ready made dump_open self args =
     check_open self (\<lambda>ex. [Api ''PyErr_SetString'']) (\<lambda>pp h. Api ''PyArg_ParseTuple'' #
       (case args of Inl ex \<Rightarrow> []
        | Inr filename \<Rightarrow>
          (case dump_open h filename of None \<Rightarrow> [Lib ''pcap_dump_open'', Lib ''pcap_geterr'', Api ''PyErr_SetString'']
           | Some d \<Rightarrow> Acquire DumpFile # new_object_fx ready made)))"

section \<open>Closing\<close>

definition p_close_fx :: "pcapobject \<Rightarrow> effect list" where
  "p_close_fx pp = (case pcap pp of None \<Rightarrow> [] | Some h \<Rightarrow> [Release Handle])"

definition pcap_dealloc_fx :: "pcapobject \<Rightarrow> effect list" where
  "pcap_dealloc_fx pp = p_close_fx pp @ [Api ''Py_XDECREF'', Api ''PyObject_Del'']"

definition dumper_close_fx :: "pcapdumper pyobj \<Rightarrow> effect list" where
  "dumper_close_fx self =
     (case validate_pcapdumper self of Inl ex \<Rightarrow> [Api ''PyErr_SetString'']
      | Inr pp \<Rightarrow> (case dumper pp of None \<Rightarrow> [] | Some d \<Rightarrow> [Release DumpFile]))"

definition dumper_dealloc_fx :: "pcapdumper \<Rightarrow> effect list" where
  "dumper_dealloc_fx pp = (case dumper pp of None \<Rightarrow> [] | Some d \<Rightarrow> [Release DumpFile]) @ [Api ''PyObject_Del'']"

text \<open>The rest of an object's life: \<open>k\<close> calls of \<open>close()\<close> and the destructor.\<close>

fun reader_life_fx :: "nat \<Rightarrow> pcapobject \<Rightarrow> effect list" where
  "reader_life_fx 0 pp = pcap_dealloc_fx pp"
| "reader_life_fx (Suc k) pp = p_close_fx pp @ reader_life_fx k (fst (p_close pp))"

fun dumper_life_fx :: "nat \<Rightarrow> pcapdumper \<Rightarrow> effect list" where
  "dumper_life_fx 0 pp = dumper_dealloc_fx pp"
| "dumper_life_fx (Suc k) pp = dumper_close_fx (Obj pp) @
     (case fst (dumper_close (Obj pp)) of Obj pp' \<Rightarrow> dumper_life_fx k pp' | OtherType \<Rightarrow> [])"

lemma reader_life: "moves (reader_life_fx k pp) (if pcap pp = None then {#} else {#Handle#}) {#}"
proof (induction k arbitrary: pp)
  case 0
  then show ?case by (cases "pcap pp") (simp_all add: pcap_dealloc_fx_def p_close_fx_def moves_def)
next
  case (Suc k)
  have "moves (p_close_fx pp) (if pcap pp = None then {#} else {#Handle#}) {#}"
    by (cases "pcap pp") (simp_all add: p_close_fx_def moves_def)
  moreover have "moves (reader_life_fx k (fst (p_close pp))) {#} {#}"
    using Suc [of "fst (p_close pp)"] by (simp add: p_close_def)
  ultimately show ?case by (simp add: moves_append)
qed

lemma dumper_life: "moves (dumper_life_fx k pp) (if dumper pp = None then {#} else {#DumpFile#}) {#}"
proof (induction k arbitrary: pp)
  case 0
  then show ?case by (cases "dumper pp") (simp_all add: dumper_dealloc_fx_def moves_def)
next
  case (Suc k)
  have "moves (dumper_close_fx (Obj pp)) (if dumper pp = None then {#} else {#DumpFile#}) {#}"
    by (cases "dumper pp") (simp_all add: dumper_close_fx_def validate_pcapdumper_def moves_def)
  moreover have "moves (dumper_life_fx k (pp\<lparr>dumper := None\<rparr>)) {#} {#}"
    using Suc [of "pp\<lparr>dumper := None\<rparr>"] by simp
  ultimately show ?case by (simp add: dumper_close_def validate_pcapdumper_def moves_append)
qed

lemma open_capture_moves:
  assumes "disciplined lookup"
  shows "moves (open_capture_fx ready made lookup (Inl err)) {#} {#}"
    and "moves (open_capture_fx ready made lookup (Inr pt)) {#} {#Handle#}"
  using assms by (auto simp: open_capture_fx_def new_object_fx_def moves_def disciplined_def foldM_append)

declare moves_Nil [simp]

section \<open>Properties\<close>

text \<open>What a result and the effects that led to it have to do with each other: \<open>fx ready made\<close> are the
  effects when the constructor of the object goes that way.\<close>

definition opens_like :: "pcapobject cret \<Rightarrow> (bool \<Rightarrow> bool \<Rightarrow> effect list) \<Rightarrow> bool" where
  "opens_like res fx \<longleftrightarrow>
     (case fst res of
        None \<Rightarrow> \<forall>ready made. disciplined (fx ready made)
      | Some pp \<Rightarrow> (\<forall>k. disciplined (fx True True @ reader_life_fx k pp)) \<and>
          (\<forall>ready made own. \<not> (ready \<and> made) \<longrightarrow> performs (fx ready made) (True, own) = Some (True, add_mset Handle own)))"

lemma opens_likeI:
  assumes "\<And>ready made. moves (fx ready made) {#} (if fst res = None then {#} else {#Handle#})"
    and "\<And>pp. fst res = Some pp \<Longrightarrow> pcap pp \<noteq> None"
  shows "opens_like res fx"
proof (cases "fst res")
  case None
  then show ?thesis using assms(1) by (simp add: opens_like_def disciplined_moves)
next
  case (Some pp)
  have "moves (fx ready made) {#} {#Handle#}" for ready made using assms(1) Some by simp
  then show ?thesis
    using Some moves_append [OF _ reader_life, of "fx True True" "{#}" pp] assms(2) [OF Some]
    by (simp add: opens_like_def disciplined_moves) (simp add: moves_def)
qed

text \<open>C27: A capture that was opened belongs to the Reader that is returned: however often \<open>close()\<close> is called,
  the destructor leaves nothing behind and nothing is closed twice; a failed opening leaves nothing behind
  either. When the object itself cannot be made, the open capture is lost.\<close>

theorem captures_are_owned:
  "opens_like (open_live lookupnet pcap_open_live fresh largs) (\<lambda>ready made. open_live_fx ready made pcap_open_live largs) \<and>
   opens_like (pcap_create lookupnet create fresh args) (\<lambda>ready made. pcap_create_fx ready made create args) \<and>
   opens_like (open_offline pcap_open_offline fresh args) (\<lambda>ready made. open_offline_fx ready made pcap_open_offline args)"
proof (intro conjI opens_likeI)
  have lib: "disciplined [Lib f]" for f by (simp add: disciplined_def)
  note opens = open_capture_moves [OF lib] open_capture_moves [OF disciplined_Nil]
  show "moves (open_live_fx ready made pcap_open_live largs) {#}
      (if fst (open_live lookupnet pcap_open_live fresh largs) = None then {#} else {#Handle#})" for ready made
    by (auto simp: open_live_fx_def open_live_def opens split: sum.splits prod.splits)
  show "moves (pcap_create_fx ready made create args) {#}
      (if fst (pcap_create lookupnet create fresh args) = None then {#} else {#Handle#})" for ready made
    by (auto simp: pcap_create_fx_def pcap_create_def opens split: sum.splits prod.splits)
  show "moves (open_offline_fx ready made pcap_open_offline args) {#}
      (if fst (open_offline pcap_open_offline fresh args) = None then {#} else {#Handle#})" for ready made
    by (auto simp: open_offline_fx_def open_offline_def opens split: sum.splits)
qed (auto simp: open_live_def pcap_create_def open_offline_def new_pcapobject_def split: sum.splits prod.splits)

text \<open>A dump file that was opened belongs to the Dumper in the same way.\<close>

theorem dump_files_are_owned:
  assumes "pcap pp = Some h" and "dump_open h filename = Some d"
  shows "p_dump_open dump_open geterr (Obj pp) (Inr filename) = returns d \<and>
    disciplined (p_dump_open_fx True True dump_open (Obj pp) (Inr filename) @ dumper_life_fx k (new_pcapdumper d)) \<and>
    (\<not> (ready \<and> made) \<longrightarrow> performs (p_dump_open_fx ready made dump_open (Obj pp) (Inr filename)) (True, own) =
       Some (True, add_mset DumpFile own))"
proof -
  have "moves (p_dump_open_fx ready made dump_open (Obj pp) (Inr filename)) {#} {#DumpFile#}" for ready made
    using assms by (simp add: p_dump_open_fx_def new_object_fx_def moves_def)
  moreover from this have "performs (p_dump_open_fx ready made dump_open (Obj pp) (Inr filename)) (True, own) =
      Some (True, add_mset DumpFile own)" by (simp add: moves_def)
  moreover have "moves (dumper_life_fx k (new_pcapdumper d)) {#DumpFile#} {#}"
    using dumper_life [of k "new_pcapdumper d"] by (simp add: new_pcapdumper_def)
  ultimately show ?thesis using assms by (auto simp: p_dump_open_def disciplined_moves intro: moves_append)
qed

theorem dump_files_are_owned_witness:
  "p_dump_open (\<lambda>_ _. Some 9) (\<lambda>_. []) (Obj sample_object) (Inr ''out.pcap'') = returns (9 :: nat) \<and>
   disciplined (p_dump_open_fx True True (\<lambda>_ _. Some 9) (Obj sample_object) (Inr ''out.pcap'') @
     dumper_life_fx 2 (new_pcapdumper 9)) \<and>
   performs (p_dump_open_fx True False (\<lambda>_ _. Some 9) (Obj sample_object) (Inr ''out.pcap'')) (True, {#}) =
     Some (True, {#DumpFile#})"
  using dump_files_are_owned [of sample_object 1 "\<lambda>_ _. Some 9" "''out.pcap''" 9 "\<lambda>_. []" 2 True False "{#}"] by simp

end
