(* ===== verification/Module_Init.thy ===== *)
theory Module_Init
  imports Prelude
begin

text \<open>
  What the interpreter sees of the extension: the method tables of its types (\<open>src/pcapobj.cc\<close>,
  \<open>src/pcap_pkthdr.cc\<close>, \<open>src/pcapdumper.cc\<close>, \<open>src/bpfobj.cc\<close>), attribute lookup through them, and the
  initialisation of the module (\<open>src/pcapy.cc\<close>), in the branches for both major versions of Python on
  Linux.
\<close>

datatype python = Py2 | Py3

section \<open>Method tables\<close>

text \<open>An entry: the name, the C function behind it, and the calling flags; documentation is left out.\<close>

datatype flags = METH_NOARGS | METH_VARARGS | METH_KEYWORDS_TOO

record PyMethodDef =
  ml_name :: string
  ml_meth :: string
  ml_flags :: flags

abbreviation entry :: "string \<Rightarrow> string \<Rightarrow> flags \<Rightarrow> PyMethodDef" where
  "entry n f k \<equiv> \<lparr>ml_name = n, ml_meth = f, ml_flags = k\<rparr>"

definition reader_methods :: "PyMethodDef list" where
  "reader_methods =
    [entry ''loop'' ''p_loop'' METH_VARARGS,
     entry ''loop_filtered'' ''p_loop_filtered'' METH_KEYWORDS_TOO,
     entry ''filtered_stats'' ''p_filtered_stats'' METH_NOARGS,
     entry ''loop_to_buffer'' ''p_loop_to_buffer'' METH_KEYWORDS_TOO,
     entry ''next_batch'' ''p_next_batch'' METH_VARARGS,
     entry ''dispatch'' ''p_dispatch'' METH_VARARGS,
     entry ''next'' ''p_next'' METH_NOARGS,
     entry ''setfilter'' ''p_setfilter'' METH_VARARGS,
     entry ''getnet'' ''p_getnet'' METH_VARARGS,
     entry ''getmask'' ''p_getmask'' METH_VARARGS,
     entry ''datalink'' ''p_datalink'' METH_VARARGS,
     entry ''getnonblock'' ''p_getnonblock'' METH_VARARGS,
     entry ''setnonblock'' ''p_setnonblock'' METH_VARARGS,
     entry ''setdirection'' ''p_setdirection'' METH_VARARGS,
     entry ''dump_open'' ''p_dump_open'' METH_VARARGS,
     entry ''sendpacket'' ''p_sendpacket'' METH_VARARGS,
     entry ''stats'' ''p_stats'' METH_NOARGS,
     entry ''close'' ''p_close'' METH_NOARGS,
     entry ''set_snaplen'' ''p_set_snaplen'' METH_VARARGS,
     entry ''set_promisc'' ''p_set_promisc'' METH_VARARGS,
     entry ''set_timeout'' ''p_set_timeout'' METH_VARARGS,
     entry ''set_buffer_size'' ''p_set_buffer_size'' METH_VARARGS,
     entry ''activate'' ''p_activate'' METH_NOARGS,
     entry ''__enter__'' ''p__enter__'' METH_NOARGS,
     entry ''__exit__'' ''p_close'' METH_VARARGS,
     entry ''getfd'' ''p_getfd'' METH_VARARGS,
     entry ''set_fanout'' ''p_set_fanout'' METH_KEYWORDS_TOO,
     entry ''set_rfmon'' ''p_set_rfmon'' METH_VARARGS]"

definition pkthdr_methods :: "PyMethodDef list" where
  "pkthdr_methods = [entry ''getts'' ''p_getts'' METH_VARARGS, entry ''getcaplen'' ''p_getcaplen'' METH_VARARGS,
     entry ''getlen'' ''p_getlen'' METH_VARARGS]"

definition dumper_methods :: "PyMethodDef list" where
  "dumper_methods = [entry ''close'' ''p_close'' METH_VARARGS, entry ''dump'' ''p_dump'' METH_VARARGS]"

definition bpf_methods :: "PyMethodDef list" where
  "bpf_methods = [entry ''filter'' ''p_filter'' METH_VARARGS, entry ''get_bpf'' ''p_get_bpf'' METH_NOARGS]"

definition pcap_methods :: "PyMethodDef list" where
  "pcap_methods = [entry ''open_live'' ''open_live'' METH_VARARGS, entry ''open_offline'' ''open_offline'' METH_VARARGS,
     entry ''lookupdev'' ''lookupdev'' METH_VARARGS, entry ''findalldevs'' ''findalldevs'' METH_VARARGS,
     entry ''compile'' ''bpf_compile'' METH_VARARGS, entry ''create'' ''pcap_create'' METH_VARARGS]"

text \<open>Lookup of a name in a method table, as both \<open>PyObject_GenericGetAttr\<close> (in the table of the type) and
  \<open>Py_FindMethod\<close> (in the table it is given) do; \<open>None\<close> is an AttributeError.\<close>

definition getattr :: "PyMethodDef list \<Rightarrow> string \<Rightarrow> PyMethodDef option" where
  "getattr table name = find (\<lambda>m. ml_name m = name) table"

section \<open>Initialisation\<close>

text \<open>A value in the dictionary of the module.\<close>

datatype module_value = Method PyMethodDef | IntConstant int | TypeObject string | Exception string | Text string

record PyModuleDef =
  m_name :: string
  m_doc :: string
  m_size :: int
  m_methods :: "PyMethodDef list"

definition pcap_doc :: "python \<Rightarrow> string" where
  "pcap_doc v =
     (case v of Py3 \<Rightarrow> ''A wrapper for the Packet Capture (PCAP) library''
      | Py2 \<Rightarrow> CHR 0x0A # ''A wrapper for the Packet Capture (PCAP) library'' @ [CHR 0x0A])"

definition pcapy_module :: "python \<Rightarrow> PyModuleDef" where
  "pcapy_module v = \<lparr>m_name = ''pcapy'', m_doc = pcap_doc v, m_size = - 1, m_methods = pcap_methods\<rparr>"

text \<open>\<open>PyModule_Create\<close> and \<open>Py_InitModule3\<close>: the dictionary of a new module.\<close>

definition new_module :: "PyModuleDef \<Rightarrow> (string \<rightharpoonup> module_value)" where
  "new_module def = foldl (\<lambda>d m. d(ml_name m \<mapsto> Method m))
     [''__name__'' \<mapsto> Text (m_name def), ''__doc__'' \<mapsto> Text (m_doc def)] (m_methods def)"

text \<open>The types whose metatype \<open>initpcapy\<close> fills in; their initialisers leave it NULL under Python 2.\<close>

definition metatypes_set :: "python \<Rightarrow> string list" where
  "metatypes_set v = (case v of Py2 \<Rightarrow> [''Pcaptype'', ''Pkthdr_type'', ''Pdumpertype''] | Py3 \<Rightarrow> [])"

text \<open>The constants with their values; the five of \<open>linux/if_packet.h\<close> come as an argument.\<close>

definition DLT_constants :: "(string \<times> int) list" where
  "DLT_constants = [(''DLT_NULL'', 0), (''DLT_EN10MB'', 1), (''DLT_IEEE802'', 6), (''DLT_ARCNET'', 7),
     (''DLT_SLIP'', 8), (''DLT_PPP'', 9), (''DLT_FDDI'', 10), (''DLT_ATM_RFC1483'', 11), (''DLT_RAW'', 12),
     (''DLT_PPP_SERIAL'', 50), (''DLT_PPP_ETHER'', 51), (''DLT_C_HDLC'', 104), (''DLT_IEEE802_11'', 105),
     (''DLT_LOOP'', 108), (''DLT_LINUX_SLL'', 113), (''DLT_LTALK'', 114)]"

definition PCAP_D_constants :: "(string \<times> int) list" where
  "PCAP_D_constants = [(''PCAP_D_INOUT'', 0), (''PCAP_D_IN'', 1), (''PCAP_D_OUT'', 2)]"

definition fanout_names :: "string list" where
  "fanout_names = [''PACKET_FANOUT_HASH'', ''PACKET_FANOUT_LB'', ''PACKET_FANOUT_CPU'', ''PACKET_FANOUT_ROLLOVER'',
     ''PACKET_FANOUT_RND'']"

definition add_constants :: "(string \<rightharpoonup> module_value) \<Rightarrow> (string \<times> int) list \<Rightarrow> (string \<rightharpoonup> module_value)" where
  "add_constants = foldl (\<lambda>d (name, v). d(name \<mapsto> IntConstant v))"

text \<open>\<open>PyInit_pcapy\<close> (\<open>initpcapy\<close> under Python 2, which finds the module by its name afterwards): the
  dictionary of the module; \<open>None\<close> is a failed import. \<open>ready\<close> says whether \<open>PyType_Ready\<close> succeeds for the
  type of BPF programs, \<open>mk name\<close> whether \<open>PyErr_NewException\<close> does; \<open>if_packet\<close> gives the values of the
  header's macros.\<close>

definition PyInit_pcapy ::
  "python \<Rightarrow> bool \<Rightarrow> (string \<Rightarrow> bool) \<Rightarrow> (string \<Rightarrow> int) \<Rightarrow> (string \<rightharpoonup> module_value) option" where
  "PyInit_pcapy v ready mk if_packet = (
     let d = new_module (pcapy_module v) in
     if \<not> ready then None
     else
       let d = d(''BPFProgram'' \<mapsto> TypeObject ''BPFProgram'');
           d = add_constants d DLT_constants;
           d = add_constants d PCAP_D_constants;
           d = add_constants d (map (\<lambda>n. (n, if_packet n)) fanout_names);
           d = (if mk ''pcapy.PcapError'' then d(''PcapError'' \<mapsto> Exception ''pcapy.PcapError'') else d);
           d = (if mk ''pcapy.BPFError'' then d(''BPFError'' \<mapsto> Exception ''pcapy.BPFError'') else d) in
       Some d)"

text \<open>The entry point of the Windows library (\<open>src/win32/dllmain.cc\<close>): it accepts every notification and does
  nothing.\<close>

datatype dll_reason = DLL_PROCESS_ATTACH | DLL_THREAD_ATTACH | DLL_THREAD_DETACH | DLL_PROCESS_DETACH | DLL_OTHER nat

fun DllMain :: "dll_reason \<Rightarrow> bool" where
  "DllMain DLL_PROCESS_ATTACH = True"
| "DllMain DLL_THREAD_ATTACH = True"
| "DllMain DLL_THREAD_DETACH = True"
| "DllMain DLL_PROCESS_DETACH = True"
| "DllMain (DLL_OTHER n) = True"

section \<open>Properties\<close>

lemma getattr_distinct:
  assumes "distinct (map ml_name table)" and "m \<in> set table"
  shows "getattr table (ml_name m) = Some m"
  using assms unfolding getattr_def by (induction table) (auto simp: image_iff)

text \<open>In every method table of the extension the names are distinct, so that attribute lookup reaches
  each entry and only it; every C function is reached under one name, except that \<open>__exit__\<close> is \<open>close\<close>;
  and exactly the functions that parse keyword arguments are called with them.\<close>

theorem method_tables_reach_every_method:
  "(\<forall>table \<in> {reader_methods, pkthdr_methods, dumper_methods, bpf_methods, pcap_methods}.
      (\<forall>m \<in> set table. getattr table (ml_name m) = Some m) \<and>
      (\<forall>m \<in> set table. \<forall>m' \<in> set table. ml_meth m = ml_meth m' \<longrightarrow>
         m = m' \<or> {ml_name m, ml_name m'} = {''close'', ''__exit__''})) \<and>
   map ml_meth (filter (\<lambda>m. ml_flags m = METH_KEYWORDS_TOO) reader_methods) =
     [''p_loop_filtered'', ''p_loop_to_buffer'', ''p_set_fanout''] \<and>
   (\<forall>m \<in> set (pkthdr_methods @ dumper_methods @ bpf_methods @ pcap_methods). ml_flags m \<noteq> METH_KEYWORDS_TOO)"
proof -
  have "distinct (map ml_name table)" if "table \<in> {reader_methods, pkthdr_methods, dumper_methods, bpf_methods, pcap_methods}" for table
    using that by (elim insertE emptyE) (simp_all add: reader_methods_def pkthdr_methods_def dumper_methods_def bpf_methods_def pcap_methods_def)
  then have 1: "\<forall>table \<in> {reader_methods, pkthdr_methods, dumper_methods, bpf_methods, pcap_methods}.
      \<forall>m \<in> set table. getattr table (ml_name m) = Some m"
    using getattr_distinct by blast
  have "list_all (\<lambda>m. list_all (\<lambda>m'. ml_meth m = ml_meth m' \<longrightarrow> m = m' \<or> {ml_name m, ml_name m'} = {''close'', ''__exit__''}) table) table"
    if "table \<in> {reader_methods, pkthdr_methods, dumper_methods, bpf_methods, pcap_methods}" for table
    using that by (elim insertE emptyE) (hypsubst, code_simp)+
  then have 2: "\<forall>table \<in> {reader_methods, pkthdr_methods, dumper_methods, bpf_methods, pcap_methods}.
      (\<forall>m \<in> set table. \<forall>m' \<in> set table. ml_meth m = ml_meth m' \<longrightarrow> m = m' \<or> {ml_name m, ml_name m'} = {''close'', ''__exit__''})"
    unfolding list_all_iff by blast
  have 3: "map ml_meth (filter (\<lambda>m. ml_flags m = METH_KEYWORDS_TOO) reader_methods) =
     [''p_loop_filtered'', ''p_loop_to_buffer'', ''p_set_fanout'']" by code_simp
  have 4: "\<forall>m \<in> set (pkthdr_methods @ dumper_methods @ bpf_methods @ pcap_methods). ml_flags m \<noteq> METH_KEYWORDS_TOO" by code_simp
  show ?thesis using 1 2 3 4 by blast
qed


lemma add_constants_apply:
  "add_constants d cs name = (case map_of (rev cs) name of None \<Rightarrow> d name | Some v \<Rightarrow> Some (IntConstant v))"
  unfolding add_constants_def
  by (induction cs arbitrary: d) (auto simp: map_add_Some_iff split: option.splits)

text \<open>The dictionary as a function of the name looked up.\<close>

lemma PyInit_pcapy_ready:
  "PyInit_pcapy v True mk if_packet = Some (\<lambda>name.
     if name = ''BPFError'' \<and> mk ''pcapy.BPFError'' then Some (Exception ''pcapy.BPFError'')
     else if name = ''PcapError'' \<and> mk ''pcapy.PcapError'' then Some (Exception ''pcapy.PcapError'')
     else case map_of (rev (map (\<lambda>n. (n, if_packet n)) fanout_names)) name of Some c \<Rightarrow> Some (IntConstant c)
     | None \<Rightarrow> (case map_of (rev PCAP_D_constants) name of Some c \<Rightarrow> Some (IntConstant c)
     | None \<Rightarrow> (case map_of (rev DLT_constants) name of Some c \<Rightarrow> Some (IntConstant c)
     | None \<Rightarrow> if name = ''BPFProgram'' then Some (TypeObject ''BPFProgram'') else new_module (pcapy_module v) name)))"
  unfolding PyInit_pcapy_def Let_def by (simp add: add_constants_apply fun_eq_iff split: option.split)

lemma add_methods_apply:
  "foldl (\<lambda>d m. d(ml_name m \<mapsto> Method m)) d ms name =
     (case getattr (rev ms) name of None \<Rightarrow> d name | Some m \<Rightarrow> Some (Method m))"
  by (induction ms rule: rev_induct) (auto simp: getattr_def)

lemma new_module_methods:
  assumes "m \<in> set pcap_methods"
  shows "new_module (pcapy_module v) (ml_name m) = Some (Method m)"
proof -
  have "distinct (map ml_name (rev pcap_methods))" by (simp add: pcap_methods_def)
  then have "getattr (rev pcap_methods) (ml_name m) = Some m" using assms by (intro getattr_distinct) simp_all
  then show ?thesis by (simp add: new_module_def pcapy_module_def add_methods_apply)
qed

lemma new_module_versions:
  "name \<noteq> ''__doc__'' \<Longrightarrow> new_module (pcapy_module v) name = new_module (pcapy_module w) name"
  by (simp add: new_module_def pcapy_module_def add_methods_apply split: option.split)

text \<open>No name of a function is taken by a later entry.\<close>

lemma method_names_free:
  "m \<in> set pcap_methods \<Longrightarrow> ml_name m \<notin> {''BPFError'', ''PcapError'', ''BPFProgram''} \<union>
     fst ` set (DLT_constants @ PCAP_D_constants) \<union> set fanout_names"
  by (auto simp: pcap_methods_def DLT_constants_def PCAP_D_constants_def fanout_names_def)

text \<open>Importing the module either fails, when the BPF type is not ready, or yields a dictionary with every
  module function, the BPF type, each constant under its own name with its own value - no two data-link
  types share a value, so that a number from \<open>datalink()\<close> names one constant - each exception class
  that could be created.\<close>

theorem module_dictionary:
  "PyInit_pcapy v False mk if_packet = None \<and>
   (\<exists>d. PyInit_pcapy v True mk if_packet = Some d \<and>
     (\<forall>m \<in> set pcap_methods. d (ml_name m) = Some (Method m)) \<and>
     d ''BPFProgram'' = Some (TypeObject ''BPFProgram'') \<and>
     (\<forall>(name, v) \<in> set (DLT_constants @ PCAP_D_constants @ map (\<lambda>n. (n, if_packet n)) fanout_names).
        d name = Some (IntConstant v)) \<and>
     d ''PcapError'' = (if mk ''pcapy.PcapError'' then Some (Exception ''pcapy.PcapError'') else None) \<and>
     d ''BPFError'' = (if mk ''pcapy.BPFError'' then Some (Exception ''pcapy.BPFError'') else None)) \<and>
   distinct (map snd DLT_constants)"
proof -
  have distinct: "distinct (map snd DLT_constants)" by (simp add: DLT_constants_def)
  have failed: "PyInit_pcapy v False mk if_packet = None" by (simp add: PyInit_pcapy_def Let_def)
  obtain d where d: "PyInit_pcapy v True mk if_packet = Some d" unfolding PyInit_pcapy_ready by blast
  have "d (ml_name m) = Some (Method m)" if "m \<in> set pcap_methods" for m
    using d [unfolded PyInit_pcapy_ready] method_names_free [OF that] new_module_methods [OF that, of v]
    by (auto simp: fanout_names_def DLT_constants_def PCAP_D_constants_def)
  moreover have "d ''BPFProgram'' = Some (TypeObject ''BPFProgram'')"
    "d ''PcapError'' = (if mk ''pcapy.PcapError'' then Some (Exception ''pcapy.PcapError'') else None)"
    "d ''BPFError'' = (if mk ''pcapy.BPFError'' then Some (Exception ''pcapy.BPFError'') else None)"
    "\<forall>(name, v) \<in> set (DLT_constants @ PCAP_D_constants @ map (\<lambda>n. (n, if_packet n)) fanout_names). d name = Some (IntConstant v)"
    using d [unfolded PyInit_pcapy_ready]
    by (auto simp: fanout_names_def DLT_constants_def PCAP_D_constants_def new_module_def pcapy_module_def pcap_methods_def)
  ultimately show ?thesis using distinct failed d by blast
qed

text \<open>The modules for the two versions of Python differ in the documentation string only.\<close>

theorem versions_differ_in_documentation:
  assumes "PyInit_pcapy v ready mk if_packet = Some d" and "PyInit_pcapy w ready mk if_packet = Some d'"
    and "name \<noteq> ''__doc__''"
  shows "d name = d' name"
proof -
  have ready: "ready = True" using assms(1) by (cases ready) (simp_all add: PyInit_pcapy_def Let_def)
  show ?thesis
    using assms(1,2) unfolding ready PyInit_pcapy_ready option.inject
    by (elim subst) (simp only: new_module_versions [OF assms(3), of v w])
qed

theorem versions_differ_in_documentation_witness:
  "\<exists>d d'. PyInit_pcapy Py2 True (\<lambda>_. True) (\<lambda>_. 0) = Some d \<and> PyInit_pcapy Py3 True (\<lambda>_. True) (\<lambda>_. 0) = Some d' \<and>
    d ''PcapError'' = d' ''PcapError''"
proof -
  obtain d d' where "PyInit_pcapy Py2 True (\<lambda>_. True) (\<lambda>_. 0) = Some d" "PyInit_pcapy Py3 True (\<lambda>_. True) (\<lambda>_. 0) = Some d'"
    unfolding PyInit_pcapy_ready by blast
  moreover from versions_differ_in_documentation [OF this, of "''PcapError''"] have "d ''PcapError'' = d' ''PcapError''" by simp
  ultimately show ?thesis by blast
qed

end
