(* ===== verification/Type_Objects.thy ===== *)
theory Type_Objects
  imports Module_Init Pyobj
begin

text \<open>
  The type objects of the extension (\<open>Pcaptype\<close> in \<open>src/pcapobj.cc\<close>, \<open>Pkthdr_type\<close> in
  \<open>src/pcap_pkthdr.cc\<close>, \<open>Pdumpertype\<close> in \<open>src/pcapdumper.cc\<close>, \<open>BPFProgramType\<close> in \<open>src/bpfobj.cc\<close>), in the
  branches for both major versions of Python, and what follows from them: which attributes an object has,
  which objects a script can make, and what the checks of \<open>Py_TYPE\<close> at the head of every method can meet.
\<close>

section \<open>The tables\<close>

text \<open>The initialisers are positional, so the tables are lists in the order of the source. \<open>Zero\<close> is a 0 or
  NULL; functions and structures are named as in the source (\<open>Newfunc\<close> is a constructor). The tables for Python 3 follow the macro
  \<open>PyVarObject_HEAD_INIT\<close>, which also gives the size field.\<close>

datatype typeflag = TPFLAGS_DEFAULT | TPFLAGS_BASETYPE

datatype newfunc = P_new_bpfobject

datatype slotval = Zero | Str string | Sizeof string | Fn string | Newfunc newfunc | Flags "typeflag list"
  | Methods "PyMethodDef list"

type_synonym type_table = "slotval list"

definition Pcaptype :: type_table where
  "Pcaptype =
    [Str ''Reader'', Sizeof ''pcapobject'', Zero, Fn ''pcap_dealloc'', Zero, Fn ''pcap_getattr'',
     Zero, Zero, Zero, Zero, Zero, Zero, Zero, Zero, Zero, Zero, Zero, Zero,
     Flags [TPFLAGS_DEFAULT], Zero, Zero, Zero, Zero, Zero, Zero, Zero, Methods reader_methods,
     Zero, Zero, Zero, Zero, Zero, Zero, Zero, Zero, Zero, Zero]"

definition Pkthdr_type :: type_table where
  "Pkthdr_type =
    [Str ''Pkthdr'', Sizeof ''pkthdr'', Zero, Fn ''pcap_dealloc'', Zero, Fn ''pcap_getattr'',
     Zero, Zero, Zero, Zero, Zero, Zero, Zero, Zero, Zero, Zero, Zero, Zero,
     Flags [TPFLAGS_DEFAULT], Zero, Zero, Zero, Zero, Zero, Zero, Zero, Methods pkthdr_methods,
     Zero, Zero, Zero, Zero, Zero, Zero, Zero, Zero, Zero, Zero]"

definition Pdumpertype :: type_table where
  "Pdumpertype =
    [Str ''Dumper'', Sizeof ''pcapdumper'', Zero, Fn ''pcap_dealloc'', Zero, Fn ''pcap_getattr'',
     Zero, Zero, Zero, Zero, Zero, Zero, Zero, Zero, Zero, Zero, Zero, Zero,
     Flags [TPFLAGS_DEFAULT], Zero, Zero, Zero, Zero, Zero, Zero, Zero, Methods dumper_methods,
     Zero, Zero, Zero, Zero, Zero, Zero, Zero, Zero, Zero, Zero]"

definition BPFProgramType :: type_table where
  "BPFProgramType =
    [Str ''BPFProgram'', Sizeof ''bpfobject'', Zero, Fn ''bpfprog_dealloc'', Zero, Fn ''bpfprog_getattr'',
     Zero, Zero, Zero, Zero, Zero, Zero, Zero, Zero, Zero, Zero, Zero, Zero,
     Flags [TPFLAGS_DEFAULT], Str ''BPF Program Wrapper'', Zero, Zero, Zero, Zero, Zero, Zero, Methods bpf_methods,
     Zero, Zero, Zero, Zero, Zero, Zero, Zero, Zero, Zero, Newfunc P_new_bpfobject]"

text \<open>The tables for Python 2 follow \<open>PyObject_HEAD_INIT\<close> and begin with the size field. Those of the packet
  headers and the dumpers stop early: C fills the rest with zeros.\<close>

definition Pcaptype_2 :: type_table where
  "Pcaptype_2 =
    [Zero, Str ''Reader'', Sizeof ''pcapobject'', Zero, Fn ''pcap_dealloc'', Zero, Fn ''pcap_getattr'',
     Zero, Zero, Zero, Zero, Zero, Zero, Zero, Zero, Zero, Zero, Zero, Zero,
     Flags [TPFLAGS_DEFAULT], Zero, Zero, Zero, Zero, Zero, Zero, Zero, Methods reader_methods,
     Zero, Zero, Zero, Zero, Zero, Zero, Zero, Zero, Zero, Zero]"

definition Pkthdr_type_2 :: type_table where
  "Pkthdr_type_2 =
    [Zero, Str ''Pkthdr'', Sizeof ''pkthdr'', Zero, Fn ''pcap_dealloc'', Zero, Fn ''pcap_getattr'',
     Zero, Zero, Zero, Zero, Zero, Zero]"

definition Pdumpertype_2 :: type_table where
  "Pdumpertype_2 =
    [Zero, Str ''Dumper'', Sizeof ''pcapdumper'', Zero, Fn ''pcap_dealloc'', Zero, Fn ''pcap_getattr'',
     Zero, Zero, Zero, Zero, Zero, Zero]"

definition BPFProgramType_2 :: type_table where
  "BPFProgramType_2 =
    [Zero, Str ''BPFProgram'', Sizeof ''bpfobject'', Zero, Fn ''bpfprog_dealloc'', Zero, Fn ''bpfprog_getattr'',
     Zero, Zero, Zero, Zero, Zero, Zero, Zero, Zero, Zero, Zero, Zero, Zero,
     Flags [TPFLAGS_DEFAULT, TPFLAGS_BASETYPE], Str ''BPF Program Wrapper'', Zero, Zero, Zero, Zero, Zero, Zero,
     Methods bpf_methods, Zero, Zero, Zero, Zero, Zero, Zero, Zero, Zero, Zero, Newfunc P_new_bpfobject]"

text \<open>The fields of \<open>PyTypeObject\<close> that positional initialisers reach, in their order.\<close>

definition slot_names :: "python \<Rightarrow> string list" where
  "slot_names v =
    (case v of Py2 \<Rightarrow> [''ob_size''] | Py3 \<Rightarrow> []) @
    [''tp_name'', ''tp_basicsize'', ''tp_itemsize'', ''tp_dealloc'', ''tp_print'', ''tp_getattr'', ''tp_setattr'',
     (case v of Py2 \<Rightarrow> ''tp_compare'' | Py3 \<Rightarrow> ''tp_reserved''),
     ''tp_repr'', ''tp_as_number'', ''tp_as_sequence'', ''tp_as_mapping'', ''tp_hash'', ''tp_call'',
     ''tp_str'', ''tp_getattro'', ''tp_setattro'', ''tp_as_buffer'', ''tp_flags'', ''tp_doc'', ''tp_traverse'',
     ''tp_clear'', ''tp_richcompare'', ''tp_weaklistoffset'', ''tp_iter'', ''tp_iternext'', ''tp_methods'',
     ''tp_members'', ''tp_getset'', ''tp_base'', ''tp_dict'', ''tp_descr_get'', ''tp_descr_set'', ''tp_dictoffset'',
     ''tp_init'', ''tp_alloc'', ''tp_new'']"

definition field :: "python \<Rightarrow> type_table \<Rightarrow> string \<Rightarrow> slotval" where
  "field v t n = (case map_of (zip (slot_names v) t) n of None \<Rightarrow> Zero | Some x \<Rightarrow> x)"

datatype exttype = Reader_t | Pkthdr_t | Dumper_t | BPFProgram_t

fun table_of_type :: "python \<Rightarrow> exttype \<Rightarrow> type_table" where
  "table_of_type Py3 Reader_t = Pcaptype"
| "table_of_type Py3 Pkthdr_t = Pkthdr_type"
| "table_of_type Py3 Dumper_t = Pdumpertype"
| "table_of_type Py3 BPFProgram_t = BPFProgramType"
| "table_of_type Py2 Reader_t = Pcaptype_2"
| "table_of_type Py2 Pkthdr_t = Pkthdr_type_2"
| "table_of_type Py2 Dumper_t = Pdumpertype_2"
| "table_of_type Py2 BPFProgram_t = BPFProgramType_2"

definition slot :: "python \<Rightarrow> exttype \<Rightarrow> string \<Rightarrow> slotval" where
  "slot v t n = field v (table_of_type v t) n"

text \<open>Claims over all types are decided by evaluation.\<close>

instantiation exttype :: enum
begin

definition enum_exttype :: "exttype list" where
  "enum_exttype = [Reader_t, Pkthdr_t, Dumper_t, BPFProgram_t]"

definition enum_all_exttype :: "(exttype \<Rightarrow> bool) \<Rightarrow> bool" where
  "enum_all_exttype P \<longleftrightarrow> list_all P [Reader_t, Pkthdr_t, Dumper_t, BPFProgram_t]"

definition enum_ex_exttype :: "(exttype \<Rightarrow> bool) \<Rightarrow> bool" where
  "enum_ex_exttype P \<longleftrightarrow> list_ex P [Reader_t, Pkthdr_t, Dumper_t, BPFProgram_t]"

instance
proof
  show "(UNIV :: exttype set) = set enum_class.enum"
    unfolding enum_exttype_def by (auto intro: exttype.exhaust)
qed (auto simp: enum_exttype_def enum_all_exttype_def enum_ex_exttype_def intro: exttype.exhaust,
     (metis exttype.exhaust)+)

end

section \<open>Attributes\<close>

text \<open>What a lookup gives: a method of the extension, or something that the interpreter itself provides
  (\<open>provided\<close>: what the type inherits from \<open>object\<close>, and the two special names of \<open>Py_FindMethod\<close>).\<close>

type_synonym 'a provider = "python \<Rightarrow> exttype \<Rightarrow> string \<Rightarrow> 'a option"

definition looked_up :: "PyMethodDef option \<Rightarrow> 'a option \<Rightarrow> (PyMethodDef + 'a) option" where
  "looked_up own other = (case own of Some m \<Rightarrow> Some (Inl m) | None \<Rightarrow> map_option Inr other)"

text \<open>The attribute functions: under Python 3 they look the name up in the type and its bases
  (\<open>PyObject_GenericGetAttr\<close>; the dictionary of the type, filled from \<open>tp_methods\<close>, comes first), under
  Python 2 in the method table itself (\<open>Py_FindMethod\<close>).\<close>

definition type_getattr :: "'a provider \<Rightarrow> python \<Rightarrow> exttype \<Rightarrow> string \<Rightarrow> (PyMethodDef + 'a) option" where
  "type_getattr provided v t name =
     looked_up (case slot v t ''tp_methods'' of Methods ms \<Rightarrow> getattr ms name | _ \<Rightarrow> None) (provided v t name)"

definition reader_getattr :: "'a provider \<Rightarrow> python \<Rightarrow> string \<Rightarrow> (PyMethodDef + 'a) option" where
  "reader_getattr provided v name =
     (case v of Py3 \<Rightarrow> type_getattr provided Py3 Reader_t name
      | Py2 \<Rightarrow> looked_up (getattr reader_methods name) (provided Py2 Reader_t name))"

definition pkthdr_getattr :: "'a provider \<Rightarrow> python \<Rightarrow> string \<Rightarrow> (PyMethodDef + 'a) option" where
  "pkthdr_getattr provided v name =
     (case v of Py3 \<Rightarrow> type_getattr provided Py3 Pkthdr_t name
      | Py2 \<Rightarrow> looked_up (getattr pkthdr_methods name) (provided Py2 Pkthdr_t name))"

definition dumper_getattr :: "'a provider \<Rightarrow> python \<Rightarrow> string \<Rightarrow> (PyMethodDef + 'a) option" where
  "dumper_getattr provided v name =
     (case v of Py3 \<Rightarrow> type_getattr provided Py3 Dumper_t name
      | Py2 \<Rightarrow> looked_up (getattr dumper_methods name) (provided Py2 Dumper_t name))"

definition bpfprog_getattr :: "'a provider \<Rightarrow> python \<Rightarrow> string \<Rightarrow> (PyMethodDef + 'a) option" where
  "bpfprog_getattr provided v name =
     (case v of Py3 \<Rightarrow> type_getattr provided Py3 BPFProgram_t name
      | Py2 \<Rightarrow> looked_up (getattr bpf_methods name) (provided Py2 BPFProgram_t name))"

text \<open>The attribute of an object: the interpreter calls the function in the slot \<open>tp_getattr\<close> of its type.\<close>

definition object_getattr :: "'a provider \<Rightarrow> python \<Rightarrow> exttype \<Rightarrow> string \<Rightarrow> (PyMethodDef + 'a) option" where
  "object_getattr provided v t name =
     (case slot v t ''tp_getattr'' of
        Fn f \<Rightarrow>
          (if f = ''bpfprog_getattr'' then bpfprog_getattr provided v name
           else if f = ''pcap_getattr'' then
             (case t of Reader_t \<Rightarrow> reader_getattr provided v name | Pkthdr_t \<Rightarrow> pkthdr_getattr provided v name
              | Dumper_t \<Rightarrow> dumper_getattr provided v name | BPFProgram_t \<Rightarrow> None)
           else None)
      | _ \<Rightarrow> None)"

section \<open>Classes and objects\<close>

text \<open>A class as a script sees it: one of the four types, a class derived from another one, or a class
  that has none of them among its bases.\<close>

datatype pyclass = Static exttype | Derived string pyclass | Foreign string

fun base_type :: "pyclass \<Rightarrow> exttype option" where
  "base_type (Static t) = Some t"
| "base_type (Derived n c) = base_type c"
| "base_type (Foreign n) = None"

text \<open>A \<open>class\<close> statement accepts a base if the flags of its type allow that; a class defined in Python
  always does.\<close>

fun acceptable_base :: "python \<Rightarrow> pyclass \<Rightarrow> bool" where
  "acceptable_base v (Static t) =
     (case slot v t ''tp_flags'' of Flags fs \<Rightarrow> TPFLAGS_BASETYPE \<in> set fs | _ \<Rightarrow> False)"
| "acceptable_base v (Derived n c) = True"
| "acceptable_base v (Foreign n) = True"

inductive definable :: "python \<Rightarrow> pyclass \<Rightarrow> bool" for v where
  static: "definable v (Static t)"
| foreign: "definable v (Foreign n)"
| derived: "definable v c \<Longrightarrow> acceptable_base v c \<Longrightarrow> definable v (Derived n c)"

inductive_simps definable_Derived: "definable v (Derived n c)"

text \<open>The class of the object that \<open>p_new_bpfobject\<close> makes when it is called for the class \<open>type\<close>: it
  hands the program to \<open>new_bpfobject\<close>, which allocates a \<open>BPFProgramType\<close>.\<close>

definition p_new_bpfobject_class :: "pyclass \<Rightarrow> pyclass" where
  "p_new_bpfobject_class type = Static BPFProgram_t"

fun call_newfunc :: "newfunc \<Rightarrow> pyclass \<Rightarrow> pyclass" where
  "call_newfunc P_new_bpfobject type = p_new_bpfobject_class type"

text \<open>Calling a class: the constructor in the slot \<open>tp_new\<close> of its type makes the object. A static type does
  not inherit \<open>tp_new\<close> from \<open>object\<close>, and the interpreter refuses to call a type without one. \<open>None\<close> would be
  a slot that holds something else.\<close>

definition type_call :: "python \<Rightarrow> pyclass \<Rightarrow> (exn + pyclass) option" where
  "type_call v c =
     (case base_type c of None \<Rightarrow> Some (Inr c)
      | Some t \<Rightarrow>
        (case (slot v t ''tp_new'', slot v t ''tp_name'') of
           (Newfunc f, _) \<Rightarrow> Some (Inr (call_newfunc f c))
         | (Zero, Str n) \<Rightarrow> Some (Inl (TypeError (''cannot create '' @ [CHR 0x27] @ n @ [CHR 0x27] @ '' instances'')))
         | _ \<Rightarrow> None))"

text \<open>The classes that an object can have: those of the four constructors of the extension
  (\<open>PyObject_New(pcapobject, &Pcaptype)\<close> and its siblings), and what calling a class makes.\<close>

inductive arises :: "python \<Rightarrow> pyclass \<Rightarrow> bool" for v where
  new_pcapobject: "arises v (Static Reader_t)"
| new_pcap_pkthdr: "arises v (Static Pkthdr_t)"
| new_pcapdumper: "arises v (Static Dumper_t)"
| new_bpfobject: "arises v (Static BPFProgram_t)"
| called: "definable v c \<Longrightarrow> type_call v c = Some (Inr c') \<Longrightarrow> arises v c'"

text \<open>Getting at a method. On an object, its attribute function finds it; taken from a class, a method checks
  that it is called on an instance of that class or a derived one. Both give the C function an object \<open>self\<close>
  of a class \<open>c\<close> with this base.\<close>

definition method_reaches :: "'a provider \<Rightarrow> python \<Rightarrow> exttype \<Rightarrow> string \<Rightarrow> pyclass \<Rightarrow> bool" where
  "method_reaches provided v t name c \<longleftrightarrow> base_type c = Some t \<and>
     (\<exists>m. object_getattr provided v t name = Some (Inl m) \<or> type_getattr provided v t name = Some (Inl m))"

text \<open>What the C function makes of \<open>self\<close>: it compares \<open>Py_TYPE(self)\<close> with the address of the type.\<close>

definition received :: "exttype \<Rightarrow> pyclass \<Rightarrow> 'o \<Rightarrow> 'o pyobj" where
  "received t c x = (if c = Static t then Obj x else OtherType)"

section \<open>Properties\<close>

lemmas type_tables = Pcaptype_def Pkthdr_type_def Pdumpertype_def BPFProgramType_def
  Pcaptype_2_def Pkthdr_type_2_def Pdumpertype_2_def BPFProgramType_2_def

lemma flags_of_types [simp]:
  "slot v t ''tp_flags'' = (case v of Py3 \<Rightarrow> Flags [TPFLAGS_DEFAULT]
     | Py2 \<Rightarrow> if t = Reader_t then Flags [TPFLAGS_DEFAULT]
        else if t = BPFProgram_t then Flags [TPFLAGS_DEFAULT, TPFLAGS_BASETYPE] else Zero)"
  by (cases v; cases t; simp add: type_tables slot_names_def slot_def field_def)

lemma news_of_types [simp]:
  "slot v t ''tp_new'' = (if t = BPFProgram_t then Newfunc P_new_bpfobject else Zero)"
  by (cases v; cases t; simp add: type_tables slot_names_def slot_def field_def)

definition name_of_type :: "exttype \<Rightarrow> string" where
  "name_of_type t = (case t of Reader_t \<Rightarrow> ''Reader'' | Pkthdr_t \<Rightarrow> ''Pkthdr'' | Dumper_t \<Rightarrow> ''Dumper''
     | BPFProgram_t \<Rightarrow> ''BPFProgram'')"

lemma names_of_types [simp]: "slot v t ''tp_name'' = Str (name_of_type t)"
  by (cases v; cases t; simp add: type_tables slot_names_def slot_def field_def name_of_type_def)

definition methods_of_type :: "exttype \<Rightarrow> PyMethodDef list" where
  "methods_of_type t = (case t of Reader_t \<Rightarrow> reader_methods | Pkthdr_t \<Rightarrow> pkthdr_methods
     | Dumper_t \<Rightarrow> dumper_methods | BPFProgram_t \<Rightarrow> bpf_methods)"

lemma methods_of_types [simp]:
  "slot v t ''tp_methods'' = (if v = Py2 \<and> (t = Pkthdr_t \<or> t = Dumper_t) then Zero else Methods (methods_of_type t))"
  by (cases v; cases t; simp add: type_tables slot_names_def slot_def field_def methods_of_type_def)

lemma getattrs_of_types [simp]:
  "slot v t ''tp_getattr'' = Fn (case t of BPFProgram_t \<Rightarrow> ''bpfprog_getattr'' | _ \<Rightarrow> ''pcap_getattr'')"
  by (cases v; cases t; simp add: type_tables slot_names_def slot_def field_def)

lemma slots_from_table:
  assumes "slot v t n \<noteq> Zero" and "list_all (\<lambda>(m, x). x = Zero \<or> m \<in> S) (zip (slot_names v) (table_of_type v t))"
  shows "n \<in> S"
  using assms by (auto simp: slot_def field_def list_all_iff dest!: map_of_SomeD split: option.splits)

text \<open>The positional initialisers of all four types land in the slots they are meant for, under both versions
  of Python: no type has more than the structure has fields, each has its own destructor and attribute
  function, a constructor only for BPF programs, and every other slot is zero.\<close>

theorem type_tables_line_up:
  "length (table_of_type v t) \<le> length (slot_names v) \<and> distinct (slot_names v) \<and>
   (slot v t ''tp_methods'' = Methods (methods_of_type t) \<or> slot v t ''tp_methods'' = Zero \<and> v = Py2) \<and>
   slot v t ''tp_dealloc'' = Fn (case t of BPFProgram_t \<Rightarrow> ''bpfprog_dealloc'' | _ \<Rightarrow> ''pcap_dealloc'') \<and>
   slot v t ''tp_getattr'' = Fn (case t of BPFProgram_t \<Rightarrow> ''bpfprog_getattr'' | _ \<Rightarrow> ''pcap_getattr'') \<and>
   (\<forall>n. slot v t n \<noteq> Zero \<longrightarrow> n \<in> {''tp_name'', ''tp_basicsize'', ''tp_dealloc'', ''tp_getattr'',
     ''tp_flags'', ''tp_doc'', ''tp_methods'', ''tp_new''})"
proof (intro conjI)
  show "length (table_of_type v t) \<le> length (slot_names v)" "distinct (slot_names v)"
    by (cases v; cases t; simp add: type_tables slot_names_def)+
  show "slot v t ''tp_dealloc'' = Fn (case t of BPFProgram_t \<Rightarrow> ''bpfprog_dealloc'' | _ \<Rightarrow> ''pcap_dealloc'')"
    by (cases v; cases t; simp add: type_tables slot_names_def slot_def field_def)
  show "\<forall>n. slot v t n \<noteq> Zero \<longrightarrow> n \<in> {''tp_name'', ''tp_basicsize'', ''tp_dealloc'', ''tp_getattr'',
     ''tp_flags'', ''tp_doc'', ''tp_methods'', ''tp_new''}"
  proof (intro allI impI, erule slots_from_table)
    show "list_all (\<lambda>(m, x). x = Zero \<or> m \<in> {''tp_name'', ''tp_basicsize'', ''tp_dealloc'', ''tp_getattr'',
        ''tp_flags'', ''tp_doc'', ''tp_methods'', ''tp_new''}) (zip (slot_names v) (table_of_type v t))"
      by (cases v; cases t; simp add: type_tables slot_names_def)
  qed
qed simp_all

text \<open>The methods of the extension that an object has are exactly those of its table, under both versions of
  Python, although the Python 2 types of packet headers and dumpers do not mention theirs; any other
  attribute is one that the interpreter provides.\<close>

theorem objects_have_their_methods:
  "object_getattr provided v t name = looked_up (getattr (methods_of_type t) name) (provided v t name)"
  by (cases v; cases t; simp add: object_getattr_def reader_getattr_def pkthdr_getattr_def dumper_getattr_def
      bpfprog_getattr_def type_getattr_def methods_of_type_def)

lemma type_call_static:
  "type_call v (Static t) =
     Some (if t = BPFProgram_t then Inr (Static BPFProgram_t)
           else Inl (TypeError (''cannot create '' @ [CHR 0x27] @ name_of_type t @ [CHR 0x27] @ '' instances'')))"
  by (simp add: type_call_def p_new_bpfobject_class_def)

lemma type_call_classes: "type_call v c = Some (Inr c') \<Longrightarrow> base_type c = None \<and> c' = c \<or> c' = Static BPFProgram_t"
  by (auto simp: type_call_def p_new_bpfobject_class_def split: option.splits if_splits)

text \<open>C23: No script can make a Reader, a packet header or a dumper by calling a class: that is a \<open>TypeError\<close>.
  Calling \<open>BPFProgram\<close> or a class derived from it makes exactly a \<open>BPFProgram\<close>. Classes can be derived from
  none of the types, save from \<open>BPFProgram\<close> under Python 2. So every object whose class has one of the types
  among its bases has that very type, and the type check at the head of every method passes whenever the
  interpreter calls the method: \<open>self\<close> is an object of the type. The methods of the extension that it has
  are exactly those of its table; its other attributes are those that the interpreter provides.\<close>

theorem type_checks_always_pass:
  assumes "arises v c" and "method_reaches provided v t name c"
  shows "c = Static t \<and> received t c x = Obj x \<and>
    (\<forall>u n. object_getattr provided v u n =
       (case getattr (methods_of_type u) n of Some m \<Rightarrow> Some (Inl m) | None \<Rightarrow> map_option Inr (provided v u n))) \<and>
    (\<forall>u n. definable v (Derived n (Static u)) \<longleftrightarrow> v = Py2 \<and> u = BPFProgram_t) \<and>
    (\<forall>u. type_call v (Static u) =
       Some (if u = BPFProgram_t then Inr (Static BPFProgram_t)
             else Inl (TypeError (''cannot create '' @ [CHR 0x27] @ name_of_type u @ [CHR 0x27] @ '' instances'')))) \<and>
    (\<forall>d. base_type d = Some BPFProgram_t \<longrightarrow> type_call v d = Some (Inr (Static BPFProgram_t)))"
proof -
  have "c = Static t"
    using assms(1,2)
  proof cases
    case (called d)
    then show ?thesis using assms(2) type_call_classes [of v d c] by (auto simp: method_reaches_def)
  qed (auto simp: method_reaches_def)
  moreover have "definable v (Derived n (Static u)) \<longleftrightarrow> v = Py2 \<and> u = BPFProgram_t" for u n
    by (cases v) (auto simp: definable_Derived intro: definable.static)
  moreover have "type_call v d = Some (Inr (Static BPFProgram_t))" if "base_type d = Some BPFProgram_t" for d
    using that by (simp add: type_call_def p_new_bpfobject_class_def)
  ultimately show ?thesis
    using type_call_static by (simp add: received_def objects_have_their_methods looked_up_def)
qed

theorem type_checks_always_pass_witness:
  "arises Py2 (Static Dumper_t) \<and> method_reaches (\<lambda>_ _ _. None :: unit option) Py2 Dumper_t ''dump'' (Static Dumper_t) \<and>
   received Dumper_t (Static Dumper_t) (5 :: nat) = Obj 5 \<and>
   type_call Py2 (Static Reader_t) = Some (Inl (TypeError (''cannot create '' @ [CHR 0x27] @ ''Reader'' @ [CHR 0x27] @ '' instances''))) \<and>
   type_call Py2 (Derived ''Mine'' (Static BPFProgram_t)) = Some (Inr (Static BPFProgram_t))"
proof -
  have "method_reaches (\<lambda>_ _ _. None :: unit option) Py2 Dumper_t ''dump'' (Static Dumper_t)"
    by (auto simp: method_reaches_def object_getattr_def dumper_getattr_def looked_up_def getattr_def dumper_methods_def)
  note pass = this type_checks_always_pass [OF arises.new_pcapdumper this, of "5 :: nat"]
  have "type_call Py2 (Static Reader_t) = Some (Inl (TypeError (''cannot create '' @ [CHR 0x27] @ ''Reader'' @ [CHR 0x27] @ '' instances'')))"
    using pass(2) by (simp add: name_of_type_def)
  then show ?thesis using pass arises.new_pcapdumper by simp
qed

end
