(* ===== verification/Callback_Memory.thy ===== *)
theory Callback_Memory
  imports Effects_Module
begin

text \<open>
  The callbacks of \<open>src/pcapobj.cc\<close> when the interpreter runs out of memory: the header object
  (\<open>new_pcap_pkthdr\<close>) or the argument tuple (\<open>Py_BuildValue\<close>) of a call cannot be made. \<open>next()\<close> checks
  for both; \<open>PythonCallBack\<close> and \<open>FilteredCallBack\<close> check for neither. They then call the function without
  any arguments (a NULL tuple) while the exception is set, and without a header they decrement the
  reference count behind a NULL pointer, which is a fault (\<open>None\<close>). \<open>mem n\<close> says for the call number
  \<open>n\<close> whether the header and whether the arguments can be made.
\<close>

type_synonym memory = "nat \<Rightarrow> bool \<times> bool"

section \<open>The callbacks\<close>

text \<open>A call without arguments is \<open>None\<close> in the list of calls.\<close>

record memctx =
  m_calls :: "(pkthdr \<times> u8 list) option list"
  m_pyerr :: "exn option"

text \<open>\<open>Py_BuildValue\<close> does not look at the packet once the header is NULL, and returns NULL itself.\<close>

definition build_args :: "bool \<times> bool \<Rightarrow> 'a option \<Rightarrow> 'a option option" where
  "build_args ok args = (if fst ok \<and> snd ok then map_option Some args else Some None)"

text \<open>\<open>PyObject_CallObject\<close> (Python 3) with the calls \<open>made\<close>, the present one last: \<open>py\<close> is the exception
  the function itself ends with, if any. When it returns a result although it was called with an exception
  set, the interpreter makes that a \<open>SystemError\<close> and returns NULL, unless the function happened to clear
  the error indicator on its way (\<open>clears\<close>), say by catching an exception of its own.\<close>

definition call_outcome :: "('c option list \<Rightarrow> exn option) \<Rightarrow> ('c option list \<Rightarrow> bool) \<Rightarrow> 'c option list \<Rightarrow> exn option" where
  "call_outcome py clears made =
     (case py made of
        Some ex \<Rightarrow> Some ex
      | None \<Rightarrow> if last made = None \<and> \<not> clears made then Some SystemError else None)"

lemma call_outcome_given: "last made \<noteq> None \<Longrightarrow> call_outcome py clears made = py made"
  by (simp add: call_outcome_def split: option.split)

definition PythonCallBack_mem ::
  "memory \<Rightarrow> ((pkthdr \<times> u8 list) option list \<Rightarrow> exn option) \<Rightarrow> ((pkthdr \<times> u8 list) option list \<Rightarrow> bool) \<Rightarrow>
     memctx \<Rightarrow> packet \<Rightarrow> (memctx \<times> bool) option" where
  "PythonCallBack_mem mem py clears ctx = (\<lambda>(header, packetdata). do {
     let ok = mem (length (m_calls ctx));
     arglist \<leftarrow> build_args ok (map_option (\<lambda>data. (new_pcap_pkthdr header, data)) (bytes_of packetdata (h_caplen header)));
     let made = m_calls ctx @ [arglist];
     let raised = call_outcome py clears made;
     if fst ok then Some (ctx\<lparr>m_calls := made, m_pyerr := raised\<rparr>, raised \<noteq> None) else None })"

definition FilteredCallBack_mem ::
  "endian \<Rightarrow> mt_pktinfo \<Rightarrow> memory \<Rightarrow> ((pkthdr \<times> u8 list \<times> nat) option list \<Rightarrow> exn option) \<Rightarrow>
     ((pkthdr \<times> u8 list \<times> nat) option list \<Rightarrow> bool) \<Rightarrow> FilteredContext \<times> (pkthdr \<times> u8 list \<times> nat) option list \<Rightarrow> packet \<Rightarrow>
     ((FilteredContext \<times> (pkthdr \<times> u8 list \<times> nat) option list) \<times> bool) option" where
  "FilteredCallBack_mem e pi0 mem py clears = (\<lambda>(c, made) (header, packetdata). do {
     (idx, ft) \<leftarrow> classify_dispatch e (f_cfg c) (f_ioc c) (f_flowtab c) (f_flow_cutoff c)
                    packetdata (h_caplen header) pi0;
     counted \<leftarrow> bump (f_live c) (2 + idx);
     if \<not> admits (f_admit_mask c) idx
     then do {
       live \<leftarrow> bump counted 1;
       Some ((c\<lparr>f_flowtab := ft, f_live := live\<rparr>, made), False) }
     else do {
       live \<leftarrow> bump counted 0;
       let cls = profile_base (f_cfg c) + idx;
       let ok = mem (length made);
       arglist \<leftarrow> build_args ok (map_option (\<lambda>data. (new_pcap_pkthdr header, data, cls)) (bytes_of packetdata (h_caplen header)));
       let made' = made @ [arglist];
       let raised = call_outcome py clears made';
       if fst ok then Some ((c\<lparr>f_flowtab := ft, f_live := live, f_pyerr := raised\<rparr>, made'), raised \<noteq> None)
       else None } })"

section \<open>The methods\<close>

definition p_loop_mem ::
  "memory \<Rightarrow> memctx pcap_loop \<Rightarrow> (nat \<Rightarrow> string) \<Rightarrow> ((pkthdr \<times> u8 list) option list \<Rightarrow> exn option) \<Rightarrow>
     ((pkthdr \<times> u8 list) option list \<Rightarrow> bool) \<Rightarrow> pcapobject pyobj \<Rightarrow> exn + int \<Rightarrow> ((pkthdr \<times> u8 list) option list \<times> unit cret) option" where
  "p_loop_mem mem pl geterr py clears self args =
     check_open self (\<lambda>ex. Some ([], raises ex)) (\<lambda>pp h.
       case args of Inl ex \<Rightarrow> Some ([], raises ex)
       | Inr cant \<Rightarrow> do {
           (ctx, ret) \<leftarrow> pl cant (PythonCallBack_mem mem py clears) \<lparr>m_calls = [], m_pyerr = None\<rparr>;
           if ret < 0
           then if ret \<noteq> - 2 then Some (m_calls ctx, raises (PcapError (geterr h)))
                else Some (m_calls ctx, None, m_pyerr ctx)
           else Some (m_calls ctx, Some (), m_pyerr ctx) })"

definition p_dispatch_mem ::
  "memory \<Rightarrow> memctx pcap_loop \<Rightarrow> (nat \<Rightarrow> string) \<Rightarrow> ((pkthdr \<times> u8 list) option list \<Rightarrow> exn option) \<Rightarrow>
     ((pkthdr \<times> u8 list) option list \<Rightarrow> bool) \<Rightarrow> pcapobject pyobj \<Rightarrow> exn + int \<Rightarrow> ((pkthdr \<times> u8 list) option list \<times> int cret) option" where
  "p_dispatch_mem mem pd geterr py clears self args =
     check_open self (\<lambda>ex. Some ([], raises ex)) (\<lambda>pp h.
       case args of Inl ex \<Rightarrow> Some ([], raises ex)
       | Inr cant \<Rightarrow> do {
           (ctx, ret) \<leftarrow> pd cant (PythonCallBack_mem mem py clears) \<lparr>m_calls = [], m_pyerr = None\<rparr>;
           if m_pyerr ctx \<noteq> None then Some (m_calls ctx, None, m_pyerr ctx)
           else if ret < 0
           then if ret \<noteq> - 2 then Some (m_calls ctx, raises (PcapError (geterr h)))
                else Some (m_calls ctx, None, None)
           else Some (m_calls ctx, returns ret) })"

text \<open>\<open>next()\<close> notices a missing header and replaces the exception by its own; when the tuple cannot be
  built it returns NULL with the exception of \<open>Py_BuildValue\<close>.\<close>

definition p_next_mem ::
  "bool \<times> bool \<Rightarrow> (nat \<Rightarrow> int \<times> packet) \<Rightarrow> (nat \<Rightarrow> string) \<Rightarrow> pcapobject pyobj \<Rightarrow> (pkthdr option \<times> u8 list) cret option" where
  "p_next_mem ok next_ex geterr self =
     check_open self (\<lambda>ex. Some (raises ex)) (\<lambda>pp h.
       case next_ex h of (err_code, (hdr, buf)) \<Rightarrow>
         if err_code = - 1 then Some (raises (PcapError (geterr h)))
         else if err_code = 1
         then
           if \<not> fst ok then Some (raises (PcapError (''Can'' @ [CHR 0x27] @ ''t build pkthdr'')))
           else if \<not> snd ok then Some (raises NoMemory)
           else map_option (\<lambda>data. returns (Some (new_pcap_pkthdr hdr), data)) (bytes_of buf (h_caplen hdr))
         else if \<not> snd ok then Some (raises NoMemory)
         else Some (returns (None, [])))"

section \<open>Effects\<close>

text \<open>\<open>PyObject_CallObject\<close> comes before the reference count of the header is touched.\<close>

definition call_mem_fx :: "bool \<times> bool \<Rightarrow> bool \<Rightarrow> effect list" where
  "call_mem_fx ok raised =
     [Restore] @ (if fst ok then [Acquire (Ref ''hdr'')] else [Api ''new_pcap_pkthdr'']) @
     (if fst ok \<and> snd ok then [Acquire (Ref ''arglist'')] else [Api ''Py_BuildValue'']) @
     [Api ''PyObject_CallObject''] @
     (if raised then [] else [Acquire (Ref ''result'')]) @
     (if fst ok \<and> snd ok then [Release (Ref ''arglist'')] else []) @
     (if raised then [] else [Release (Ref ''result'')]) @
     [Release (Ref ''hdr'')] @
     (if raised then [Lib ''pcap_breakloop''] else []) @
     [Save]"

lemma call_mem_fx_enough: "call_mem_fx (True, True) raised = call_fx raised"
  by (simp add: call_mem_fx_def call_fx_def)

lemma call_mem_fx_unlocked [simp]:
  "fst ok \<Longrightarrow> unlocked (call_mem_fx ok raised)" "crossings (call_mem_fx ok raised) = 1"
  by (simp_all add: call_mem_fx_def unlocked_def)

lemma call_mem_fx_stuck:
  "\<not> fst ok \<Longrightarrow> Ref ''hdr'' \<notin># own \<Longrightarrow> performs (call_mem_fx ok raised) (False, own) = None"
  by (simp add: call_mem_fx_def foldM_append)

definition PythonCallBack_mem_fx ::
  "memory \<Rightarrow> ((pkthdr \<times> u8 list) option list \<Rightarrow> exn option) \<Rightarrow> ((pkthdr \<times> u8 list) option list \<Rightarrow> bool) \<Rightarrow>
     memctx \<Rightarrow> packet \<Rightarrow> effect list option" where
  "PythonCallBack_mem_fx mem py clears ctx = (\<lambda>(header, packetdata). do {
     let ok = mem (length (m_calls ctx));
     arglist \<leftarrow> build_args ok (map_option (\<lambda>data. (new_pcap_pkthdr header, data)) (bytes_of packetdata (h_caplen header)));
     Some (call_mem_fx ok (call_outcome py clears (m_calls ctx @ [arglist]) \<noteq> None)) })"

interpretation fx_mem: effectful_callback "PythonCallBack_mem mem py clears" "PythonCallBack_mem_fx mem py clears" "\<lambda>c. length (m_calls c)"
  by unfold_locales
    (auto simp: PythonCallBack_mem_def PythonCallBack_mem_fx_def Let_def split: Option.bind_splits if_splits)

section \<open>With memory enough\<close>

text \<open>Delivering packets to two callbacks whose contexts correspond.\<close>

lemma deliver_simulation:
  assumes "\<And>s x. cb' (f s) x = map_option (apfst f) (cb s x)"
  shows "deliver cb' (f s) xs = map_option (apfst f) (deliver cb s xs)"
  by (induction xs arbitrary: s) (auto simp: assms split: Option.bind_split)

definition with_memory :: "pyctx \<Rightarrow> memctx" where
  "with_memory ctx = \<lparr>m_calls = map Some (calls ctx), m_pyerr = pyerr ctx\<rparr>"

lemma PythonCallBack_enough:
  "PythonCallBack_mem (\<lambda>_. (True, True)) (py \<circ> map the) clears (with_memory ctx) x =
     map_option (apfst with_memory) (PythonCallBack py ctx x)"
proof -
  obtain h d where x: "x = (h, d)" by fastforce
  show ?thesis
    by (cases "bytes_of d (h_caplen h)")
      (simp_all add: x PythonCallBack_mem_def PythonCallBack_def with_memory_def build_args_def call_outcome_given comp_def Let_def)
qed

text \<open>As long as the memory lasts, \<open>loop()\<close> and \<open>dispatch()\<close> are the methods of the other theories.\<close>

theorem enough_memory_refines:
  assumes "loop_contract pl src fin brk" and "loop_contract pl' src fin brk"
    and "dispatch_contract pd src' fin' brk'" and "dispatch_contract pd' src' fin' brk'"
  shows "p_loop_mem (\<lambda>_. (True, True)) pl' geterr (py \<circ> map the) clears self args =
      map_option (apfst (map Some)) (p_loop pl geterr py self args) \<and>
    p_dispatch_mem (\<lambda>_. (True, True)) pd' geterr (py \<circ> map the) clears self args =
      map_option (apfst (map Some)) (p_dispatch pd geterr py self args)"
proof -
  let ?cb = "PythonCallBack py" and ?cb' = "PythonCallBack_mem (\<lambda>_. (True, True)) (py \<circ> map the) clears"
  have start: "\<lparr>m_calls = [], m_pyerr = None\<rparr> = with_memory \<lparr>calls = [], pyerr = None\<rparr>" by (simp add: with_memory_def)
  have run: "deliver ?cb' \<lparr>m_calls = [], m_pyerr = None\<rparr> xs =
      map_option (apfst with_memory) (deliver ?cb \<lparr>calls = [], pyerr = None\<rparr> xs)" for xs
    unfolding start by (rule deliver_simulation) (rule PythonCallBack_enough)
  have "pl' n ?cb' \<lparr>m_calls = [], m_pyerr = None\<rparr> = map_option (apfst with_memory) (pl n ?cb \<lparr>calls = [], pyerr = None\<rparr>)"
    "pd' n ?cb' \<lparr>m_calls = [], m_pyerr = None\<rparr> = map_option (apfst with_memory) (pd n ?cb \<lparr>calls = [], pyerr = None\<rparr>)" for n
    using assms by (simp_all add: loop_contract_def dispatch_contract_def run split: Option.bind_split)
  then show ?thesis
    by (cases self; cases args) (auto simp: p_loop_mem_def p_dispatch_mem_def p_loop_def p_dispatch_def check_open_def with_memory_def
        split: option.split Option.bind_split)
qed

section \<open>Without memory\<close>

text \<open>The calls made for packets whose headers can be made.\<close>

definition mem_calls :: "memory \<Rightarrow> packet list \<Rightarrow> (pkthdr \<times> u8 list) option list" where
  "mem_calls mem xs = map (\<lambda>(n, x). if snd (mem n) then Some (py_args x) else None) (enumerate 0 xs)"

lemma mem_calls_snoc: "mem_calls mem (xs @ [x]) = mem_calls mem xs @ [if snd (mem (length xs)) then Some (py_args x) else None]"
  by (simp add: mem_calls_def enumerate_append_eq)

lemma mem_calls_simps [simp]: "mem_calls mem [] = []" "length (mem_calls mem xs) = length xs"
  by (simp_all add: mem_calls_def)

definition mem_inv :: "memory \<Rightarrow> ((pkthdr \<times> u8 list) option list \<Rightarrow> exn option) \<Rightarrow> packet list \<Rightarrow> memctx \<Rightarrow> bool" where
  "mem_inv mem out seen ctx \<longleftrightarrow>
     ctx = \<lparr>m_calls = mem_calls mem seen, m_pyerr = None\<rparr> \<and> never_raises out (mem_calls mem seen)"

definition mem_broken :: "memory \<Rightarrow> ((pkthdr \<times> u8 list) option list \<Rightarrow> exn option) \<Rightarrow> packet list \<Rightarrow> memctx \<Rightarrow> bool" where
  "mem_broken mem out seen ctx \<longleftrightarrow> ctx = \<lparr>m_calls = mem_calls mem seen, m_pyerr = out (mem_calls mem seen)\<rparr> \<and>
     first_raise out (mem_calls mem seen) (length seen)"

lemma PythonCallBack_mem_step:
  assumes "mem_inv mem (call_outcome py clears) seen ctx" and "captured x"
  shows "PythonCallBack_mem mem py clears ctx x =
    (if fst (mem (length seen))
     then Some (\<lparr>m_calls = mem_calls mem (seen @ [x]), m_pyerr = call_outcome py clears (mem_calls mem (seen @ [x]))\<rparr>,
       call_outcome py clears (mem_calls mem (seen @ [x])) \<noteq> None)
     else None)"
  using assms by (cases x) (auto simp: mem_inv_def PythonCallBack_mem_def build_args_def mem_calls_snoc py_args_def Let_def
      split: Option.bind_split)

interpretation mem: bounded_callback "PythonCallBack_mem mem py clears" "mem_inv mem (call_outcome py clears)"
    "mem_broken mem (call_outcome py clears)" captured "\<lambda>seen. fst (mem (length seen))"
proof unfold_locales
  let ?out = "call_outcome py clears"
  fix seen ctx x assume inv: "mem_inv mem ?out seen ctx" and cap: "captured x" and ok: "fst (mem (length seen))"
  show "\<exists>s' brk. PythonCallBack_mem mem py clears ctx x = Some (s', brk) \<and>
      (if brk then mem_broken mem ?out else mem_inv mem ?out) (seen @ [x]) s'"
    using inv ok first_raise_snoc [of ?out "mem_calls mem seen"]
    unfolding PythonCallBack_mem_step [OF inv cap]
    by (auto simp: mem_inv_def mem_broken_def mem_calls_snoc)
qed

lemma mem_calls_take: "take n (mem_calls mem xs) = mem_calls mem (take n xs)"
proof -
  have "take n (enumerate 0 xs) = enumerate 0 (take n xs)"
    by (rule nth_equalityI) (simp_all add: nth_enumerate_eq)
  then show ?thesis by (simp add: mem_calls_def take_map)
qed

text \<open>Packets whose headers can all be made, and calls that all succeed.\<close>

lemma mem_run:
  assumes "\<forall>x \<in> set xs. captured x" and "\<forall>n < length xs. fst (mem n)"
    and "never_raises (call_outcome py clears) (mem_calls mem xs)"
  shows "deliver (PythonCallBack_mem mem py clears) \<lparr>m_calls = [], m_pyerr = None\<rparr> xs =
    Some (\<lparr>m_calls = mem_calls mem xs, m_pyerr = None\<rparr>, False)"
proof -
  let ?out = "call_outcome py clears"
  have start: "mem_inv mem ?out [] \<lparr>m_calls = [], m_pyerr = None\<rparr>" by (simp add: mem_inv_def)
  have room: "\<And>n. n < length xs \<Longrightarrow> fst (mem (length ([] @ take n xs)))" using assms(2) by simp
  from mem.deliver_inv [OF start assms(1) room, unfolded append_Nil] obtain ctx brk n where
    d: "deliver (PythonCallBack_mem mem py clears) \<lparr>m_calls = [], m_pyerr = None\<rparr> xs = Some (ctx, brk)"
    "n \<le> length xs" "brk \<longrightarrow> 0 < n"
    "if brk then mem_broken mem ?out (take n xs) ctx else n = length xs \<and> mem_inv mem ?out xs ctx" by blast
  have "\<not> brk"
  proof
    assume brk
    then have "first_raise ?out (take n (mem_calls mem xs)) n"
      using d by (simp add: mem_broken_def mem_calls_take)
    then show False using assms(3) d(2) by (auto simp: first_raise_def never_raises_def)
  qed
  then show ?thesis using d by (simp add: mem_inv_def)
qed

lemma deliver_append:
  "deliver cb s (xs @ ys) = do { (s', brk) \<leftarrow> deliver cb s xs; if brk then Some (s', True) else deliver cb s' ys }"
  by (induction xs arbitrary: s) (auto split: Option.bind_split)

text \<open>The run up to the packet number \<open>k\<close>, whose call is the first that goes wrong.\<close>

lemma mem_run_until:
  assumes "\<forall>x \<in> set xs. captured x" and "k < length xs" and "\<forall>n < k. fst (mem n)"
    and "never_raises (call_outcome py clears) (take k (mem_calls mem xs))"
  shows "deliver (PythonCallBack_mem mem py clears) \<lparr>m_calls = [], m_pyerr = None\<rparr> xs =
    (if \<not> fst (mem k) then None
     else let made = take (Suc k) (mem_calls mem xs); raised = call_outcome py clears made in
       if raised \<noteq> None then Some (\<lparr>m_calls = made, m_pyerr = raised\<rparr>, True)
       else deliver (PythonCallBack_mem mem py clears) \<lparr>m_calls = made, m_pyerr = raised\<rparr> (drop (Suc k) xs))"
proof -
  have split: "xs = take k xs @ xs ! k # drop (Suc k) xs" using assms(2) by (rule id_take_nth_drop)
  have cap: "captured (xs ! k)" "\<forall>x \<in> set (take k xs). captured x"
    using assms(1,2) by (auto dest: in_set_takeD)
  have nr: "never_raises (call_outcome py clears) (mem_calls mem (take k xs))" using assms(4) by (simp add: mem_calls_take)
  have before: "deliver (PythonCallBack_mem mem py clears) \<lparr>m_calls = [], m_pyerr = None\<rparr> (take k xs) =
      Some (\<lparr>m_calls = mem_calls mem (take k xs), m_pyerr = None\<rparr>, False)"
    using assms(3) cap(2) nr by (intro mem_run) auto
  have inv: "mem_inv mem (call_outcome py clears) (take k xs) \<lparr>m_calls = mem_calls mem (take k xs), m_pyerr = None\<rparr>"
    using nr by (simp add: mem_inv_def)
  have k: "length (take k xs) = k" "take k xs @ [xs ! k] = take (Suc k) xs"
    using assms(2) by (simp_all add: take_Suc_conv_app_nth)
  show ?thesis
    by (subst (1) split) (simp add: deliver_append before PythonCallBack_mem_step [OF inv cap(1), unfolded k] mem_calls_take Let_def)
qed

lemma never_raises_given_arguments:
  assumes "never_raises py cs" and "None \<notin> set cs"
  shows "never_raises (call_outcome py clears) cs"
proof -
  have "last (take n cs) \<noteq> None" if "0 < n" "n \<le> length cs" for n
  proof -
    have "take n cs \<noteq> []" using that by auto
    then have "last (take n cs) \<in> set cs" using last_in_set in_set_takeD by metis
    then show ?thesis using assms(2) by metis
  qed
  then show ?thesis using assms(1) by (simp add: never_raises_def call_outcome_given)
qed

lemma mem_calls_given:
  assumes "\<forall>n < length xs. snd (mem n)"
  shows "mem_calls mem xs = map (Some \<circ> py_args) xs"
  using assms by (intro nth_equalityI) (auto simp: mem_calls_def nth_enumerate_eq)

section \<open>Properties\<close>

text \<open>C17: When the interpreter runs out of memory in the middle of a run (Python 3, and a libpcap that
  reports a break as -2), \<open>loop()\<close> and \<open>dispatch()\<close> call the function once more, without any arguments. At
  the first packet whose arguments cannot be built that call is the last: the packet is lost to the script,
  the run stops there, and the method returns NULL with whatever exception the function ended with, or
  with the \<open>SystemError\<close> of a result returned with an exception set. Only when the function clears the
  exception on its way do the calls go on as if nothing had happened. At the first header that cannot be
  made the call without arguments is followed by a fault, the reference count of a NULL pointer.\<close>

theorem loops_without_memory:
  assumes "loop_contract pl src fin (- 2)" and "dispatch_contract pd src 0 brk" and "fin \<in> {0, - 1}"
    and "\<forall>x \<in> set src. captured x" and "pcap pp = Some h"
  shows "let xs = offered cant src; cs = mem_calls mem xs; out = call_outcome py clears in
    (\<forall>k < length xs. (\<forall>n \<le> k. fst (mem n)) \<and> (\<forall>n < k. snd (mem n)) \<and> \<not> snd (mem k) \<and>
        never_raises py (take k cs) \<and> \<not> clears (take (Suc k) cs) \<longrightarrow>
      (let made = map (Some \<circ> py_args) (take k xs) @ [None];
           ex = (case py made of Some ex \<Rightarrow> ex | None \<Rightarrow> SystemError) in
        p_loop_mem mem pl geterr py clears (Obj pp) (Inr cant) = Some (made, raises ex) \<and>
        p_dispatch_mem mem pd geterr py clears (Obj pp) (Inr cant) = Some (made, raises ex))) \<and>
    (\<forall>k < length xs. \<not> fst (mem k) \<and> (\<forall>n < k. fst (mem n)) \<and> never_raises out (take k cs) \<longrightarrow>
        p_loop_mem mem pl geterr py clears (Obj pp) (Inr cant) = None \<and>
        p_dispatch_mem mem pd geterr py clears (Obj pp) (Inr cant) = None \<and>
        (\<forall>raised own. Ref ''hdr'' \<notin># own \<longrightarrow>
           Api ''PyObject_CallObject'' \<in> set (call_mem_fx (mem k) raised) \<and>
           performs (takeWhile (\<lambda>f. f \<noteq> Release (Ref ''hdr'')) (call_mem_fx (mem k) raised)) (False, own) = Some (True, own) \<and>
           performs (call_mem_fx (mem k) raised) (False, own) = None)) \<and>
    ((\<forall>n < length xs. fst (mem n)) \<and> never_raises out cs \<longrightarrow>
        p_loop_mem mem pl geterr py clears (Obj pp) (Inr cant) = Some (cs,
          if fin = 0 \<or> 0 < cant \<and> nat cant \<le> length src then returns () else raises (PcapError (geterr h))) \<and>
        p_dispatch_mem mem pd geterr py clears (Obj pp) (Inr cant) = Some (cs, returns (int (length xs))))"
  unfolding Let_def
proof (intro conjI allI impI)
  let ?xs = "offered cant src" and ?cs = "mem_calls mem (offered cant src)" and ?out = "call_outcome py clears"
  have cap: "\<forall>x \<in> set ?xs. captured x" using assms(4) set_offered by metis
  note methods = p_loop_mem_def p_dispatch_mem_def loop_contract_def dispatch_contract_def
  {
    fix k assume k: "k < length ?xs" and fail: "(\<forall>n \<le> k. fst (mem n)) \<and> (\<forall>n < k. snd (mem n)) \<and> \<not> snd (mem k) \<and>
        never_raises py (take k ?cs) \<and> \<not> clears (take (Suc k) ?cs)"
    define made where "made = map (Some \<circ> py_args) (take k ?xs) @ [None]"
    have given: "take k ?cs = map (Some \<circ> py_args) (take k ?xs)"
      using fail mem_calls_given [of "take k ?xs" mem] by (simp add: mem_calls_take)
    have made: "take (Suc k) ?cs = made"
      using k fail given by (simp add: made_def take_Suc_conv_app_nth) (simp add: mem_calls_def nth_enumerate_eq)
    have "never_raises ?out (take k ?cs)"
      using fail by (intro never_raises_given_arguments) (auto simp: given)
    then have run: "deliver (PythonCallBack_mem mem py clears) \<lparr>m_calls = [], m_pyerr = None\<rparr> ?xs =
        Some (\<lparr>m_calls = made, m_pyerr = Some (case py made of Some ex \<Rightarrow> ex | None \<Rightarrow> SystemError)\<rparr>, True)"
      using fail mem_run_until [OF cap k, of mem py clears]
      by (simp add: made call_outcome_def Let_def) (simp add: made_def split: option.split)
    show "p_loop_mem mem pl geterr py clears (Obj pp) (Inr cant) =
          Some (map (Some \<circ> py_args) (take k ?xs) @ [None],
            raises (case py (map (Some \<circ> py_args) (take k ?xs) @ [None]) of Some ex \<Rightarrow> ex | None \<Rightarrow> SystemError))"
      "p_dispatch_mem mem pd geterr py clears (Obj pp) (Inr cant) =
          Some (map (Some \<circ> py_args) (take k ?xs) @ [None],
            raises (case py (map (Some \<circ> py_args) (take k ?xs) @ [None]) of Some ex \<Rightarrow> ex | None \<Rightarrow> SystemError))"
      unfolding made_def [symmetric] using assms(1,2,5) run by (simp_all add: methods)
  }
  {
    fix k assume k: "k < length ?xs" and fault: "\<not> fst (mem k) \<and> (\<forall>n < k. fst (mem n)) \<and> never_raises ?out (take k ?cs)"
    then have "deliver (PythonCallBack_mem mem py clears) \<lparr>m_calls = [], m_pyerr = None\<rparr> ?xs = None"
      using mem_run_until [OF cap k, of mem py clears] by simp
    then show "p_loop_mem mem pl geterr py clears (Obj pp) (Inr cant) = None"
      "p_dispatch_mem mem pd geterr py clears (Obj pp) (Inr cant) = None"
      using assms(1,2,5) by (simp_all add: methods)
    fix raised own assume own: "Ref ''hdr'' \<notin># own"
    show "performs (call_mem_fx (mem k) raised) (False, own) = None" using fault own by (simp add: call_mem_fx_stuck)
    show "Api ''PyObject_CallObject'' \<in> set (call_mem_fx (mem k) raised)" by (simp add: call_mem_fx_def)
    show "performs (takeWhile (\<lambda>f. f \<noteq> Release (Ref ''hdr'')) (call_mem_fx (mem k) raised)) (False, own) = Some (True, own)"
      using fault by (simp add: call_mem_fx_def)
  }
  assume "(\<forall>n < length ?xs. fst (mem n)) \<and> never_raises ?out ?cs"
  then have run: "deliver (PythonCallBack_mem mem py clears) \<lparr>m_calls = [], m_pyerr = None\<rparr> ?xs =
      Some (\<lparr>m_calls = ?cs, m_pyerr = None\<rparr>, False)" by (intro mem_run [OF cap]) simp_all
  show "p_loop_mem mem pl geterr py clears (Obj pp) (Inr cant) = Some (?cs,
        if fin = 0 \<or> 0 < cant \<and> nat cant \<le> length src then returns () else raises (PcapError (geterr h)))"
    using run assms(1,3,5) by (auto simp: methods)
  show "p_dispatch_mem mem pd geterr py clears (Obj pp) (Inr cant) = Some (?cs, returns (int (length ?xs)))"
    using run assms(2,5) by (simp add: methods)
qed

theorem loops_without_memory_witness:
  "p_loop_mem (\<lambda>n. (True, n \<noteq> 1)) (reference_loop (map sample_packet [[], [0, 0], []]) 0 (- 2)) (\<lambda>_. []) (\<lambda>_. None)
      (\<lambda>_. False) (Obj sample_object) (Inr 0) = Some ([Some (py_args (sample_packet [])), None], raises SystemError) \<and>
   p_loop_mem (\<lambda>n. (n \<noteq> 1, True)) (reference_loop (map sample_packet [[], [0, 0], []]) 0 (- 2)) (\<lambda>_. []) (\<lambda>_. None)
      (\<lambda>_. False) (Obj sample_object) (Inr 0) = None"
proof -
  let ?src = "map sample_packet [[], [0, 0], []]"
  have cap: "\<forall>x \<in> set ?src. captured x" by simp
  have off: "offered 0 ?src = ?src" by (simp add: offered_def)
  note run = loops_without_memory [where src = ?src and fin = 0 and brk = 0 and cant = 0 and py = "\<lambda>_. None"
      and clears = "\<lambda>_. False" and geterr = "\<lambda>_. []", OF reference_loop_contract reference_dispatch_contract _ cap sample_simps(1),
      unfolded Let_def off]
  have raises: "never_raises (\<lambda>_. None) cs" for cs :: "(pkthdr \<times> u8 list) option list" by (simp add: never_raises_def)
  have one: "\<forall>n < (1 :: nat). P n" if "P 0" for P using that by simp
  have "p_loop_mem (\<lambda>n. (True, n \<noteq> 1)) (reference_loop ?src 0 (- 2)) (\<lambda>_. []) (\<lambda>_. None) (\<lambda>_. False) (Obj sample_object) (Inr 0) =
      Some ([Some (py_args (sample_packet [])), None], raises SystemError)"
    using conjunct1 [OF run [of "\<lambda>n. (True, n \<noteq> 1)"], rule_format, of 1] by (simp add: raises)
  moreover have "never_raises (call_outcome (\<lambda>_. None) (\<lambda>_. False)) (take 1 (mem_calls (\<lambda>n. (n \<noteq> 1, True)) ?src))"
    by (intro never_raises_given_arguments raises) (simp add: mem_calls_def)
  then have "p_loop_mem (\<lambda>n. (n \<noteq> 1, True)) (reference_loop ?src 0 (- 2)) (\<lambda>_. []) (\<lambda>_. None) (\<lambda>_. False) (Obj sample_object) (Inr 0) = None"
    using conjunct1 [OF conjunct2 [OF run [of "\<lambda>n. (n \<noteq> 1, True)"]], rule_format, of 1] by simp
  ultimately show ?thesis by blast
qed

text \<open>\<open>next()\<close> stays sound: whatever cannot be made, it returns a value or an exception, never both or neither.\<close>

theorem next_without_memory:
  assumes "captured (snd (next_ex h))" and "pcap pp = Some h"
  shows "\<exists>r. p_next_mem ok next_ex geterr (Obj pp) = Some r \<and> conventional r \<and>
    (fst ok \<and> snd ok \<longrightarrow> p_next next_ex geterr (Obj pp) = Some r)"
  using assms by (auto simp: p_next_mem_def p_next_def conventional_def split: prod.splits)

theorem next_without_memory_witness:
  "\<exists>r. p_next_mem (False, True) (\<lambda>_. (1, sample_packet [0, 0])) (\<lambda>_. []) (Obj sample_object) = Some r \<and> conventional r"
  using next_without_memory [of "\<lambda>_. (1, sample_packet [0, 0])" 1 sample_object "(False, True)"] by auto

text \<open>For an admitted packet \<open>FilteredCallBack\<close> behaves in the same way; dropped ones need no memory.\<close>

theorem filtered_callback_without_memory:
  assumes "FilteredCallBack e pi0 (\<lambda>_. None) c x = Some (c', brk)"
  shows "if f_calls c' = f_calls c
     then FilteredCallBack_mem e pi0 mem py clears (c, made) x = Some ((c', made), False)
     else if fst (mem (length made))
     then (let made' = made @ [if snd (mem (length made)) then Some (last (f_calls c')) else None];
         raised = call_outcome py clears made' in
       FilteredCallBack_mem e pi0 mem py clears (c, made) x =
         Some ((c'\<lparr>f_calls := f_calls c, f_pyerr := raised\<rparr>, made'), raised \<noteq> None))
     else FilteredCallBack_mem e pi0 mem py clears (c, made) x = None"
  using assms
  by (cases x) (auto simp: FilteredCallBack_def FilteredCallBack_mem_def build_args_def Let_def
      split: Option.bind_splits if_splits)

end
