(* ===== verification/Session_Calls.thy ===== *)
theory Session_Calls
  imports Sessions Effects_Module
begin

text \<open>
  How \<open>Sessions\<close> and the effect traces belong together: a capture call of \<open>src/pcapobj.cc\<close>, as the
  sequence of its effects, is a run of the state machine in which the thread of the call takes the steps
  \<open>Call\<close>, \<open>Parsed\<close>, one \<open>CallBack\<close> and \<open>Return\<close> for every call of the Python function, and \<open>Finish\<close>. The
  points between the steps are the changes of the interpreter lock in the trace, and the calls of
  \<open>pcap_breakloop\<close> and \<open>pcap_geterr\<close> are the uses of the handle that the machine emits.
\<close>

section \<open>What both have in common\<close>

datatype step = Unlock | Lock | Handle_Use

fun step_of :: "effect \<Rightarrow> step list" where
  "step_of Save = [Unlock]"
| "step_of Restore = [Lock]"
| "step_of (Lib f) = (if f = ''pcap_breakloop'' \<or> f = ''pcap_geterr'' then [Handle_Use] else [])"
| "step_of _ = []"

definition steps_of :: "effect list \<Rightarrow> step list" where
  "steps_of tr = concat (map step_of tr)"

lemma steps_of_simps [simp]:
  "steps_of [] = []" "steps_of (f # tr) = step_of f @ steps_of tr" "steps_of (xs @ ys) = steps_of xs @ steps_of ys"
  by (simp_all add: steps_of_def)

text \<open>The same of an action: going on after the arguments ends in releasing the lock - in \<open>next()\<close>, which has
  none to convert, the first action does -, a callback and the end of the call begin with retaking it.\<close>

fun step_of_action :: "action \<Rightarrow> step list" where
  "step_of_action (Call m) = (if m = Next then [Unlock] else [])"
| "step_of_action (Parsed ok) = (if ok then [Unlock] else [])"
| "step_of_action CallBack = [Lock]"
| "step_of_action (Return raised) = (if raised then [Handle_Use] else []) @ [Unlock]"
| "step_of_action (Finish failed) = Lock # (if failed then [Handle_Use] else [])"
| "step_of_action _ = []"

definition steps_of_actions :: "action list \<Rightarrow> step list" where
  "steps_of_actions as = concat (map step_of_action as)"

lemma steps_of_actions_simps [simp]:
  "steps_of_actions [] = []" "steps_of_actions (a # as) = step_of_action a @ steps_of_actions as"
  "steps_of_actions (as @ bs) = steps_of_actions as @ steps_of_actions bs"
  by (simp_all add: steps_of_actions_def)

section \<open>One call\<close>

text \<open>The actions of a capture call: \<open>rs\<close> says for each callback whether it raised.\<close>

definition callbacks :: "bool list \<Rightarrow> action list" where
  "callbacks rs = concat (map (\<lambda>r. [CallBack, Return r]) rs)"

definition one_call :: "meth \<Rightarrow> bool list \<Rightarrow> bool \<Rightarrow> action list" where
  "one_call m rs failed = Call m # (if parses m then [Parsed True] else []) @ callbacks rs @ [Finish failed]"

definition call_events :: "meth \<Rightarrow> nat \<Rightarrow> bool list \<Rightarrow> bool \<Rightarrow> event list" where
  "call_events m h rs failed =
     Enter (Some h) # map (\<lambda>r. Touch (Some h)) (filter id rs) @ Leave (Some h) #
     (if failed \<and> asks_error m then [Touch (Some h)] else [])"

lemma callbacks_simps [simp]:
  "callbacks [] = []" "callbacks (r # rs) = CallBack # Return r # callbacks rs"
  "callbacks (rs @ rs') = callbacks rs @ callbacks rs'"
  by (simp_all add: callbacks_def)

lemma set_stack_same [simp]:
  "t < length (stacks s) \<Longrightarrow> set_stack t (stacks s ! t) s = s"
  "set_stack t fs (set_stack t fs' s) = set_stack t fs s"
  by (simp_all add: set_stack_def)

lemma emits_callbacks:
  assumes "t < length (stacks s)" and "rs \<noteq> [] \<longrightarrow> calls_back m"
    and "stacks s ! t = \<lparr>kind = m, phase = InLibrary, ppcap_t = Some h\<rparr> # fs"
  shows "emits act s (map (Pair t) (callbacks rs)) = Some (map (\<lambda>r. Touch (Some h)) (filter id rs), s)"
  using assms(2)
proof (induction rs)
  case (Cons r rs)
  have "set_stack t (\<lparr>kind = m, phase = InLibrary, ppcap_t = Some h\<rparr> # fs) s = s"
    using set_stack_same(1) [OF assms(1)] by (simp add: assms(3))
  then show ?case using Cons assms(1,3) by simp
qed simp

text \<open>Nothing else happening meanwhile, a call takes the session back to where it was.\<close>

lemma emits_one_call:
  assumes "in_python s t" and "pcap (self s) = Some h" and "capture_call m" and "rs \<noteq> [] \<longrightarrow> calls_back m"
  shows "emits act s (map (Pair t) (one_call m rs failed)) = Some (call_events m h rs failed, s)"
proof -
  have t: "t < length (stacks s)" using assms(1) by (simp add: in_python_def)
  let ?f = "\<lparr>kind = m, phase = InLibrary, ppcap_t = Some h\<rparr>"
  have use: "use_handle t m fs s' = ([Enter (Some h)], set_stack t (?f # fs) s')" if "pcap (self s') = Some h" for fs s'
    using assms(3) that by (cases m) (simp_all add: use_handle_def capture_call_def)
  have "emits act s (map (Pair t) (Call m # (if parses m then [Parsed True] else []))) =
      Some ([Enter (Some h)], set_stack t (?f # stacks s ! t) s)"
    using assms(1,2) t by (simp add: use)
  moreover have "emits act (set_stack t (?f # stacks s ! t) s) [(t, Finish failed)] =
      Some (Leave (Some h) # (if failed \<and> asks_error m then [Touch (Some h)] else []), s)"
    using t assms(2) by simp
  ultimately show ?thesis
    using emits_callbacks [OF _ assms(4), of t "set_stack t (?f # stacks s ! t) s" h "stacks s ! t"] t
    unfolding one_call_def append_Cons [symmetric] append_assoc [symmetric] map_append emits_append by (simp add: call_events_def)
qed

section \<open>Callbacks\<close>

text \<open>A callback whose effects are calls of the Python function.\<close>

locale calling_callback = effectful_callback cb fx calls_of
  for cb :: "'s \<Rightarrow> packet \<Rightarrow> ('s \<times> bool) option" and fx and calls_of :: "'s \<Rightarrow> nat" +
  assumes calling: "fx s x = Some t \<Longrightarrow> \<exists>rs. steps_of t = steps_of_actions (callbacks rs) \<and> length rs = crossings t"
begin

lemma deliver_calling:
  assumes "deliver (traced cb fx) (s, tr) xs = Some ((s', tr'), brk)"
  shows "\<exists>t rs. tr' = tr @ t \<and> steps_of t = steps_of_actions (callbacks rs) \<and> length rs = crossings t"
  using assms
proof (induction xs arbitrary: s tr)
  case (Cons x xs)
  obtain s1 t1 b where step: "cb s x = Some (s1, b)" "fx s x = Some t1"
    and rest: "if b then (s', tr') = (s1, tr @ t1) else deliver (traced cb fx) (s1, tr @ t1) xs = Some ((s', tr'), brk)"
    using Cons.prems by (auto simp: traced_def split: Option.bind_splits if_splits)
  obtain rs1 where rs1: "steps_of t1 = steps_of_actions (callbacks rs1)" "length rs1 = crossings t1"
    using calling [OF step(2)] by blast
  show ?case
  proof (cases b)
    case True
    then show ?thesis using rest rs1 by auto
  next
    case False
    then obtain t rs where "tr' = (tr @ t1) @ t" "steps_of t = steps_of_actions (callbacks rs)" "length rs = crossings t"
      using Cons.IH [of s1 "tr @ t1"] rest by auto
    then show ?thesis using rs1 by (intro exI [of _ "t1 @ t"] exI [of _ "rs1 @ rs"]) simp
  qed
qed (intro exI [of _ "[]"]; simp)

lemma loop_calling:
  assumes "loop_contract pl src fin brk" and "pl n (traced cb fx) (s, []) = Some ((s', t), ret)"
  shows "\<exists>rs. steps_of t = steps_of_actions (callbacks rs) \<and> length rs = crossings t"
  using assms deliver_calling [of s "[]"] by (fastforce simp: loop_contract_def split: Option.bind_splits)

lemma dispatch_calling:
  assumes "dispatch_contract pd src dfin brk" and "pd n (traced cb fx) (s, []) = Some ((s', t), ret)"
  shows "\<exists>rs. steps_of t = steps_of_actions (callbacks rs) \<and> length rs = crossings t"
  using assms deliver_calling [of s "[]"] by (fastforce simp: dispatch_contract_def split: Option.bind_splits)

end

lemma call_fx_steps: "steps_of (call_fx raised) = steps_of_actions (callbacks [raised])"
  by (simp add: call_fx_def)

interpretation calling_plain: calling_callback "PythonCallBack py" "PythonCallBack_fx py" "\<lambda>c. length (calls c)"
proof unfold_locales
  fix ctx x t assume "PythonCallBack_fx py ctx x = Some t"
  then obtain raised where "t = call_fx raised" by (auto simp: PythonCallBack_fx_def split: prod.splits Option.bind_splits)
  then show "\<exists>rs. steps_of t = steps_of_actions (callbacks rs) \<and> length rs = crossings t"
    by (intro exI [of _ "[raised]"]) (simp only: call_fx_steps, simp)
qed

interpretation calling_filt: calling_callback "FilteredCallBack e pi0 py" "FilteredCallBack_fx e pi0 py" "\<lambda>c. length (f_calls c)"
proof unfold_locales
  fix c x t assume "FilteredCallBack_fx e pi0 py c x = Some t"
  then consider "t = []" | raised where "t = call_fx raised"
    by (auto simp: FilteredCallBack_fx_def split: prod.splits Option.bind_splits if_splits)
  then show "\<exists>rs. steps_of t = steps_of_actions (callbacks rs) \<and> length rs = crossings t"
  proof cases
    case 1
    then show ?thesis by (intro exI [of _ "[]"]) simp
  next
    case 2
    then show ?thesis by (intro exI [of _ "[raised]"]) (simp only: call_fx_steps, simp)
  qed
qed

section \<open>The methods\<close>

text \<open>A trace of method \<open>m\<close> on the open Reader \<open>pp\<close> is a run of the machine: of a whole call, or, when the
  method gives up before it releases the lock, of one whose arguments were not accepted. In either case the
  session is afterwards where it was.\<close>

definition is_session_run :: "pcapobject \<Rightarrow> nat \<Rightarrow> meth \<Rightarrow> effect list \<Rightarrow> bool" where
  "is_session_run pp h m tr \<longleftrightarrow>
     (if Save \<in> set tr
      then \<exists>rs failed. steps_of tr = steps_of_actions (one_call m rs failed) \<and> crossings tr = Suc (length rs) \<and>
        (\<forall>s t. in_python s t \<and> self s = pp \<longrightarrow>
           emits act s (map (Pair t) (one_call m rs failed)) = Some (call_events m h rs failed, s))
      else steps_of tr = [] \<and>
        (\<forall>s t. in_python s t \<and> self s = pp \<longrightarrow> emits act s (map (Pair t) [Call m, Parsed False]) = Some ([], s)))"

lemma crossings_steps: "crossings tr = count_list (steps_of tr) Lock"
proof (induction tr)
  case (Cons f tr)
  then show ?case by (cases f) simp_all
qed simp

lemma callback_locks [simp]: "count_list (steps_of_actions (callbacks rs)) Lock = length rs"
  by (induction rs) simp_all

lemma Save_in_steps: "Save \<in> set tr \<longleftrightarrow> Unlock \<in> set (steps_of tr)"
proof (induction tr)
  case (Cons f tr)
  then show ?case by (cases f) auto
qed simp

lemma session_runI:
  assumes "steps_of tr = Unlock # steps_of_actions (callbacks rs) @ Lock # (if failed then [Handle_Use] else [])"
    and "capture_call m" and "rs \<noteq> [] \<longrightarrow> calls_back m" and "pcap pp = Some h"
  shows "is_session_run pp h m tr"
proof -
  have "parses m \<longleftrightarrow> m \<noteq> Next" using assms(2) by (cases m) (auto simp: capture_call_def)
  then have "steps_of tr = steps_of_actions (one_call m rs failed)" using assms(1) by (simp add: one_call_def)
  moreover have "crossings tr = Suc (length rs)" using assms(1) by (simp add: crossings_steps)
  moreover have "Save \<in> set tr" using assms(1) by (simp add: Save_in_steps)
  moreover have "\<forall>s t. in_python s t \<and> self s = pp \<longrightarrow>
      emits act s (map (Pair t) (one_call m rs failed)) = Some (call_events m h rs failed, s)"
    using emits_one_call [OF _ _ assms(2,3)] assms(4) by blast
  ultimately show ?thesis unfolding is_session_run_def by (simp only: if_True) blast
qed

lemma no_session_runI:
  assumes "steps_of tr = []" and "parses m" and "pcap pp = Some h"
  shows "is_session_run pp h m tr"
  using assms by (auto simp: is_session_run_def Save_in_steps in_python_def)

text \<open>What the methods do before and after the capture call.\<close>

lemma quiet_parts [simp]:
  "steps_of (seq_to_ports_fx alloc site sq) = []" "steps_of (free_fx site p) = []"
  "steps_of (address_set_fx alloc a) = []" "steps_of (table_fx alloc a) = []"
  "steps_of (ipset_free_fx S) = []" "steps_of (flowtab_free_fx f) = []"
  by (auto simp: seq_to_ports_fx_def free_fx_def address_set_fx_def ipset_build_fx_def table_fx_def flowtab_build_fx_def
      ipset_free_fx_def flowtab_free_fx_def Let_def split: seq_arg.split sum.split option.split prod.split)

lemma with_config_steps:
  assumes "with_config_fx alloc a undo body = Some tr" and "steps_of undo = []"
  shows "steps_of tr = [] \<or> (\<exists>dpi tls t. body dpi tls = Some t \<and> steps_of tr = steps_of t)"
  using assms unfolding with_config_fx_def
  by (auto split: prod.splits option.splits if_splits Option.bind_splits) blast+

lemma silent_deliver:
  "deliver (traced cb silent_fx) (s, tr) xs = Some ((s', tr'), brk) \<Longrightarrow> tr' = tr"
  by (induction xs arbitrary: s) (auto simp: traced_def silent_fx_def split: Option.bind_splits if_splits)

text \<open>The part the two classifying methods share.\<close>

lemma classified_steps:
  assumes "map_option f (with_config_fx alloc a undo body) = Some tr" and "steps_of undo = []"
    and "\<And>tr. steps_of (f tr) = steps_of tr"
    and "parses m" and "pcap pp = Some h"
    and "\<And>dpi tls t. body dpi tls = Some t \<Longrightarrow> is_session_run pp h m t"
  shows "is_session_run pp h m tr"
proof -
  obtain tr' where tr': "with_config_fx alloc a undo body = Some tr'" "tr = f tr'" using assms(1) by auto
  consider "steps_of tr' = []" | dpi tls t where "body dpi tls = Some t" "steps_of tr' = steps_of t"
    using with_config_steps [OF tr'(1) assms(2)] by blast
  then show ?thesis
  proof cases
    case 1
    then show ?thesis using assms(3) tr'(2) by (intro no_session_runI assms(4,5)) simp
  next
    case 2
    then have "steps_of tr = steps_of t" using assms(3) tr'(2) by simp
    then show ?thesis using assms(6) [OF 2(1)] unfolding is_session_run_def crossings_steps Save_in_steps by (simp only:)
  qed
qed

lemma loop_session_run:
  assumes open_pp: "pcap pp = Some h" and pl: "loop_contract pl src fin brk"
    and fx: "p_loop_fx pl py (Obj pp) args = Some tr"
  shows "is_session_run pp h Loop tr"
proof (cases args)
  case (Inl ex)
  then show ?thesis using fx open_pp by (auto simp: p_loop_fx_def intro!: no_session_runI)
next
  case (Inr n)
  then obtain c t ret where run: "pl n (traced (PythonCallBack py) (PythonCallBack_fx py)) (\<lparr>calls = [], pyerr = None\<rparr>, []) =
      Some ((c, t), ret)"
    and tr: "tr = [Api ''PyArg_ParseTuple'', Acquire (Ref ''pyfunc'')] @ Save # t @ [Restore] @
      (if ret < 0 \<and> ret \<noteq> - 2 then [Lib ''pcap_geterr'', Api ''PyErr_SetString''] else []) @ [Release (Ref ''pyfunc'')]"
    using fx open_pp by (auto simp: p_loop_fx_def split: Option.bind_splits)
  obtain rs where "steps_of t = steps_of_actions (callbacks rs)" using calling_plain.loop_calling [OF pl run] by blast
  then show ?thesis by (intro session_runI [OF _ _ _ open_pp, of _ rs "ret < 0 \<and> ret \<noteq> - 2"]) (simp_all add: tr capture_call_def)
qed

lemma dispatch_session_run:
  assumes open_pp: "pcap pp = Some h" and pd: "dispatch_contract pd src dfin brk"
    and fx: "p_dispatch_fx pd py (Obj pp) args = Some tr"
  shows "is_session_run pp h Dispatch tr"
proof (cases args)
  case (Inl ex)
  then show ?thesis using fx open_pp by (auto simp: p_dispatch_fx_def intro!: no_session_runI)
next
  case (Inr n)
  then obtain c t ret where run: "pd n (traced (PythonCallBack py) (PythonCallBack_fx py)) (\<lparr>calls = [], pyerr = None\<rparr>, []) =
      Some ((c, t), ret)"
    and tr: "tr = [Api ''PyArg_ParseTuple'', Acquire (Ref ''pyfunc'')] @ Save # t @ [Restore, Api ''PyErr_Occurred''] @
           (if pyerr c \<noteq> None then []
            else if ret < 0 then (if ret \<noteq> - 2 then [Lib ''pcap_geterr'', Api ''PyErr_SetString''] else [])
            else [Api ''Py_BuildValue'']) @ [Release (Ref ''pyfunc'')]"
    using fx open_pp by (auto simp: p_dispatch_fx_def split: Option.bind_splits)
  obtain rs where "steps_of t = steps_of_actions (callbacks rs)" using calling_plain.dispatch_calling [OF pd run] by blast
  then show ?thesis
    by (intro session_runI [OF _ _ _ open_pp, of _ rs "pyerr c = None \<and> ret < 0 \<and> ret \<noteq> - 2"])
      (simp_all add: tr capture_call_def)
qed

lemma filtered_session_run:
  assumes open_pp: "pcap pp = Some h" and pl: "loop_contract pl src fin brk"
    and fx: "p_loop_filtered_fx e alloc pl pi0 py (Obj pp) args = Some tr"
  shows "is_session_run pp h LoopFiltered tr"
proof (cases args)
  case (Inl ex)
  then show ?thesis using fx open_pp by (auto simp: p_loop_filtered_fx_def intro!: no_session_runI)
next
  case (Inr a)
  from fx [unfolded p_loop_filtered_fx_def Inr check_open_simps(3) [OF open_pp] sum.case] show ?thesis
  proof (rule classified_steps, goal_cases)
    case (5 dpi tls t)
    then obtain S b c r ret where
      run: "pl (a_cnt a) (traced (FilteredCallBack e pi0 py) (FilteredCallBack_fx e pi0 py)) (b, []) = Some ((c, r), ret)" and
      t: "t = address_set_fx alloc a @ table_fx alloc a @ Save # r @ [Restore] @
              ipset_free_fx S @ flowtab_free_fx (table_of alloc a) @
              free_fx ''dpi_ports'' dpi @ free_fx ''tls_ports'' tls @
              Api ''PyErr_Occurred'' #
              (if f_pyerr c \<noteq> None then []
               else if ret < 0 then (if ret \<noteq> - 2 then [Lib ''pcap_geterr'', Api ''PyErr_SetString''] else [])
               else [Api ''Py_BuildValue''])"
      by (auto split: sum.splits Option.bind_splits)
    obtain rs where "steps_of r = steps_of_actions (callbacks rs)" using calling_filt.loop_calling [OF pl run] by blast
    then show ?case
      by (intro session_runI [OF _ _ _ open_pp, of _ rs "f_pyerr c = None \<and> ret < 0 \<and> ret \<noteq> - 2"])
        (simp_all add: t capture_call_def)
  qed (simp_all add: open_pp)
qed

lemma buffer_session_run:
  assumes open_pp: "pcap pp = Some h" and pl: "loop_contract pl src fin brk"
    and fx: "p_loop_to_buffer_fx e alloc pl pi0 (Obj pp) args = Some tr"
  shows "is_session_run pp h LoopToBuffer tr"
proof (cases args)
  case (Inl ex)
  then show ?thesis using fx open_pp by (auto simp: p_loop_to_buffer_fx_def intro!: no_session_runI)
next
  case (Inr x)
  obtain view a where x: "x = (view, a)" by fastforce
  from fx [unfolded p_loop_to_buffer_fx_def Inr x check_open_simps(3) [OF open_pp] sum.case prod.case] show ?thesis
  proof (rule classified_steps, goal_cases)
    case (5 dpi tls t)
    then obtain S b c r ret where
      run: "pl (a_cnt a) (traced (BufferCallBack e pi0) silent_fx) (b, []) = Some ((c, r), ret)" and
      t: "t = address_set_fx alloc a @ table_fx alloc a @ Save # r @ [Restore] @
              ipset_free_fx S @ flowtab_free_fx (table_of alloc a) @
              free_fx ''dpi_ports'' dpi @ free_fx ''tls_ports'' tls @ [Release View, Api ''Py_BuildValue'']"
      by (auto split: sum.splits Option.bind_splits)
    have "r = []" using pl run silent_deliver by (fastforce simp: loop_contract_def split: Option.bind_splits)
    then show ?case
      by (intro session_runI [OF _ _ _ open_pp, of _ "[]" False]) (simp_all add: t capture_call_def)
  qed (simp_all add: open_pp)
qed

lemma batch_session_run:
  assumes open_pp: "pcap pp = Some h" and pd: "dispatch_contract pd src dfin brk"
    and fx: "p_next_batch_fx alloc fill junk pd (Obj pp) args = Some tr"
  shows "is_session_run pp h NextBatch tr"
proof (cases args)
  case (Inl ex)
  then show ?thesis using fx open_pp by (auto simp: p_next_batch_fx_def intro!: no_session_runI)
next
  case (Inr n)
  define max_n where "max_n = (if sint n \<le> 0 then 256 else n)"
  show ?thesis
  proof (cases "alloc 65536 \<and> alloc (unat max_n * 16)")
    case False
    then have "steps_of tr = []" using fx open_pp
      by (auto simp: Inr p_next_batch_fx_def Let_def max_n_def [symmetric] split: if_splits)
    then show ?thesis by (intro no_session_runI open_pp) simp_all
  next
    case True
    then obtain b c r ret rest where
      run: "pd (sint max_n) (traced (BatchCallBack alloc fill junk) silent_fx) (b, []) = Some ((c, r), ret)" and
      tr: "tr = [Api ''PyArg_ParseTuple'', Acquire (Block ''buf''), Acquire (Block ''meta'')] @ Save # r @ [Restore] @ rest" and
      rest: "steps_of rest = (if ret < 0 \<and> ret \<noteq> - 2 then [Handle_Use] else [])"
      using fx open_pp by (auto simp: Inr p_next_batch_fx_def Let_def max_n_def [symmetric] split: Option.bind_splits)
    have "r = []" using pd run silent_deliver by (fastforce simp: dispatch_contract_def split: Option.bind_splits)
    then show ?thesis
      by (intro session_runI [OF _ _ _ open_pp, of _ "[]" "ret < 0 \<and> ret \<noteq> - 2"]) (simp_all add: tr rest capture_call_def)
  qed
qed

lemma next_session_run:
  assumes "pcap pp = Some h"
  shows "is_session_run pp h Next (p_next_fx next_ex (Obj pp))"
  using assms by (intro session_runI [of _ "[]" "fst (next_ex h) = - 1"]) (simp_all add: p_next_fx_def capture_call_def)

section \<open>Properties\<close>

text \<open>C11: Every capture method of an open Reader - \<open>loop\<close>, \<open>dispatch\<close>, \<open>loop_filtered\<close>, \<open>loop_to_buffer\<close>,
  \<open>next_batch\<close> and \<open>next\<close> - is a run of the machine of \<open>Sessions\<close>: its trace releases and retakes the lock
  and uses the handle exactly as the steps of the machine do, with one callback for every time the lock is
  retaken before the end, and these steps can be taken in every session whose Reader it is, emit the
  corresponding events, and lead back to the session as it was. A method that rejects its arguments does
  none of that.\<close>

theorem capture_calls_are_session_runs:
  assumes "pcap pp = Some h" and "loop_contract pl src fin brk" and "dispatch_contract pd src dfin brk"
    and "loop_contract plf src fin brk" and "loop_contract plb src fin brk" and "dispatch_contract pdb src dfin brk"
  shows "(p_loop_fx pl py (Obj pp) args = Some tr \<longrightarrow> is_session_run pp h Loop tr) \<and>
    (p_dispatch_fx pd py (Obj pp) args = Some tr \<longrightarrow> is_session_run pp h Dispatch tr) \<and>
    (p_loop_filtered_fx e alloc plf pi0 pyf (Obj pp) fargs = Some tr \<longrightarrow> is_session_run pp h LoopFiltered tr) \<and>
    (p_loop_to_buffer_fx e alloc plb pi0 (Obj pp) bargs = Some tr \<longrightarrow> is_session_run pp h LoopToBuffer tr) \<and>
    (p_next_batch_fx alloc fill junk pdb (Obj pp) cargs = Some tr \<longrightarrow> is_session_run pp h NextBatch tr) \<and>
    is_session_run pp h Next (p_next_fx next_ex (Obj pp))"
  by (intro conjI impI loop_session_run [OF assms(1,2)] dispatch_session_run [OF assms(1,3)]
      filtered_session_run [OF assms(1,4)] buffer_session_run [OF assms(1,5)] batch_session_run [OF assms(1,6)]
      next_session_run [OF assms(1)])

theorem capture_calls_are_session_runs_witness:
  "\<exists>tr. p_loop_fx (reference_loop [sample_packet [0, 0], sample_packet []] 0 (- 2)) raises_second (Obj sample_object) (Inr 0) =
      Some tr \<and> Save \<in> set tr \<and> is_session_run sample_object 1 Loop tr"
proof -
  have "\<exists>tr. p_loop_fx (reference_loop [sample_packet [0, 0], sample_packet []] 0 (- 2)) raises_second (Obj sample_object) (Inr 0) =
      Some tr \<and> Save \<in> set tr"
    by (simp add: p_loop_fx_def reference_loop_def offered_def traced_def PythonCallBack_def PythonCallBack_fx_def
        bytes_of_def sample_packet_def raises_second_def)
  then show ?thesis
    using capture_calls_are_session_runs [OF sample_simps(1) reference_loop_contract reference_dispatch_contract
        reference_loop_contract reference_loop_contract reference_dispatch_contract] by blast
qed

end
