(* ===== verification/Length_Arguments.thy ===== *)
theory Length_Arguments
  imports Callback_Memory
begin

text \<open>
  The length that \<open>next()\<close> and \<open>PythonCallBack\<close> of \<open>src/pcapobj.cc\<close> pass to \<open>Py_BuildValue\<close> for the format
  \<open>y#\<close>. With \<open>PY_SSIZE_T_CLEAN\<close> the interpreter reads 64 bits from the variable arguments; the callers pass
  32 (an \<open>int\<close>, an \<open>unsigned int\<close>). The calling convention leaves the upper half of such an argument
  unspecified: here it is a parameter. \<open>FilteredCallBack\<close> passes a \<open>Py_ssize_t\<close>.
\<close>

definition va_ssize :: "u32 \<Rightarrow> u32 \<Rightarrow> u64" where
  "va_ssize upper n = push_bit 32 (ucast upper) OR ucast n"

text \<open>The bytes object of \<open>Py_BuildValue\<close> with \<open>y#\<close> (\<open>PyBytes_FromStringAndSize\<close>): a negative length stands
  for a string that ends with a zero byte; an object, with its 33 bytes around the data, that would be
  larger than the largest size is refused, and so is one there is no memory for (\<open>alloc\<close>, in bytes);
  otherwise that many bytes are copied. \<open>None\<close> is an access behind the packet.\<close>

definition bytes_object :: "(nat \<Rightarrow> bool) \<Rightarrow> u8 list \<Rightarrow> nat \<Rightarrow> (exn + u8 list) option" where
  "bytes_object alloc d n =
     (if 2 ^ 63 - 1 - 33 < n then Some (Inl (OverflowError ''byte string is too large''))
      else if \<not> alloc (n + 33) then Some (Inl NoMemory)
      else if n \<le> length d then Some (Inr (take n d)) else None)"

definition bytes_arg :: "(nat \<Rightarrow> bool) \<Rightarrow> u8 list \<Rightarrow> u64 \<Rightarrow> (exn + u8 list) option" where
  "bytes_arg alloc d n =
     (if sint n < 0
      then if 0 \<in> set d then bytes_object alloc d (length (takeWhile (\<lambda>b. b \<noteq> 0) d)) else None
      else bytes_object alloc d (unat n))"

definition p_next_va ::
  "u32 \<Rightarrow> (nat \<Rightarrow> bool) \<Rightarrow> (nat \<Rightarrow> int \<times> packet) \<Rightarrow> (nat \<Rightarrow> string) \<Rightarrow> pcapobject pyobj \<Rightarrow>
     (pkthdr option \<times> u8 list) cret option" where
  "p_next_va upper alloc next_ex geterr self =
     check_open self (\<lambda>ex. Some (raises ex)) (\<lambda>pp h.
       case next_ex h of (err_code, (hdr, buf)) \<Rightarrow>
         if err_code = - 1 then Some (raises (PcapError (geterr h)))
         else if err_code = 1
         then do {
           v \<leftarrow> bytes_arg alloc buf (va_ssize upper (h_caplen hdr));
           Some (case v of Inl ex \<Rightarrow> raises ex | Inr data \<Rightarrow> returns (Some (new_pcap_pkthdr hdr), data)) }
         else Some (returns (None, [])))"

text \<open>A callback whose arguments cannot be built calls the function without any (\<open>Callback_Memory\<close>).\<close>

definition PythonCallBack_va ::
  "u32 \<Rightarrow> (nat \<Rightarrow> bool) \<Rightarrow> ((pkthdr \<times> u8 list) option list \<Rightarrow> exn option) \<Rightarrow>
     ((pkthdr \<times> u8 list) option list \<Rightarrow> bool) \<Rightarrow> memctx \<Rightarrow> packet \<Rightarrow> (memctx \<times> bool) option" where
  "PythonCallBack_va upper alloc py clears ctx = (\<lambda>(header, packetdata). do {
     let hdr = new_pcap_pkthdr header;
     v \<leftarrow> bytes_arg alloc packetdata (va_ssize upper (h_caplen header));
     let arglist = (case v of Inl ex \<Rightarrow> None | Inr data \<Rightarrow> Some (hdr, data));
     let made = m_calls ctx @ [arglist];
     let raised = call_outcome py clears made;
     Some (ctx\<lparr>m_calls := made, m_pyerr := raised\<rparr>, raised \<noteq> None) })"

lemma uint_va_ssize: "uint (va_ssize upper n) = 2 ^ 32 * uint upper + uint n"
proof -
  have disjoint: "push_bit 32 (ucast upper) AND (ucast n :: u64) = 0"
    by (rule bit_word_eqI) (auto simp: bit_simps dest: bit_imp_le_length)
  then have "va_ssize upper n = push_bit 32 (ucast upper) + ucast n"
    unfolding va_ssize_def by (simp add: disjunctive_add_eq_or)
  moreover have "uint upper < 2 ^ 32" "uint n < 2 ^ 32" using uint_lt2p [of upper] uint_lt2p [of n] by simp_all
  ultimately show ?thesis
    by (simp add: push_bit_eq_mult uint_word_ariths unsigned_ucast_eq take_bit_eq_mod mult.commute)
qed

lemma sint_va_ssize: "sint (va_ssize upper n) < 0 \<longleftrightarrow> sint upper < 0"
proof -
  have "bit (va_ssize upper n) 63 \<longleftrightarrow> bit upper 31"
    by (auto simp: va_ssize_def bit_simps dest: bit_imp_le_length)
  then show ?thesis using bit_last_iff [of "va_ssize upper n"] bit_last_iff [of upper] by simp
qed

lemma unat_va_ssize: "unat (va_ssize upper n) = 2 ^ 32 * unat upper + unat n"
proof -
  have "int (unat (va_ssize upper n)) = int (2 ^ 32 * unat upper + unat n)" by (simp add: uint_va_ssize)
  then show ?thesis by (simp only: of_nat_eq_iff)
qed

lemma bytes_arg_zero:
  assumes "alloc (unat n + 33)"
  shows "bytes_arg alloc d (va_ssize 0 n) = map_option Inr (bytes_of d n)"
proof -
  have "\<not> sint (va_ssize 0 n) < 0" by (simp add: sint_va_ssize)
  moreover have "\<not> 2 ^ 63 - 1 - 33 < unat n"
    by (rule leD, rule order.strict_implies_order, rule less_le_trans [OF unsigned_less]) simp
  ultimately show ?thesis
    using assms unfolding bytes_arg_def bytes_object_def bytes_of_def by (simp add: unat_va_ssize)
qed

text \<open>What the other upper halves give.\<close>

definition misread :: "u32 \<Rightarrow> (nat \<Rightarrow> bool) \<Rightarrow> u32 \<Rightarrow> u8 list \<Rightarrow> (exn + u8 list) option" where
  "misread upper alloc n d =
     (if sint upper < 0 then if 0 \<in> set d then Some (Inr (takeWhile (\<lambda>b. b \<noteq> 0) d)) else None
      else if 2 ^ 63 - 34 < 2 ^ 32 * unat upper + unat n then Some (Inl (OverflowError ''byte string is too large''))
      else if \<not> alloc (2 ^ 32 * unat upper + unat n + 33) then Some (Inl NoMemory)
      else None)"

lemma bytes_arg_upper:
  assumes "upper \<noteq> 0" and "length d < 2 ^ 32" and "\<forall>k \<le> length d. alloc (k + 33)"
  shows "bytes_arg alloc d (va_ssize upper n) = misread upper alloc n d"
proof -
  have "0 < unat upper" using assms(1) by (simp add: unat_gt_0)
  then have "(2 :: nat) ^ 32 * 1 \<le> 2 ^ 32 * unat upper" by (intro mult_le_mono2) simp
  then have long: "length d < unat (va_ssize upper n)" using assms(2) unfolding unat_va_ssize by linarith
  have short: "length (takeWhile (\<lambda>b. b \<noteq> 0) d) \<le> length d" by (rule length_takeWhile_le)
  with assms(2,3) have "bytes_object alloc d (length (takeWhile (\<lambda>b. b \<noteq> 0) d)) = Some (Inr (takeWhile (\<lambda>b. b \<noteq> 0) d))"
    by (simp add: bytes_object_def flip: takeWhile_eq_take)
  with long show ?thesis by (simp add: bytes_arg_def misread_def sint_va_ssize bytes_object_def unat_va_ssize)
qed

text \<open>C29: With a zero upper half and memory for the packet, \<open>next()\<close> and the callback are the functions of
  the other theories. With any other upper half \<open>next()\<close> returns, and the callback passes on, the bytes
  before the first zero byte of the packet when the sign bit is set (and both read behind the packet when
  it has no zero byte); otherwise they ask for more than 4 GiB: that is an exception when the length is
  too large for a bytes object or there is no memory for it, and the function is then called without
  arguments, and it reads behind the packet when there is.\<close>

theorem next_length_argument:
  assumes "next_ex h = (1, (hdr, d))" and "captured (hdr, d)" and "length d < 2 ^ 32" and "pcap pp = Some h"
    and "\<forall>k \<le> length d. alloc (k + 33)"
  shows "p_next_va 0 alloc next_ex geterr (Obj pp) = p_next next_ex geterr (Obj pp) \<and>
    PythonCallBack_va 0 alloc (py \<circ> map the) clears (with_memory c0) (hdr, d) =
      map_option (apfst with_memory) (PythonCallBack py c0 (hdr, d)) \<and>
    (upper \<noteq> 0 \<longrightarrow>
      p_next_va upper alloc next_ex geterr (Obj pp) =
        (case misread upper alloc (h_caplen hdr) d of
           None \<Rightarrow> None
         | Some (Inl ex) \<Rightarrow> Some (raises ex)
         | Some (Inr data) \<Rightarrow> Some (returns (Some (new_pcap_pkthdr hdr), data))) \<and>
      PythonCallBack_va upper alloc pyv clears ctx (hdr, d) =
        (case misread upper alloc (h_caplen hdr) d of
           None \<Rightarrow> None
         | Some v \<Rightarrow>
             let made = m_calls ctx @ [case v of Inl ex \<Rightarrow> None | Inr data \<Rightarrow> Some (new_pcap_pkthdr hdr, data)] in
             Some (ctx\<lparr>m_calls := made, m_pyerr := call_outcome pyv clears made\<rparr>, call_outcome pyv clears made \<noteq> None)))"
proof -
  have "unat (h_caplen hdr) \<le> length d" using assms(2) by (simp add: captured_def)
  then have zero: "bytes_arg alloc d (va_ssize 0 (h_caplen hdr)) = map_option Inr (bytes_of d (h_caplen hdr))"
    using assms(5) by (intro bytes_arg_zero) blast
  note upper = bytes_arg_upper [OF _ assms(3,5), of upper "h_caplen hdr"]
  have call: "PythonCallBack_va 0 alloc (py \<circ> map the) clears (with_memory c0) (hdr, d) =
      PythonCallBack_mem (\<lambda>_. (True, True)) (py \<circ> map the) clears (with_memory c0) (hdr, d)"
    by (cases "bytes_of d (h_caplen hdr)") (simp_all add: PythonCallBack_va_def PythonCallBack_mem_def zero build_args_def Let_def)
  have "p_next_va 0 alloc next_ex geterr (Obj pp) = p_next next_ex geterr (Obj pp)"
    using assms(1,4) by (cases "bytes_of d (h_caplen hdr)") (simp_all add: p_next_va_def p_next_def zero)
  moreover have "PythonCallBack_va 0 alloc (py \<circ> map the) clears (with_memory c0) (hdr, d) =
      map_option (apfst with_memory) (PythonCallBack py c0 (hdr, d))"
    unfolding call by (rule PythonCallBack_enough)
  ultimately show ?thesis
    using assms(1,4) upper
    by (auto simp: p_next_va_def PythonCallBack_va_def Let_def split: option.splits sum.splits)
qed

text \<open>The witness: a packet of two bytes, the second zero, with the upper half 1 and with all ones.\<close>

theorem next_length_argument_witness:
  "p_next_va 1 (\<lambda>n. n < 2 ^ 32) (\<lambda>_. (1, sample_packet [7, 0])) (\<lambda>_. []) (Obj sample_object) = Some (raises NoMemory) \<and>
   p_next_va 1 (\<lambda>_. True) (\<lambda>_. (1, sample_packet [7, 0])) (\<lambda>_. []) (Obj sample_object) = None \<and>
   p_next_va (- 1) (\<lambda>_. True) (\<lambda>_. (1, sample_packet [7, 0])) (\<lambda>_. []) (Obj sample_object) =
     Some (returns (Some (new_pcap_pkthdr (fst (sample_packet [7, 0]))), [7]))"
proof -
  have "captured (fst (sample_packet [7, 0]), [7, 0])" by (simp add: sample_packet_def captured_def)
  note arg = next_length_argument [of "\<lambda>_. (1, sample_packet [7, 0])" 1 "fst (sample_packet [7, 0])" "[7, 0]" sample_object
      _ "\<lambda>_. []", OF _ this]
  show ?thesis
    using arg [of "\<lambda>n. n < 2 ^ 32" "\<lambda>_. None" "\<lambda>_. False" "\<lparr>calls = [], pyerr = None\<rparr>" 1]
      arg [of "\<lambda>_. True" "\<lambda>_. None" "\<lambda>_. False" "\<lparr>calls = [], pyerr = None\<rparr>" 1]
      arg [of "\<lambda>_. True" "\<lambda>_. None" "\<lambda>_. False" "\<lparr>calls = [], pyerr = None\<rparr>" "- 1"]
    by (simp add: sample_packet_def misread_def)
qed

end
