(* ===== verification/Spec2Isabelle.thy ===== *)
theory Spec2Isabelle
  imports Ipv4_Locate Ipset Flowtab Classify Pyobj Loops Filtered Ring_Buffer Batch Reader Module
    Windows_Guid Windows_Devices Draining Reading Live_Stats Shared_Counters Wrap_Around Copying
    Monitored Sessions Dumper_Life Effects Effects_Module Effects_Handles Module_Init Type_Objects
    Callback_Memory Session_Calls Length_Arguments
begin

text \<open>
  A verification library for pcapy-ng, the Python extension module around libpcap
  (\<open>src/pcapobj.cc\<close>, \<open>src/pcapy.cc\<close>, \<open>src/pcap_pkthdr.cc\<close>, \<open>src/pcapdumper.cc\<close>, \<open>src/bpfobj.cc\<close>).

  \<^bold>\<open>The program.\<close> A Reader object wraps a \<open>pcap_t\<close>. Its plain methods are a type check, a closed
  check, argument parsing and one call into libpcap. Three methods carry logic of their own:
  \<open>loop_filtered\<close> classifies every packet in C and calls Python only for admitted classes,
  \<open>loop_to_buffer\<close> writes the admitted packets into a caller's buffer, and \<open>next_batch\<close> collects the
  packets of one dispatch. The classifier behind the first two finds the IPv4 header behind VLAN
  tags, looks addresses up in a hash set, and counts packets per flow in a hash table that
  overwrites on collision.

  \<^bold>\<open>Theories and source.\<close>
  \<^item> \<open>Prelude\<close>: C integer types as words, memory reads and writes that fail outside the object,
    byte order, word arithmetic below the wrap-around.
  \<^item> \<open>Ipv4_Locate\<close>: \<open>locate_ipv4\<close> and the copy of its loop in \<open>mt_classify\<close>; their equivalence, their
    specification on offsets (the first place behind at most two tags that looks like a header), VLAN frames.
  \<^item> \<open>Ipset\<close>: \<open>struct mt_ipset\<close>, \<open>ipset_slot\<close>, \<open>ipset_build\<close>, \<open>ipset_has\<close>; the probing invariant, the
    interface \<open>addr_set\<close> and its interpretation, exact membership, and the endless loop on a table that is
    too small.
  \<^item> \<open>Flowtab\<close>: \<open>struct mt_flowtab\<close>, \<open>flow_key\<close>, \<open>flow_seen\<close>; injectivity of the finalizer, the
    interface \<open>flow_counter\<close> and its interpretation.
  \<^item> \<open>Classify\<close>: \<open>mt_classify\<close>, \<open>classify_refine\<close>, \<open>classify_generic\<close>, \<open>classify_dispatch\<close>; decision
    tables on an abstract packet view, refinement of both classifiers to them, the interface
    \<open>classifier\<close>.
  \<^item> \<open>Pyobj\<close>: results of C functions, packet headers (\<open>src/pcap_pkthdr.cc\<close>), the \<open>pcapobject\<close>.
  \<^item> \<open>Loops\<close>: the contract of \<open>pcap_loop\<close> and \<open>pcap_dispatch\<close>, the callback interfaces
    \<open>bounded_callback\<close> and \<open>packet_callback\<close>, \<open>PythonCallBack\<close>, \<open>p_loop\<close>, \<open>p_dispatch\<close>.
  \<^item> \<open>Filtered\<close>: \<open>seq_to_ports\<close>, \<open>FilteredCallBack\<close>, \<open>p_loop_filtered\<close>, \<open>p_filtered_stats\<close>.
  \<^item> \<open>Ring_Buffer\<close>: \<open>BufferCallBack\<close>, \<open>p_loop_to_buffer\<close> and a parser of its slot format.
  \<^item> \<open>Batch\<close>: \<open>BatchCallBack\<close>, \<open>p_next_batch\<close> and the documented unpacking of a batch.
  \<^item> \<open>Reader\<close>: the other methods of the Reader, and the life cycle of its handle.
  \<^item> \<open>Module\<close>: dump files, BPF programs, the module functions.
  \<^item> \<open>Windows_Guid\<close>, \<open>Windows_Devices\<close>: the GUID parser of the Windows build and exactly what it
    accepts, the translation between device names and friendly names, and its round trip.
  \<^item> \<open>Draining\<close>: reading a file with \<open>next_batch\<close> until a batch is empty: it ends, and gives every packet.
  \<^item> \<open>Reading\<close>: reading a file with any mixture of \<open>next\<close>, \<open>dispatch\<close>, \<open>loop\<close>, \<open>loop_filtered\<close>,
    \<open>loop_to_buffer\<close> and \<open>next_batch\<close>; the interface \<open>savefile\<close> to libpcap on a file, and that the calls partition the file.
  \<^item> \<open>Copying\<close>: dumping from a callback copies the capture, or the part that the filter admits.
  \<^item> \<open>Live_Stats\<close>: \<open>filtered_stats\<close> called from another thread between two increments of a run.
  \<^item> \<open>Shared_Counters\<close>: several runs of \<open>loop_filtered\<close> on one Reader, each with its own context and the
    counters of the object, built from the same start (\<open>begin_filtered\<close>) and callback as the method itself.
  \<^item> \<open>Wrap_Around\<close>: batches of 4 GiB and more, slots of packets of almost 4 GiB.
  \<^item> \<open>Monitored\<close>: runs of a system against a monitor of its events; the interfaces \<open>monitored\<close> and
    \<open>well_behaved\<close>, which say which actions keep the rule of the monitor.
  \<^item> \<open>Sessions\<close>: a Reader used by several threads and from its own callbacks and argument conversions,
    as a state machine with a stack of methods per thread; the rule of libpcap on handles as a monitor,
    and exactly which calls of \<open>close()\<close> break it.
  \<^item> \<open>Dumper_Life\<close>: the same for a Dumper, where no call breaks the rule.
  \<^item> \<open>Effects\<close>, \<open>Effects_Module\<close>, \<open>Effects_Handles\<close>: the second reading of the methods, as sequences of effects on the lock
    of the interpreter and on what is owned (blocks, references, buffer views, library handles, compiled
    filters), executed by a ledger that gets stuck on a call without the lock, a double free or a use
    after free. The interface \<open>effectful_callback\<close> ties each callback of the other theories to its effects.
  \<^item> \<open>Session_Calls\<close>: the effect traces of the capture methods are runs of the machine of \<open>Sessions\<close>: same
    changes of the lock, same uses of the handle.
  \<^item> \<open>Callback_Memory\<close>: the two Python callbacks and \<open>next\<close> when the header object or the arguments of a
    call cannot be allocated: a call without arguments while an exception is set, and what Python 3 makes of
    its result; with memory enough they are the functions of \<open>Loops\<close>.
  \<^item> \<open>Length_Arguments\<close>: the lengths that \<open>next\<close> and \<open>PythonCallBack\<close> pass as 32 bits where 64 are read, and
    the bytes object, exception or fault they give; the other theories take the upper half to be zero.
  \<^item> \<open>Module_Init\<close>: method tables, the module definition and the dictionary of the module, the entry
    point of the Windows library.
  \<^item> \<open>Type_Objects\<close>: the type tables of both major versions of Python, attribute lookup (what
    the interpreter itself provides is a parameter), the classes and objects a script can make, and what
    the type checks of the methods meet.

  \<^bold>\<open>How code is modelled.\<close> Structs are records with the fields of the source, \<open>unsigned int\<close> is a
  32-bit word, \<open>size_t\<close> and the counters are 64-bit words, and all arithmetic on them wraps.
  \<open>None\<close> is undefined behaviour (an access outside the object) or, for the two probing loops of the
  address set, a loop that never ends; every functional theorem states that the result is \<open>Some\<close>.
  A method returns the pointer it returns (\<open>None\<close> for NULL) together with the error indicator, and
  the new state of what it changes. Parsed Python arguments are the input of a method, or the
  exception that parsing raised. Parameters of the model are libpcap (with \<open>loop_contract\<close> and
  \<open>dispatch_contract\<close> as hypotheses, and \<open>reference_loop\<close>, \<open>reference_dispatch\<close> as instances; both
  can end with a read error or a break requested by another party), the
  Python callback (a function from the calls made to the exception raised), the allocator (which
  sizes succeed), the contents of fresh memory, and the byte order of the host.

  \<^bold>\<open>Bounds.\<close> The address-set theorems hold for packed lists below 4 GiB (2^30 addresses, so that
  \<open>n * 2 + 1\<close> and \<open>i * 4\<close> do not wrap); what happens at 2^31 addresses is a theorem of its own, which
  states the full table and the endless walk over it, not only that there is no result. The
  buffer theorems ask for packets whose length plus five fits 32 bits, and for buffers below 2^63
  bytes, the largest Python object. Batches are sliced back while they are below 4 GiB, since
  offsets have 32 bits, and reading a whole file is shown for batches, address lists and slots within these
  bounds, with memory available. Layer-2 offsets are at most 64, as the methods check. Counters of packets
  are words and the theorems on them hold modulo 2^64 without a bound on the run.

  Draining a file needs \<open>batches\<close> calls, one per full batch, one for the rest and the empty one; the
  theorem gives that number as fuel and any more will do. Polling is stated for runs of fewer than
  2^63 packets, so that no counter wraps between two readings.

  In \<open>Sessions\<close> the stretches of C code between two changes of the interpreter lock are atomic steps, and
  libpcap is present through its rule on handles only; \<open>Session_Calls\<close> shows that the traces of the methods
  break into exactly these steps. The theories of the single methods describe a method during which the
  Reader is not closed, which \<open>Sessions\<close> justifies for closing while idle.

  \<^bold>\<open>Not modelled.\<close> Documentation strings of the methods; failure to allocate the results of the methods
  (numbers, strings, tuples), for which the interpreter raises, save those of \<open>next\<close> and \<open>next_batch\<close>; the
  bytes formats of Python 2, which also take text; callbacks of Python 2 that run out of memory, where the
  interpreter does not check the result of the call; the packets of two loops that run on one handle at
  the same time, which libpcap does not support (their counters are in \<open>Shared_Counters\<close>); the API of
  \<open>iphlpapi.dll\<close> and the conversion to UTF-8 (parameters of \<open>guid_to_luid\<close>); declarations in headers. In
  the effect traces a result handed to the interpreter counts as given back, and None is not counted.
\<close>

end
